(* ===== verification/Go_Prelude.thy ===== *)
theory Go_Prelude
  imports Main "HOL-Library.Word" "HOL-Library.AList" "HOL-Library.Multiset"
    "HOL-Library.List_Lexorder" "HOL-Library.Char_ord"
begin

text \<open>
  What the components share: the Go run-time notions the sources use (panics, 64-bit
  integers, strings as byte lists, maps as association lists, pointers as indices into a
  store) and the generic lemmas about them.

  \<^item> A Go string is a byte sequence, which is exactly a HOL \<^typ>\<open>string\<close> (a list of
    8-bit characters); \<open><\<close> and \<open>\<le>\<close> on it are Go's bytewise order.
  \<^item> A Go map is an association list with distinct keys: \<open>map_of m k\<close> is the lookup,
    \<open>AList.update\<close> and \<open>AList.delete\<close> the assignment and the \<open>delete\<close> built-in, and
    the list order is the order of a \<open>range\<close> loop.
  \<^item> A run-time panic is a value \<open>Inl p\<close>; a normal return is \<open>Inr v\<close>.
\<close>

section \<open>Theorem collections\<close>

named_theorems go_defs \<open>unfolding rules of the Go run-time notions\<close>
named_theorems alist_simps \<open>association lists seen as maps\<close>
named_theorems strategy_defs \<open>definitions of the assigners\<close>
named_theorems cleaner_defs \<open>definitions of the event cleaner\<close>
named_theorems dcron_defs \<open>definitions of the scheduler's critical sections\<close>

section \<open>Panics\<close>

datatype go_panic =
    NilDeref
  | DivideByZero
  | IndexOutOfRange
  | MakeSliceLenOutOfRange
  | CloseOfClosedChannel

type_synonym 'a go = "go_panic + 'a"

primrec go_bind :: "'a go \<Rightarrow> ('a \<Rightarrow> 'b go) \<Rightarrow> 'b go" where
  "go_bind (Inl p) f = Inl p"
| "go_bind (Inr v) f = f v"

lemma go_bind_Inr_iff: "go_bind m f = Inr v \<longleftrightarrow> (\<exists>w. m = Inr w \<and> f w = Inr v)"
  by (cases m) auto

lemma go_bind_Inl_iff:
  "go_bind m f = Inl p \<longleftrightarrow> m = Inl p \<or> (\<exists>w. m = Inr w \<and> f w = Inl p)"
  by (cases m) auto

section \<open>Integers\<close>

text \<open>Go's \<open>int\<close> on a 64-bit platform: the two's-complement value of the low 64 bits.\<close>

definition go_int :: "int \<Rightarrow> int" where
  [go_defs]: "go_int x = sint (word_of_int x :: 64 word)"

definition int_range :: "int \<Rightarrow> bool" where
  "int_range x \<longleftrightarrow> - (2 ^ 63) \<le> x \<and> x < 2 ^ 63"

lemma go_int_id: "int_range x \<Longrightarrow> go_int x = x"
  unfolding go_int_def int_range_def
  by (simp add: sint_sbintrunc' signed_take_bit_int_eq_self)

text \<open>The conversion \<open>uint32(x)\<close> keeps the low 32 bits, whatever \<open>go_int\<close> wrapped away.\<close>

definition go_uint32 :: "int \<Rightarrow> 32 word" where
  [go_defs]: "go_uint32 x = word_of_int x"

lemma unat_go_uint32_le: "0 \<le> x \<Longrightarrow> int (unat (go_uint32 x)) \<le> x"
  unfolding go_uint32_def by (simp add: unsigned_of_int take_bit_int_eq_self_iff
      take_bit_eq_mod zmod_le_nonneg_dividend)

section \<open>Association lists as maps\<close>

declare AList.update_conv' [alist_simps] AList.delete_conv' [alist_simps]

lemma map_of_keys: "k \<in> set (map fst m) \<longleftrightarrow> map_of m k \<noteq> None"
  by (induction m) auto

lemma map_of_dom: "dom (map_of m) = set (map fst m)"
  by (simp add: dom_map_of_conv_image_fst)

lemma distinct_keys_update:
  "distinct (map fst m) \<Longrightarrow> distinct (map fst (AList.update k v m))"
  by (rule AList.distinct_update)

lemma distinct_keys_delete:
  "distinct (map fst m) \<Longrightarrow> distinct (map fst (AList.delete k m))"
  by (rule AList.distinct_delete)

section \<open>Sorted lists\<close>

text \<open>
  \<open>sort.Slice\<close> may return any sorted permutation; when the keys are distinct there is only
  one, so \<open>sort_key\<close> stands for it.
\<close>

lemma sort_key_unique:
  fixes f :: "'a \<Rightarrow> 'b::linorder"
  assumes "mset ys = mset xs" and "sorted (map f ys)" and "distinct (map f xs)"
  shows "ys = sort_key f xs"
proof -
  have d: "distinct (map f ys)"
    using assms(1,3) by (metis distinct_map mset_eq_imp_distinct_iff mset_eq_setD)
  have "inj_on f (set ys)" using d by (simp add: distinct_map)
  moreover have "set ys = set (sort_key f xs)"
    using assms(1) by (metis mset_eq_setD set_sort)
  moreover have "map f ys = map f (sort_key f xs)"
  proof -
    have "set (map f ys) = set (map f (sort_key f xs))"
      using \<open>set ys = set (sort_key f xs)\<close> by simp
    moreover have "distinct (map f (sort_key f xs))"
      using assms(3) by (simp add: distinct_map)
    ultimately show ?thesis
      using d assms(2) by (simp add: sorted_distinct_set_unique)
  qed
  ultimately show ?thesis
    by (simp add: inj_on_map_eq_map)
qed

end
