(* ===== verification/Driver.thy ===== *)
theory Driver
  imports Go_Prelude
begin

text \<open>
  The data of \<open>src/driver.go\<close> and of the exported part of \<open>src/dcron.go\<close>: node and
  task records, events, constants, the error values, and the \<open>Registry\<close> interface.
  The four back ends implement the interface; a component that calls it takes a value of
  \<open>registry_ops\<close> and threads the registry's state.
\<close>

section \<open>Statuses and event types\<close>

text \<open>The Go types are named strings: a back end can read any text into them.\<close>

type_synonym NodeStatus = string
type_synonym NodeEventType = string
type_synonym TaskEventType = string

definition NodeStatusStarting :: NodeStatus where "NodeStatusStarting = ''starting''"
definition NodeStatusWorking :: NodeStatus where "NodeStatusWorking = ''working''"
definition NodeStatusLeaving :: NodeStatus where "NodeStatusLeaving = ''leaving''"

definition NodeEventTypeDelete :: NodeEventType where "NodeEventTypeDelete = ''delete''"
definition NodeEventTypePut :: NodeEventType where "NodeEventTypePut = ''put''"
definition NodeEventTypeChanged :: NodeEventType where "NodeEventTypeChanged = ''changed''"

definition TaskEventTypeDelete :: TaskEventType where "TaskEventTypeDelete = ''delete''"
definition TaskEventTypePut :: TaskEventType where "TaskEventTypePut = ''put''"

lemmas NodeStatus_defs = NodeStatusStarting_def NodeStatusWorking_def NodeStatusLeaving_def
lemmas TaskEventType_defs = TaskEventTypeDelete_def TaskEventTypePut_def
lemmas NodeEventType_defs =
  NodeEventTypeDelete_def NodeEventTypePut_def NodeEventTypeChanged_def

section \<open>Nodes, tasks and events\<close>

text \<open>\<open>time.Time\<close> is the instant as nanoseconds since the epoch, \<open>time.Duration\<close> a
  number of nanoseconds.\<close>

type_synonym time = int
type_synonym duration = int

definition Second :: duration where "Second = 1000000000"
definition Minute :: duration where "Minute = 60 * Second"
definition Millisecond :: duration where "Millisecond = 1000000"

record Node =
  ID :: string
  IP :: string
  Hostname :: string
  LastAlive :: time
  CreateTime :: time
  Status :: NodeStatus
  Weight :: int

record TaskMeta =
  Name :: string
  CronFormat :: string
  OneShot :: bool
  ExecutedAndMarkDeleted :: bool
  ExecutedAndCleanup :: bool
  Payload :: string

record NodeEvent =
  NE_Type :: NodeEventType
  NE_Node :: Node

record TaskMetaEvent =
  TE_Type :: TaskEventType
  TE_Task :: TaskMeta

section \<open>Constants\<close>

definition NodeEventChannelSize :: nat where "NodeEventChannelSize = 64"
definition TaskEventChannelSize :: nat where "TaskEventChannelSize = 256"
definition RebalancedChanelSize :: nat where "RebalancedChanelSize = 512"
definition CleanerBufferSize :: nat where "CleanerBufferSize = 1024"
definition CleanerBatchSize :: int where "CleanerBatchSize = 64"
definition CleanerDelay :: duration where "CleanerDelay = 5 * Second"
definition CleanupHistoryExecKeysThresholdDuration :: duration where
  "CleanupHistoryExecKeysThresholdDuration = 10 * Minute"
definition CleanupHistoryExecKeysTickerDuration :: duration where
  "CleanupHistoryExecKeysTickerDuration = 1 * Minute"

definition heartbeatInterval :: duration where "heartbeatInterval = 5 * Second"
definition nodeTimeout :: duration where "nodeTimeout = 15 * Second"
definition virtualNodes :: nat where "virtualNodes = 200"
definition virtualHashSlot :: int where "virtualHashSlot = 16384"

lemmas duration_defs = Second_def Minute_def Millisecond_def CleanerDelay_def
  CleanupHistoryExecKeysThresholdDuration_def CleanupHistoryExecKeysTickerDuration_def
  heartbeatInterval_def nodeTimeout_def

section \<open>Errors\<close>

text \<open>
  The error values of the sources: the four sentinel errors, the errors built with
  \<open>fmt.Errorf\<close> (a constructor for each kind of failure, with its arguments), and the errors a
  client library (\<open>ErrBackend\<close>) or the user's task (\<open>ErrUser\<close>) returns.
\<close>

datatype error =
    ErrDcronAlreadyRunning
  | ErrDcronAlreadyStopped
  | ErrTaskExisted
  | ErrTaskDeleted
  | ErrForceCleanupFailed string error
  | ErrForceAddFailed string error
  | ErrNotMarkedDeleted string
  | ErrNotInAllTasks string
  | ErrMarkNotFound string
  | ErrRegistration error
  | ErrStatusUpdate string error
  | ErrNodeNotFound
  | ErrShuttingDown
  | ErrNoHandler
  | ErrBackend string
  | ErrWrapped string error
  | ErrUser string

section \<open>The registry interface\<close>

text \<open>
  The methods of \<open>Registry\<close> the scheduler calls, on a registry state \<open>'g\<close> that the
  whole cluster shares. A method returns its Go results and the new state; \<open>None\<close> is the
  nil error. The context argument is left out: it is the scheduler's own \<open>dc.ctx\<close>.
\<close>

record 'g registry_ops =
  reg_Register :: "Node \<Rightarrow> 'g \<Rightarrow> error option \<times> 'g"
  reg_Unregister :: "string \<Rightarrow> 'g \<Rightarrow> error option \<times> 'g"
  reg_UpdateStatus :: "string \<Rightarrow> NodeStatus \<Rightarrow> 'g \<Rightarrow> error option \<times> 'g"
  reg_UpdateHeartbeat :: "string \<Rightarrow> time \<Rightarrow> 'g \<Rightarrow> error option \<times> 'g"
  reg_GetNodes :: "'g \<Rightarrow> (error + Node list) \<times> 'g"
  reg_GetWorkingNodes :: "'g \<Rightarrow> (error + Node list) \<times> 'g"
  reg_CleanupExpiredNodes :: "duration \<Rightarrow> time \<Rightarrow> 'g \<Rightarrow> error option \<times> 'g"
  reg_PutTask :: "TaskMeta \<Rightarrow> 'g \<Rightarrow> error option \<times> 'g"
  reg_MarkTaskDeleted :: "string \<Rightarrow> 'g \<Rightarrow> error option \<times> 'g"
  reg_RemoveTaskDeleted :: "string \<Rightarrow> 'g \<Rightarrow> error option \<times> 'g"
  reg_ForceCleanupTask :: "string \<Rightarrow> 'g \<Rightarrow> error option \<times> 'g"
  reg_GetAllTasks :: "'g \<Rightarrow> (error + (string \<times> TaskMeta) list) \<times> 'g"
  reg_GetDeletedTaskNames :: "'g \<Rightarrow> string list \<times> 'g"
  reg_ForceCleanupAllTasks :: "'g \<Rightarrow> error option \<times> 'g"
  reg_CanRunTask :: "string \<Rightarrow> time \<Rightarrow> 'g \<Rightarrow> (error + bool) \<times> 'g"

end
