(* ===== verification/Cron_Engine.thy ===== *)
theory Cron_Engine
  imports Driver
begin

text \<open>
  The cron library \<open>github.com/robfig/cron/v3\<close> as the scheduler uses it: a record of the
  operations it calls, the documented laws it relies on (the locale \<open>cron_engine\<close>), and
  an in-memory engine that satisfies them, for the examples.

  The job of an entry is \<open>cron.FuncJob(task.Run)\<close>: it is known by the address of the task
  object whose \<open>Run\<close> it calls.
\<close>

section \<open>The operations and their laws\<close>

type_synonym addr = nat
type_synonym cron_entry = "nat \<times> string \<times> addr"

record 'k cron_ops =
  cr_New :: "string list \<Rightarrow> 'k"
  cr_AddJob :: "string \<Rightarrow> addr \<Rightarrow> 'k \<Rightarrow> (error + nat) \<times> 'k"
  cr_Remove :: "nat \<Rightarrow> 'k \<Rightarrow> 'k"
  cr_Entries :: "'k \<Rightarrow> cron_entry list"
  cr_Start :: "'k \<Rightarrow> 'k"
  cr_Stop :: "'k \<Rightarrow> 'k"

text \<open>
  \<open>valid k spec\<close>: the parser of \<open>k\<close> accepts the expression. \<open>issued k\<close>: the entry IDs
  given out so far. A new ID is positive and was never used before; an expression the parser
  refuses leaves the engine as it was; removing an ID removes that entry and no other.
\<close>

locale cron_engine =
  fixes C :: "'k cron_ops"
    and valid :: "'k \<Rightarrow> string \<Rightarrow> bool"
    and issued :: "'k \<Rightarrow> nat set"
  assumes entries_new: "cr_Entries C (cr_New C opts) = []"
    and entries_issued: "fst ` set (cr_Entries C k) \<subseteq> issued k"
    and add_valid: "valid k spec \<Longrightarrow> \<exists>i k'. cr_AddJob C spec a k = (Inr i, k') \<and>
          i \<noteq> 0 \<and> i \<notin> issued k \<and> issued k' = insert i (issued k) \<and> valid k' = valid k \<and>
          set (cr_Entries C k') = insert (i, spec, a) (set (cr_Entries C k))"
    and add_invalid: "\<not> valid k spec \<Longrightarrow> \<exists>e. cr_AddJob C spec a k = (Inl e, k)"
    and remove_entries: "set (cr_Entries C (cr_Remove C i k)) = {e \<in> set (cr_Entries C k). fst e \<noteq> i}"
    and remove_issued: "issued (cr_Remove C i k) = issued k"
    and remove_valid: "valid (cr_Remove C i k) = valid k"
    and start_entries: "cr_Entries C (cr_Start C k) = cr_Entries C k"
    and start_issued: "issued (cr_Start C k) = issued k"
    and start_valid: "valid (cr_Start C k) = valid k"
    and stop_entries: "cr_Entries C (cr_Stop C k) = cr_Entries C k"
    and stop_issued: "issued (cr_Stop C k) = issued k"
    and stop_valid: "valid (cr_Stop C k) = valid k"
begin

lemma add_cases:
  obtains (ok) i k' where "cr_AddJob C spec a k = (Inr i, k')" "valid k spec" "i \<noteq> 0" "i \<notin> issued k"
      "issued k' = insert i (issued k)" "valid k' = valid k"
      "set (cr_Entries C k') = insert (i, spec, a) (set (cr_Entries C k))"
    | (err) e where "cr_AddJob C spec a k = (Inl e, k)" "\<not> valid k spec"
proof (cases "valid k spec")
  case True
  with add_valid[OF this] ok show thesis by blast
next
  case False
  with add_invalid[OF this] err show thesis by blast
qed

lemma fresh_not_entry: "i \<notin> issued k \<Longrightarrow> (i, spec, a) \<notin> set (cr_Entries C k)"
  using entries_issued[of k] by force

lemma remove_absent:
  "i \<notin> fst ` set (cr_Entries C k) \<Longrightarrow> set (cr_Entries C (cr_Remove C i k)) = set (cr_Entries C k)"
  unfolding remove_entries by force

lemmas remove_laws = remove_entries remove_issued remove_valid
lemmas engine_laws = start_entries start_issued start_valid stop_entries stop_issued stop_valid

end

section \<open>An engine in memory\<close>

text \<open>It remembers every ID it has given out and takes a larger number.\<close>

record mem_cron =
  mc_used :: "nat list"
  mc_entries :: "cron_entry list"
  mc_running :: bool

definition mem_valid :: "mem_cron \<Rightarrow> string \<Rightarrow> bool" where
  "mem_valid k spec \<longleftrightarrow> spec \<noteq> []"

definition mem_ids :: "mem_cron \<Rightarrow> nat list" where
  "mem_ids k = mc_used k @ map fst (mc_entries k)"

definition mem_fresh :: "mem_cron \<Rightarrow> nat" where
  "mem_fresh k = Suc (sum_list (mem_ids k))"

definition mem_cron_ops :: "mem_cron cron_ops" where
  "mem_cron_ops = \<lparr>
     cr_New = (\<lambda>opts. \<lparr>mc_used = [], mc_entries = [], mc_running = False\<rparr>),
     cr_AddJob = (\<lambda>spec a k.
       if spec = [] then (Inl (ErrBackend ''empty spec string''), k)
       else (Inr (mem_fresh k), k\<lparr>mc_entries := mc_entries k @ [(mem_fresh k, spec, a)]\<rparr>)),
     cr_Remove = (\<lambda>i k. k\<lparr>mc_used := mem_ids k, mc_entries := filter (\<lambda>e. fst e \<noteq> i) (mc_entries k)\<rparr>),
     cr_Entries = mc_entries,
     cr_Start = (\<lambda>k. k\<lparr>mc_running := True\<rparr>),
     cr_Stop = (\<lambda>k. k\<lparr>mc_running := False\<rparr>)\<rparr>"

lemma mem_fresh_new: "mem_fresh k \<notin> set (mem_ids k)"
  using member_le_sum_list[of "mem_fresh k" "mem_ids k"] unfolding mem_fresh_def by linarith

interpretation mem_cron: cron_engine mem_cron_ops mem_valid "\<lambda>k. set (mem_ids k)"
proof unfold_locales
  fix k spec a
  assume "mem_valid k spec"
  then show "\<exists>i k'. cr_AddJob mem_cron_ops spec a k = (Inr i, k') \<and> i \<noteq> 0 \<and> i \<notin> set (mem_ids k) \<and>
      set (mem_ids k') = insert i (set (mem_ids k)) \<and> mem_valid k' = mem_valid k \<and>
      set (cr_Entries mem_cron_ops k') = insert (i, spec, a) (set (cr_Entries mem_cron_ops k))"
    using mem_fresh_new[of k]
    by (simp add: mem_cron_ops_def mem_valid_def[abs_def] mem_ids_def mem_fresh_def)
qed (auto simp: mem_cron_ops_def mem_valid_def[abs_def] mem_ids_def)

end
