(* ===== verification/Go_Crc32.thy ===== *)
theory Go_Crc32
  imports Go_Prelude
begin

text \<open>
  \<open>crc32.ChecksumIEEE\<close> of Go's standard library: the reflected CRC-32 with polynomial
  \<open>0xEDB88320\<close>, initial value and final complement \<open>0xFFFFFFFF\<close>. The assigners hash
  task names with it and \<open>reloadNodes\<close> compares node lists by it.
\<close>

unbundle bit_operations_syntax

definition crc32_bit :: "32 word \<Rightarrow> 32 word" where
  "crc32_bit c = (if bit c 0 then drop_bit 1 c XOR 0xEDB88320 else drop_bit 1 c)"

definition crc32_byte :: "32 word \<Rightarrow> char \<Rightarrow> 32 word" where
  "crc32_byte c b =
     (crc32_bit (crc32_bit (crc32_bit (crc32_bit
     (crc32_bit (crc32_bit (crc32_bit (crc32_bit (c XOR of_char b)))))))))"

definition ChecksumIEEE :: "string \<Rightarrow> 32 word" where
  "ChecksumIEEE s = NOT (foldl crc32_byte 0xFFFFFFFF s)"

lemma ChecksumIEEE_empty: "ChecksumIEEE [] = 0"
  by (simp add: ChecksumIEEE_def)

text \<open>The check value of CRC-32: the checksum of the nine ASCII digits.\<close>

lemma ChecksumIEEE_check: "ChecksumIEEE ''123456789'' = 0xCBF43926"
  by code_simp

end
