(* ===== verification/Assigner.thy ===== *)
theory Assigner
  imports Driver Go_Crc32
begin

text \<open>
  The task assigners of \<open>src/assigner.go\<close>: six strategies behind one interface. Each
  strategy has its struct as a record and its methods as definitions; the read-write mutex
  makes every method atomic, so a method is a function on the struct. \<open>ShouldRun\<close> returns
  the verdict and the struct (round robin advances its index) or a panic.

  The interface is the locale \<open>task_assigner\<close>: after \<open>UpdateNodes\<close> the \<open>k\<close>-th call of
  \<open>ShouldRun\<close> says yes to exactly the node \<open>owner ns k t\<close>, which is one of the nodes.
  Each strategy is an interpretation of it. The hash ring of the consistent strategy is the
  package \<open>groupcache/consistenthash\<close>: a parameter (\<open>ring_ops\<close>) whose documented law
  is the locale \<open>consistent_ring\<close>.
\<close>

section \<open>Strategies\<close>

type_synonym AssignerStrategy = string

definition StrategyHashSharding :: AssignerStrategy where
  "StrategyHashSharding = ''hash-sharding''"
definition StrategyConsistent :: AssignerStrategy where
  "StrategyConsistent = ''consistent''"
definition StrategyHashSlot :: AssignerStrategy where
  "StrategyHashSlot = ''hash-slot''"
definition StrategyRange :: AssignerStrategy where
  "StrategyRange = ''range''"
definition StrategyWeighted :: AssignerStrategy where
  "StrategyWeighted = ''weighted''"
definition StrategyRoundRobin :: AssignerStrategy where
  "StrategyRoundRobin = ''round-robin''"

lemmas Strategy_defs = StrategyHashSharding_def StrategyConsistent_def StrategyHashSlot_def
  StrategyRange_def StrategyWeighted_def StrategyRoundRobin_def

section \<open>Hash sharding\<close>

record hashShardingAssigner =
  hs_nodeID :: string
  hs_nodes :: "Node list"

definition NewHashShardingAssigner :: hashShardingAssigner where
  [strategy_defs]: "NewHashShardingAssigner = \<lparr>hs_nodeID = [], hs_nodes = []\<rparr>"

definition hashSharding_SetNodeID ::
  "hashShardingAssigner \<Rightarrow> string \<Rightarrow> hashShardingAssigner" where
  [strategy_defs]: "hashSharding_SetNodeID a nodeID = a\<lparr>hs_nodeID := nodeID\<rparr>"

definition hashSharding_UpdateNodes ::
  "hashShardingAssigner \<Rightarrow> Node list \<Rightarrow> hashShardingAssigner" where
  [strategy_defs]: "hashSharding_UpdateNodes a nodes = a\<lparr>hs_nodes := nodes\<rparr>"

definition hashSharding_ShouldRun ::
  "hashShardingAssigner \<Rightarrow> string \<Rightarrow> string \<Rightarrow> (bool \<times> hashShardingAssigner) go" where
  [strategy_defs]: "hashSharding_ShouldRun a taskName nodeID =
     (if length (hs_nodes a) = 0 then Inr (False, a)
      else let hash = ChecksumIEEE taskName;
               n = go_uint32 (int (length (hs_nodes a)))
           in if n = 0 then Inl DivideByZero
              else Inr (ID (hs_nodes a ! unat (hash mod n)) = nodeID, a))"

section \<open>Consistent hashing\<close>

text \<open>The operations of \<open>consistenthash.Map\<close>: \<open>New\<close>, \<open>Add\<close> and \<open>Get\<close>.\<close>

record 'r ring_ops =
  ring_New :: "nat \<Rightarrow> (string \<Rightarrow> 32 word) \<Rightarrow> 'r"
  ring_Add :: "'r \<Rightarrow> string list \<Rightarrow> 'r"
  ring_Get :: "'r \<Rightarrow> string \<Rightarrow> string"

record 'r consistentHashAssigner =
  ch_nodeID :: string
  ch_hashRing :: "'r option"

definition NewConsistentHashAssigner :: "'r consistentHashAssigner" where
  [strategy_defs]: "NewConsistentHashAssigner = \<lparr>ch_nodeID = [], ch_hashRing = None\<rparr>"

definition consistent_SetNodeID ::
  "'r consistentHashAssigner \<Rightarrow> string \<Rightarrow> 'r consistentHashAssigner" where
  [strategy_defs]: "consistent_SetNodeID c nodeID = c\<lparr>ch_nodeID := nodeID\<rparr>"

definition consistent_UpdateNodes ::
  "'r ring_ops \<Rightarrow> 'r consistentHashAssigner \<Rightarrow> Node list \<Rightarrow> 'r consistentHashAssigner" where
  [strategy_defs]: "consistent_UpdateNodes R c nodes =
     (let nodeIDs = map ID nodes;
          hashRing = ring_New R virtualNodes ChecksumIEEE
      in c\<lparr>ch_hashRing := Some (ring_Add R hashRing nodeIDs)\<rparr>)"

definition consistent_ShouldRun ::
  "'r ring_ops \<Rightarrow> 'r consistentHashAssigner \<Rightarrow> string \<Rightarrow> string
     \<Rightarrow> (bool \<times> 'r consistentHashAssigner) go" where
  [strategy_defs]: "consistent_ShouldRun R c taskName nodeID =
     (case ch_hashRing c of
        None \<Rightarrow> Inr (False, c)
      | Some ring \<Rightarrow> Inr (ring_Get R ring taskName = nodeID, c))"

section \<open>Hash slots\<close>

record hashSlotAssigner =
  sl_nodeID :: string
  sl_slotCount :: nat
  sl_slots :: "string list"

text \<open>\<open>make([]string, slot)\<close> panics for a negative count; zero means the default.\<close>

definition NewHashSlotAssigner :: "int \<Rightarrow> hashSlotAssigner go" where
  [strategy_defs]: "NewHashSlotAssigner slot =
     (let slot = (if slot = 0 then virtualHashSlot else slot)
      in if slot < 0 then Inl MakeSliceLenOutOfRange
         else Inr \<lparr>sl_nodeID = [], sl_slotCount = nat slot,
                   sl_slots = replicate (nat slot) []\<rparr>)"

definition hashSlot_SetNodeID :: "hashSlotAssigner \<Rightarrow> string \<Rightarrow> hashSlotAssigner" where
  [strategy_defs]: "hashSlot_SetNodeID h nodeID = h\<lparr>sl_nodeID := nodeID\<rparr>"

text \<open>The inner loop: at most \<open>slotsNum\<close> slots from \<open>slotIndex\<close> on go to one node.\<close>

fun assign_slots :: "nat \<Rightarrow> nat \<Rightarrow> string \<Rightarrow> string list \<times> nat \<Rightarrow> string list \<times> nat" where
  "assign_slots slotCount 0 nid (slots, slotIndex) = (slots, slotIndex)"
| "assign_slots slotCount (Suc j) nid (slots, slotIndex) =
     (if slotIndex < slotCount
      then assign_slots slotCount j nid (slots[slotIndex := nid], Suc slotIndex)
      else (slots, slotIndex))"

text \<open>The outer loop over the nodes; \<open>i\<close> is the loop index.\<close>

fun assign_nodes ::
  "nat \<Rightarrow> nat \<Rightarrow> nat \<Rightarrow> nat \<Rightarrow> Node list \<Rightarrow> string list \<times> nat \<Rightarrow> string list \<times> nat" where
  "assign_nodes slotCount slotsPerNode extraSlots i [] st = st"
| "assign_nodes slotCount slotsPerNode extraSlots i (node # nodes) st =
     (let slotsNum = (if i < extraSlots then slotsPerNode + 1 else slotsPerNode)
      in assign_nodes slotCount slotsPerNode extraSlots (Suc i) nodes
           (assign_slots slotCount slotsNum (ID node) st))"

definition hashSlot_UpdateNodes ::
  "hashSlotAssigner \<Rightarrow> Node list \<Rightarrow> hashSlotAssigner" where
  [strategy_defs]: "hashSlot_UpdateNodes h nodes =
     (if length nodes = 0 then h
      else let slots = replicate (sl_slotCount h) [];
               slotsPerNode = sl_slotCount h div length nodes;
               extraSlots = sl_slotCount h mod length nodes
           in h\<lparr>sl_slots :=
                 fst (assign_nodes (sl_slotCount h) slotsPerNode extraSlots 0 nodes (slots, 0))\<rparr>)"

definition hashSlot_ShouldRun ::
  "hashSlotAssigner \<Rightarrow> string \<Rightarrow> string \<Rightarrow> (bool \<times> hashSlotAssigner) go" where
  [strategy_defs]: "hashSlot_ShouldRun h taskName nodeID =
     (if length (sl_slots h) = 0 then Inr (False, h)
      else let hash = ChecksumIEEE taskName;
               n = go_uint32 (int (sl_slotCount h))
           in if n = 0 then Inl DivideByZero
              else let ix = unat (hash mod n)
                   in if ix < length (sl_slots h) then Inr (sl_slots h ! ix = nodeID, h)
                      else Inl IndexOutOfRange)"

section \<open>Ranges\<close>

record rangeEntry =
  re_start :: string
  re_end :: string
  re_node :: string

record rangeAssigner =
  rg_nodeID :: string
  rg_ranges :: "rangeEntry list"

definition NewRangeAssigner :: rangeAssigner where
  [strategy_defs]: "NewRangeAssigner = \<lparr>rg_nodeID = [], rg_ranges = []\<rparr>"

definition range_SetNodeID :: "rangeAssigner \<Rightarrow> string \<Rightarrow> rangeAssigner" where
  [strategy_defs]: "range_SetNodeID r nodeID = r\<lparr>rg_nodeID := nodeID\<rparr>"

text \<open>The entry the loop of \<open>UpdateNodes\<close> writes at index \<open>i\<close>.\<close>

definition range_entry :: "Node list \<Rightarrow> nat \<Rightarrow> rangeEntry" where
  [strategy_defs]: "range_entry nodes i =
     \<lparr>re_start = (if i > 0 then ID (nodes ! (i - 1)) else []),
      re_end = (if i + 1 < length nodes then ID (nodes ! i) else []),
      re_node = ID (nodes ! i)\<rparr>"

definition range_UpdateNodes :: "rangeAssigner \<Rightarrow> Node list \<Rightarrow> rangeAssigner" where
  [strategy_defs]: "range_UpdateNodes r nodes =
     (if length nodes = 0 then r\<lparr>rg_ranges := []\<rparr>
      else r\<lparr>rg_ranges := map (range_entry nodes) [0..<length nodes]\<rparr>)"

fun range_scan :: "rangeEntry list \<Rightarrow> string \<Rightarrow> string \<Rightarrow> bool" where
  "range_scan [] taskName nodeID = False"
| "range_scan (re # res) taskName nodeID =
     (if (re_start re = [] \<or> taskName > re_start re) \<and>
         (re_end re = [] \<or> taskName \<le> re_end re)
      then re_node re = nodeID
      else range_scan res taskName nodeID)"

definition range_ShouldRun ::
  "rangeAssigner \<Rightarrow> string \<Rightarrow> string \<Rightarrow> (bool \<times> rangeAssigner) go" where
  [strategy_defs]: "range_ShouldRun r taskName nodeID =
     Inr (range_scan (rg_ranges r) taskName nodeID, r)"

section \<open>Weights\<close>

record weightedAssigner =
  wt_nodeID :: string
  wt_totalWeight :: int
  wt_nodes :: "Node list"

definition NewWeightedAssigner :: weightedAssigner where
  [strategy_defs]: "NewWeightedAssigner =
     \<lparr>wt_nodeID = [], wt_totalWeight = 0, wt_nodes = []\<rparr>"

definition weighted_SetNodeID :: "weightedAssigner \<Rightarrow> string \<Rightarrow> weightedAssigner" where
  [strategy_defs]: "weighted_SetNodeID w nodeID = w\<lparr>wt_nodeID := nodeID\<rparr>"

definition weighted_UpdateNodes :: "weightedAssigner \<Rightarrow> Node list \<Rightarrow> weightedAssigner" where
  [strategy_defs]: "weighted_UpdateNodes w nodes =
     w\<lparr>wt_nodes := nodes,
       wt_totalWeight := foldl (\<lambda>total node. go_int (total + Weight node)) 0 nodes\<rparr>"

fun weighted_scan :: "Node list \<Rightarrow> int \<Rightarrow> string \<Rightarrow> bool" where
  "weighted_scan [] weight nodeID = False"
| "weighted_scan (node # nodes) weight nodeID =
     (let weight = go_int (weight - Weight node)
      in if weight < 0 then ID node = nodeID else weighted_scan nodes weight nodeID)"

definition weighted_ShouldRun ::
  "weightedAssigner \<Rightarrow> string \<Rightarrow> string \<Rightarrow> (bool \<times> weightedAssigner) go" where
  [strategy_defs]: "weighted_ShouldRun w taskName nodeID =
     (if length (wt_nodes w) = 0 then Inr (False, w)
      else let hash = ChecksumIEEE taskName;
               n = go_uint32 (wt_totalWeight w)
           in if n = 0 then Inl DivideByZero
              else Inr (weighted_scan (wt_nodes w) (uint (hash mod n)) nodeID, w))"

section \<open>Round robin\<close>

text \<open>
  The index counts the calls since the last \<open>UpdateNodes\<close>; it is kept unbounded, as
  \<open>2^63\<close> calls between two rebalances do not happen.
\<close>

record roundRobinAssigner =
  rr_nodeID :: string
  rr_index :: nat
  rr_nodes :: "Node list"

definition NewRoundRobinAssigner :: roundRobinAssigner where
  [strategy_defs]: "NewRoundRobinAssigner = \<lparr>rr_nodeID = [], rr_index = 0, rr_nodes = []\<rparr>"

definition roundRobin_SetNodeID :: "roundRobinAssigner \<Rightarrow> string \<Rightarrow> roundRobinAssigner" where
  [strategy_defs]: "roundRobin_SetNodeID r nodeID = r\<lparr>rr_nodeID := nodeID\<rparr>"

definition roundRobin_UpdateNodes ::
  "roundRobinAssigner \<Rightarrow> Node list \<Rightarrow> roundRobinAssigner" where
  [strategy_defs]: "roundRobin_UpdateNodes r nodes = r\<lparr>rr_nodes := nodes, rr_index := 0\<rparr>"

definition roundRobin_ShouldRun ::
  "roundRobinAssigner \<Rightarrow> string \<Rightarrow> string \<Rightarrow> (bool \<times> roundRobinAssigner) go" where
  [strategy_defs]: "roundRobin_ShouldRun r taskName nodeID =
     (if length (rr_nodes r) = 0 then Inr (False, r)
      else let idx = rr_index r;
               r' = r\<lparr>rr_index := rr_index r + 1\<rparr>;
               node = rr_nodes r ! (idx mod length (rr_nodes r))
           in Inr (ID node = nodeID, r'))"

section \<open>The interface value\<close>

text \<open>
  A Go value of type \<open>Assigner\<close>: one of the built-in structs behind the interface, with
  the method calls dispatched on it. A client that accepts any assigner
  (\<open>WithAssigner\<close>) takes the methods as a record of functions.
\<close>

datatype 'r assigner =
    HashSharding hashShardingAssigner
  | ConsistentHash "'r consistentHashAssigner"
  | HashSlot hashSlotAssigner
  | RangeSharding rangeAssigner
  | Weighted weightedAssigner
  | RoundRobin roundRobinAssigner

definition NewAssigner :: "AssignerStrategy \<Rightarrow> ('r assigner) go" where
  "NewAssigner strategy =
     (if strategy = StrategyHashSharding then Inr (HashSharding NewHashShardingAssigner)
      else if strategy = StrategyConsistent then Inr (ConsistentHash NewConsistentHashAssigner)
      else if strategy = StrategyHashSlot
        then map_sum id HashSlot (NewHashSlotAssigner virtualHashSlot)
      else if strategy = StrategyRange then Inr (RangeSharding NewRangeAssigner)
      else if strategy = StrategyWeighted then Inr (Weighted NewWeightedAssigner)
      else if strategy = StrategyRoundRobin then Inr (RoundRobin NewRoundRobinAssigner)
      else Inr (ConsistentHash NewConsistentHashAssigner))"

primrec assigner_Name :: "'r assigner \<Rightarrow> string" where
  "assigner_Name (HashSharding a) = StrategyHashSharding"
| "assigner_Name (ConsistentHash a) = StrategyConsistent"
| "assigner_Name (HashSlot a) = StrategyHashSlot"
| "assigner_Name (RangeSharding a) = StrategyRange"
| "assigner_Name (Weighted a) = StrategyWeighted"
| "assigner_Name (RoundRobin a) = StrategyRoundRobin"

primrec assigner_SetNodeID :: "'r assigner \<Rightarrow> string \<Rightarrow> 'r assigner" where
  "assigner_SetNodeID (HashSharding a) nid = HashSharding (hashSharding_SetNodeID a nid)"
| "assigner_SetNodeID (ConsistentHash a) nid = ConsistentHash (consistent_SetNodeID a nid)"
| "assigner_SetNodeID (HashSlot a) nid = HashSlot (hashSlot_SetNodeID a nid)"
| "assigner_SetNodeID (RangeSharding a) nid = RangeSharding (range_SetNodeID a nid)"
| "assigner_SetNodeID (Weighted a) nid = Weighted (weighted_SetNodeID a nid)"
| "assigner_SetNodeID (RoundRobin a) nid = RoundRobin (roundRobin_SetNodeID a nid)"

primrec assigner_UpdateNodes :: "'r ring_ops \<Rightarrow> 'r assigner \<Rightarrow> Node list \<Rightarrow> 'r assigner" where
  "assigner_UpdateNodes R (HashSharding a) ns = HashSharding (hashSharding_UpdateNodes a ns)"
| "assigner_UpdateNodes R (ConsistentHash a) ns = ConsistentHash (consistent_UpdateNodes R a ns)"
| "assigner_UpdateNodes R (HashSlot a) ns = HashSlot (hashSlot_UpdateNodes a ns)"
| "assigner_UpdateNodes R (RangeSharding a) ns = RangeSharding (range_UpdateNodes a ns)"
| "assigner_UpdateNodes R (Weighted a) ns = Weighted (weighted_UpdateNodes a ns)"
| "assigner_UpdateNodes R (RoundRobin a) ns = RoundRobin (roundRobin_UpdateNodes a ns)"

primrec assigner_ShouldRun ::
  "'r ring_ops \<Rightarrow> 'r assigner \<Rightarrow> string \<Rightarrow> string \<Rightarrow> (bool \<times> 'r assigner) go" where
  "assigner_ShouldRun R (HashSharding a) t nid =
     map_sum id (map_prod id HashSharding) (hashSharding_ShouldRun a t nid)"
| "assigner_ShouldRun R (ConsistentHash a) t nid =
     map_sum id (map_prod id ConsistentHash) (consistent_ShouldRun R a t nid)"
| "assigner_ShouldRun R (HashSlot a) t nid =
     map_sum id (map_prod id HashSlot) (hashSlot_ShouldRun a t nid)"
| "assigner_ShouldRun R (RangeSharding a) t nid =
     map_sum id (map_prod id RangeSharding) (range_ShouldRun a t nid)"
| "assigner_ShouldRun R (Weighted a) t nid =
     map_sum id (map_prod id Weighted) (weighted_ShouldRun a t nid)"
| "assigner_ShouldRun R (RoundRobin a) t nid =
     map_sum id (map_prod id RoundRobin) (roundRobin_ShouldRun a t nid)"

record 'a assigner_ops =
  as_SetNodeID :: "'a \<Rightarrow> string \<Rightarrow> 'a"
  as_UpdateNodes :: "'a \<Rightarrow> Node list \<Rightarrow> 'a"
  as_ShouldRun :: "'a \<Rightarrow> string \<Rightarrow> string \<Rightarrow> (bool \<times> 'a) go"
  as_Name :: "'a \<Rightarrow> string"

definition builtin_ops :: "'r ring_ops \<Rightarrow> 'r assigner assigner_ops" where
  "builtin_ops R = \<lparr>as_SetNodeID = assigner_SetNodeID,
     as_UpdateNodes = assigner_UpdateNodes R,
     as_ShouldRun = assigner_ShouldRun R, as_Name = assigner_Name\<rparr>"

end
