(* ===== verification/Dcron.thy ===== *)
theory Dcron
  imports Cron_Engine Assigner Go_Crc32
begin

text \<open>
  The scheduler of \<open>src/dcron.go\<close>, \<open>src/dcron_internal.go\<close>, \<open>src/task.go\<close>,
  \<open>src/option.go\<close> and \<open>src/supporter.go\<close>: its state and every operation on it.

  A \<open>*task\<close> is an address in \<open>dc_store\<close>, because \<open>allTasks\<close>, \<open>assignedTasks\<close> and the
  cron entries share task objects and their IDs are changed in place. An operation that calls
  the registry takes and returns the registry's state. What it does with \<open>tasksRWMux\<close> held is
  a definition of its own (\<open>_locked\<close>), so that the interleavings of the API calls and the
  background goroutines are the sequences of these sections.
\<close>

section \<open>Tasks and the scheduler's state\<close>

text \<open>How a call into the user's code ends.\<close>

datatype outcome = RunOk | RunErr error | RunPanic

text \<open>A \<open>Tasker\<close>: the user's own, known by a number, or the closure around the handler of
  dynamic tasks.\<close>

datatype tasker = StaticTasker nat | DynamicTasker

record task =
  task_name :: string
  task_tasker :: tasker
  task_id :: nat
  task_metadata :: TaskMeta

type_synonym task_map = "(string \<times> addr) list"

record ('k, 'a) dcron =
  dc_cr :: 'k
  dc_cOptions :: "string list"
  dc_nodeID :: string
  dc_nodeIP :: string
  dc_done :: bool
  dc_taskRunFunc :: "(TaskMeta \<Rightarrow> outcome) option"
  dc_errHandler :: "(TaskMeta \<Rightarrow> error \<Rightarrow> outcome) option"
  dc_running :: bool
  dc_nodes :: "Node list"
  dc_deletedTasks :: "string set"
  dc_allTasks :: task_map
  dc_assignedTasks :: task_map
  dc_rebalancedChan :: nat
  dc_shutdownChan :: bool
  dc_assigner :: "'a option"
  dc_weight :: int
  dc_store :: "task list"

text \<open>\<open>&task{...}\<close>, and a write through such a pointer.\<close>

definition new_task :: "task \<Rightarrow> ('k, 'a) dcron \<Rightarrow> addr \<times> ('k, 'a) dcron" where
  [dcron_defs]: "new_task t dc = (length (dc_store dc), dc\<lparr>dc_store := dc_store dc @ [t]\<rparr>)"

definition set_task_id :: "addr \<Rightarrow> nat \<Rightarrow> ('k, 'a) dcron \<Rightarrow> ('k, 'a) dcron" where
  [dcron_defs]: "set_task_id a i dc = dc\<lparr>dc_store := (dc_store dc)[a := (dc_store dc ! a)\<lparr>task_id := i\<rparr>]\<rparr>"

text \<open>The metadata \<open>addJobLocked\<close> builds for a static task.\<close>

definition static_meta :: "string \<Rightarrow> string \<Rightarrow> bool \<Rightarrow> TaskMeta" where
  [dcron_defs]: "static_meta taskName cronFormat oneShot =
     \<lparr>Name = taskName, CronFormat = cronFormat, OneShot = oneShot,
      ExecutedAndMarkDeleted = False, ExecutedAndCleanup = False, Payload = []\<rparr>"

section \<open>Identity of the node\<close>

text \<open>An address of \<open>net.InterfaceAddrs\<close>: whether it is a \<open>*net.IPNet\<close>, loopback, an IPv4
  address, and its text.\<close>

record if_addr =
  ia_ipnet :: bool
  ia_loopback :: bool
  ia_v4 :: bool
  ia_text :: string

definition localIP :: string where "localIP = ''127.0.0.1''"

fun first_v4 :: "if_addr list \<Rightarrow> string" where
  "first_v4 [] = localIP"
| "first_v4 (addr # addrs) =
     (if ia_ipnet addr \<and> \<not> ia_loopback addr
      then if ia_v4 addr then ia_text addr else first_v4 addrs
      else first_v4 addrs)"

definition getLocalIP :: "error + if_addr list \<Rightarrow> string" where
  "getLocalIP r = (case r of Inl err \<Rightarrow> localIP | Inr addrs \<Rightarrow> first_v4 addrs)"

fun digits :: "nat \<Rightarrow> string" where
  "digits n = (if n < 10 then [char_of (48 + n)] else digits (n div 10) @ [char_of (48 + n mod 10)])"

declare digits.simps [simp del]

definition pad4 :: "nat \<Rightarrow> string" where
  "pad4 n = replicate (4 - length (digits n)) (CHR ''0'') @ digits n"

text \<open>\<open>fmt.Sprintf("%s-%d-%04d", ip, UnixNano, rand.Intn(1000))\<close>, for a time after 1970.\<close>

definition generateNodeID :: "string \<Rightarrow> nat \<Rightarrow> nat \<Rightarrow> string" where
  "generateNodeID ip nano rnd = ip @ ''-'' @ digits nano @ ''-'' @ pad4 rnd"

section \<open>Construction\<close>

text \<open>The options of \<open>option.go\<close>; \<open>WithLogger\<close> sets a variable of the package and does
  not touch the scheduler.\<close>

datatype 'a Option =
    WithStrategy AssignerStrategy
  | WithAssigner "'a option"
  | WithCronOptions "string list"
  | WithTaskRunFunc "TaskMeta \<Rightarrow> outcome"
  | WithErrHandler "TaskMeta \<Rightarrow> error \<Rightarrow> outcome"
  | WithLogger
  | WithWeight int
  | WithIP string

text \<open>\<open>iface\<close> makes an interface value of a built-in assigner.\<close>

fun apply_option ::
  "('r assigner \<Rightarrow> 'a) \<Rightarrow> 'a Option \<Rightarrow> ('k, 'a) dcron \<Rightarrow> (('k, 'a) dcron) go" where
  "apply_option iface (WithStrategy strategy) dc =
     go_bind (NewAssigner strategy) (\<lambda>a. Inr (dc\<lparr>dc_assigner := Some (iface a)\<rparr>))"
| "apply_option iface (WithAssigner assigner) dc = Inr (dc\<lparr>dc_assigner := assigner\<rparr>)"
| "apply_option iface (WithCronOptions options) dc = Inr (dc\<lparr>dc_cOptions := options\<rparr>)"
| "apply_option iface (WithTaskRunFunc handler) dc = Inr (dc\<lparr>dc_taskRunFunc := Some handler\<rparr>)"
| "apply_option iface (WithErrHandler handler) dc = Inr (dc\<lparr>dc_errHandler := Some handler\<rparr>)"
| "apply_option iface WithLogger dc = Inr dc"
| "apply_option iface (WithWeight weight) dc = Inr (dc\<lparr>dc_weight := weight\<rparr>)"
| "apply_option iface (WithIP ip) dc = Inr (dc\<lparr>dc_nodeIP := ip\<rparr>)"

fun apply_options ::
  "('r assigner \<Rightarrow> 'a) \<Rightarrow> 'a Option list \<Rightarrow> ('k, 'a) dcron \<Rightarrow> (('k, 'a) dcron) go" where
  "apply_options iface [] dc = Inr dc"
| "apply_options iface (opt # opts) dc = go_bind (apply_option iface opt dc) (apply_options iface opts)"

definition empty_dcron :: "'k \<Rightarrow> ('k, 'a) dcron" where
  "empty_dcron k = \<lparr>dc_cr = k, dc_cOptions = [], dc_nodeID = [], dc_nodeIP = [], dc_done = False,
     dc_taskRunFunc = None, dc_errHandler = None, dc_running = False, dc_nodes = [],
     dc_deletedTasks = {}, dc_allTasks = [], dc_assignedTasks = [], dc_rebalancedChan = 0,
     dc_shutdownChan = False, dc_assigner = None, dc_weight = 0, dc_store = []\<rparr>"

text \<open>\<open>addrs\<close>, \<open>nano\<close> and \<open>rnd\<close> are what the network, the clock and the random numbers give.\<close>

definition NewDcron ::
  "'k cron_ops \<Rightarrow> 'a assigner_ops \<Rightarrow> ('r assigner \<Rightarrow> 'a) \<Rightarrow> error + if_addr list \<Rightarrow> nat \<Rightarrow> nat \<Rightarrow>
   'a Option list \<Rightarrow> (('k, 'a) dcron) go" where
  "NewDcron C A iface addrs nano rnd opts =
     go_bind (apply_options iface opts (empty_dcron (cr_New C []))) (\<lambda>dc.
     let dc = dc\<lparr>dc_cr := cr_New C (dc_cOptions dc)\<rparr> in
     go_bind (case dc_assigner dc of
                None \<Rightarrow> go_bind (NewAssigner StrategyConsistent) (\<lambda>a. Inr (iface a))
              | Some a \<Rightarrow> Inr a) (\<lambda>a.
     let dc = dc\<lparr>dc_assigner := Some (as_SetNodeID A a (dc_nodeID dc))\<rparr>;
         dc = (if length (dc_nodeIP dc) = 0 then dc\<lparr>dc_nodeIP := getLocalIP addrs\<rparr> else dc)
     in Inr (dc\<lparr>dc_nodeID := generateNodeID (dc_nodeIP dc) nano rnd\<rparr>)))"

section \<open>Adding tasks\<close>

definition addJobLocked ::
  "string \<Rightarrow> string \<Rightarrow> tasker \<Rightarrow> bool \<Rightarrow> ('k, 'a) dcron \<Rightarrow> error option \<times> ('k, 'a) dcron" where
  [dcron_defs]: "addJobLocked taskName cronFormat tasker oneShot dc =
     (if taskName \<in> dc_deletedTasks dc then (Some ErrTaskDeleted, dc)
      else if map_of (dc_allTasks dc) taskName \<noteq> None then (Some ErrTaskExisted, dc)
      else case new_task \<lparr>task_name = taskName, task_tasker = tasker, task_id = 0,
                task_metadata = static_meta taskName cronFormat oneShot\<rparr> dc of
        (t, dc) \<Rightarrow> (None, dc\<lparr>dc_allTasks := AList.update taskName t (dc_allTasks dc)\<rparr>))"

definition addJob ::
  "string \<Rightarrow> string \<Rightarrow> tasker \<Rightarrow> bool \<Rightarrow> ('k, 'a) dcron \<Rightarrow> error option \<times> ('k, 'a) dcron" where
  [dcron_defs]: "addJob taskName cronFormat tasker oneShot dc =
     addJobLocked taskName cronFormat tasker oneShot dc"

definition AddTask ::
  "string \<Rightarrow> string \<Rightarrow> tasker \<Rightarrow> ('k, 'a) dcron \<Rightarrow> error option \<times> ('k, 'a) dcron" where
  [dcron_defs]: "AddTask taskName cronFormat tasker = addJob taskName cronFormat tasker False"

definition AddFunc ::
  "string \<Rightarrow> string \<Rightarrow> tasker \<Rightarrow> ('k, 'a) dcron \<Rightarrow> error option \<times> ('k, 'a) dcron" where
  [dcron_defs]: "AddFunc taskName cronFormat runner = addJob taskName cronFormat runner False"

definition AddOneShotTask ::
  "string \<Rightarrow> string \<Rightarrow> tasker \<Rightarrow> ('k, 'a) dcron \<Rightarrow> error option \<times> ('k, 'a) dcron" where
  [dcron_defs]: "AddOneShotTask taskName cronFormat tasker = addJob taskName cronFormat tasker True"

definition AddOneShotFunc ::
  "string \<Rightarrow> string \<Rightarrow> tasker \<Rightarrow> ('k, 'a) dcron \<Rightarrow> error option \<times> ('k, 'a) dcron" where
  [dcron_defs]: "AddOneShotFunc taskName cronFormat runner = addJob taskName cronFormat runner True"

text \<open>A task object for metadata, with the closure that runs it; the ID is not set.\<close>

definition dynamic_task :: "TaskMeta \<Rightarrow> task" where
  [dcron_defs]: "dynamic_task tm =
     \<lparr>task_name = Name tm, task_tasker = DynamicTasker, task_id = 0, task_metadata = tm\<rparr>"

definition put_task :: "string \<Rightarrow> task \<Rightarrow> ('k, 'a) dcron \<Rightarrow> ('k, 'a) dcron" where
  [dcron_defs]: "put_task taskName t dc =
     (case new_task t dc of (a, dc) \<Rightarrow> dc\<lparr>dc_allTasks := AList.update taskName a (dc_allTasks dc)\<rparr>)"

text \<open>\<open>AddTaskMeta\<close> holds the lock across its call of the registry.\<close>

definition AddTaskMeta ::
  "'g registry_ops \<Rightarrow> TaskMeta \<Rightarrow> ('k, 'a) dcron \<Rightarrow> 'g \<Rightarrow> error option \<times> ('k, 'a) dcron \<times> 'g" where
  "AddTaskMeta G tm dc g =
     (if Name tm \<in> dc_deletedTasks dc then (Some ErrTaskDeleted, dc, g)
      else if map_of (dc_allTasks dc) (Name tm) \<noteq> None then (Some ErrTaskExisted, dc, g)
      else case reg_PutTask G tm g of
        (Some err, g) \<Rightarrow> (Some err, dc, g)
      | (None, g) \<Rightarrow> (None, put_task (Name tm) (dynamic_task tm) dc, g))"

text \<open>The part of the forced additions that takes the old task out of the local schedule.\<close>

definition unassign_locked :: "'k cron_ops \<Rightarrow> string \<Rightarrow> ('k, 'a) dcron \<Rightarrow> ('k, 'a) dcron" where
  [dcron_defs]: "unassign_locked C taskName dc =
     (case map_of (dc_assignedTasks dc) taskName of
        None \<Rightarrow> dc
      | Some t \<Rightarrow>
          let dc = (if task_id (dc_store dc ! t) \<noteq> 0
                    then dc\<lparr>dc_cr := cr_Remove C (task_id (dc_store dc ! t)) (dc_cr dc)\<rparr> else dc)
          in dc\<lparr>dc_assignedTasks := AList.delete taskName (dc_assignedTasks dc)\<rparr>)"

definition ForceAddTask_locked ::
  "'k cron_ops \<Rightarrow> string \<Rightarrow> string \<Rightarrow> tasker \<Rightarrow> bool \<Rightarrow> ('k, 'a) dcron \<Rightarrow> error option \<times> ('k, 'a) dcron"
where
  [dcron_defs]: "ForceAddTask_locked C taskName cronFormat tasker oneShot dc =
     (let dc = dc\<lparr>dc_allTasks := AList.delete taskName (dc_allTasks dc)\<rparr>;
          dc = dc\<lparr>dc_deletedTasks := dc_deletedTasks dc - {taskName}\<rparr>;
          dc = unassign_locked C taskName dc
      in case addJobLocked taskName cronFormat tasker oneShot dc of
           (Some err, dc) \<Rightarrow> (Some (ErrForceAddFailed taskName err), dc)
         | (None, dc) \<Rightarrow> (None, dc))"

definition ForceAddTask ::
  "'g registry_ops \<Rightarrow> 'k cron_ops \<Rightarrow> string \<Rightarrow> string \<Rightarrow> tasker \<Rightarrow> ('k, 'a) dcron \<Rightarrow> 'g \<Rightarrow>
   error option \<times> ('k, 'a) dcron \<times> 'g" where
  "ForceAddTask G C taskName cronFormat tasker dc g =
     (case reg_ForceCleanupTask G taskName g of
        (Some err, g) \<Rightarrow> (Some (ErrForceCleanupFailed taskName err), dc, g)
      | (None, g) \<Rightarrow> (case ForceAddTask_locked C taskName cronFormat tasker False dc of
                        (err, dc) \<Rightarrow> (err, dc, g)))"

definition ForceAddFunc ::
  "'g registry_ops \<Rightarrow> 'k cron_ops \<Rightarrow> string \<Rightarrow> string \<Rightarrow> tasker \<Rightarrow> ('k, 'a) dcron \<Rightarrow> 'g \<Rightarrow>
   error option \<times> ('k, 'a) dcron \<times> 'g" where
  "ForceAddFunc G C taskName cronFormat runner = ForceAddTask G C taskName cronFormat runner"

definition ForceAddOneShotTask ::
  "'g registry_ops \<Rightarrow> 'k cron_ops \<Rightarrow> string \<Rightarrow> string \<Rightarrow> tasker \<Rightarrow> ('k, 'a) dcron \<Rightarrow> 'g \<Rightarrow>
   error option \<times> ('k, 'a) dcron \<times> 'g" where
  "ForceAddOneShotTask G C taskName cronFormat tasker dc g =
     (case reg_ForceCleanupTask G taskName g of
        (Some err, g) \<Rightarrow> (Some (ErrForceCleanupFailed taskName err), dc, g)
      | (None, g) \<Rightarrow> (case ForceAddTask_locked C taskName cronFormat tasker True dc of
                        (err, dc) \<Rightarrow> (err, dc, g)))"

definition ForceAddOneShotFunc ::
  "'g registry_ops \<Rightarrow> 'k cron_ops \<Rightarrow> string \<Rightarrow> string \<Rightarrow> tasker \<Rightarrow> ('k, 'a) dcron \<Rightarrow> 'g \<Rightarrow>
   error option \<times> ('k, 'a) dcron \<times> 'g" where
  "ForceAddOneShotFunc G C taskName cronFormat runner =
     ForceAddOneShotTask G C taskName cronFormat runner"

definition ForceAddTaskMeta_locked ::
  "'k cron_ops \<Rightarrow> TaskMeta \<Rightarrow> ('k, 'a) dcron \<Rightarrow> ('k, 'a) dcron" where
  [dcron_defs]: "ForceAddTaskMeta_locked C tm dc =
     (let dc = dc\<lparr>dc_deletedTasks := dc_deletedTasks dc - {Name tm}\<rparr>;
          dc = unassign_locked C (Name tm) dc
      in put_task (Name tm) (dynamic_task tm) dc)"

definition ForceAddTaskMeta ::
  "'g registry_ops \<Rightarrow> 'k cron_ops \<Rightarrow> TaskMeta \<Rightarrow> ('k, 'a) dcron \<Rightarrow> 'g \<Rightarrow>
   error option \<times> ('k, 'a) dcron \<times> 'g" where
  "ForceAddTaskMeta G C tm dc g =
     (case reg_ForceCleanupTask G (Name tm) g of
        (Some err, g) \<Rightarrow> (Some err, dc, g)
      | (None, g) \<Rightarrow>
          (case reg_PutTask G tm g of
             (Some err, g) \<Rightarrow> (Some err, dc, g)
           | (None, g) \<Rightarrow> (None, ForceAddTaskMeta_locked C tm dc, g)))"

section \<open>Deleting and restoring tasks\<close>

definition ReuseDeletedTask ::
  "'g registry_ops \<Rightarrow> string \<Rightarrow> ('k, 'a) dcron \<Rightarrow> 'g \<Rightarrow> error option \<times> ('k, 'a) dcron \<times> 'g" where
  "ReuseDeletedTask G taskName dc g =
     (if taskName \<notin> dc_deletedTasks dc then (Some (ErrNotMarkedDeleted taskName), dc, g)
      else if map_of (dc_allTasks dc) taskName = None then (Some (ErrNotInAllTasks taskName), dc, g)
      else let dc = dc\<lparr>dc_deletedTasks := dc_deletedTasks dc - {taskName}\<rparr>
           in case reg_RemoveTaskDeleted G taskName g of (err, g) \<Rightarrow> (err, dc, g))"

definition MarkTaskDeleted_locked ::
  "'k cron_ops \<Rightarrow> string \<Rightarrow> ('k, 'a) dcron \<Rightarrow> error option \<times> ('k, 'a) dcron" where
  [dcron_defs]: "MarkTaskDeleted_locked C taskName dc =
     (case map_of (dc_allTasks dc) taskName of
        None \<Rightarrow> (Some (ErrMarkNotFound taskName), dc)
      | Some t \<Rightarrow>
          let dc = (if map_of (dc_assignedTasks dc) taskName \<noteq> None
                    then dc\<lparr>dc_cr := cr_Remove C (task_id (dc_store dc ! t)) (dc_cr dc),
                            dc_assignedTasks := AList.delete taskName (dc_assignedTasks dc)\<rparr>
                    else dc)
          in (None, dc\<lparr>dc_deletedTasks := insert taskName (dc_deletedTasks dc)\<rparr>))"

definition MarkTaskDeleted ::
  "'g registry_ops \<Rightarrow> 'k cron_ops \<Rightarrow> string \<Rightarrow> ('k, 'a) dcron \<Rightarrow> 'g \<Rightarrow>
   error option \<times> ('k, 'a) dcron \<times> 'g" where
  "MarkTaskDeleted G C taskName dc g =
     (case reg_MarkTaskDeleted G taskName g of
        (Some err, g) \<Rightarrow> (Some err, dc, g)
      | (None, g) \<Rightarrow> (case MarkTaskDeleted_locked C taskName dc of (err, dc) \<Rightarrow> (err, dc, g)))"

definition CleanupTask_locked :: "'k cron_ops \<Rightarrow> string \<Rightarrow> ('k, 'a) dcron \<Rightarrow> ('k, 'a) dcron" where
  [dcron_defs]: "CleanupTask_locked C taskName dc =
     (let dc = (case map_of (dc_assignedTasks dc) taskName of
                  None \<Rightarrow> dc
                | Some t \<Rightarrow> dc\<lparr>dc_cr := cr_Remove C (task_id (dc_store dc ! t)) (dc_cr dc)\<rparr>)
      in dc\<lparr>dc_allTasks := AList.delete taskName (dc_allTasks dc),
            dc_assignedTasks := AList.delete taskName (dc_assignedTasks dc),
            dc_deletedTasks := dc_deletedTasks dc - {taskName}\<rparr>)"

definition CleanupTask ::
  "'g registry_ops \<Rightarrow> 'k cron_ops \<Rightarrow> string \<Rightarrow> ('k, 'a) dcron \<Rightarrow> 'g \<Rightarrow>
   error option \<times> ('k, 'a) dcron \<times> 'g" where
  "CleanupTask G C taskName dc g =
     (case reg_ForceCleanupTask G taskName g of
        (Some err, g) \<Rightarrow> (Some err, dc, g)
      | (None, g) \<Rightarrow> (None, CleanupTask_locked C taskName dc, g))"

definition remove_all :: "'k cron_ops \<Rightarrow> task list \<Rightarrow> task_map \<Rightarrow> 'k \<Rightarrow> 'k" where
  [dcron_defs]: "remove_all C store tasks k =
     fold (\<lambda>(n, t) k. if task_id (store ! t) \<noteq> 0 then cr_Remove C (task_id (store ! t)) k else k)
       tasks k"

definition ForceCleanupAllTasks_locked :: "'k cron_ops \<Rightarrow> ('k, 'a) dcron \<Rightarrow> ('k, 'a) dcron" where
  [dcron_defs]: "ForceCleanupAllTasks_locked C dc =
     dc\<lparr>dc_cr := remove_all C (dc_store dc) (dc_assignedTasks dc) (dc_cr dc),
        dc_allTasks := [], dc_assignedTasks := [], dc_deletedTasks := {}\<rparr>"

definition ForceCleanupAllTasks ::
  "'g registry_ops \<Rightarrow> 'k cron_ops \<Rightarrow> ('k, 'a) dcron \<Rightarrow> 'g \<Rightarrow> error option \<times> ('k, 'a) dcron \<times> 'g"
where
  "ForceCleanupAllTasks G C dc g =
     (case reg_ForceCleanupAllTasks G g of
        (Some err, g) \<Rightarrow> (Some err, dc, g)
      | (None, g) \<Rightarrow> (None, ForceCleanupAllTasks_locked C dc, g))"

section \<open>Reading the state\<close>

definition GetNodeID :: "('k, 'a) dcron \<Rightarrow> string" where
  "GetNodeID dc = dc_nodeID dc"

definition GetNodes ::
  "'g registry_ops \<Rightarrow> 'g \<Rightarrow> (error + Node list) \<times> 'g" where
  "GetNodes G g = reg_GetNodes G g"

definition GetWorkingNodes ::
  "'g registry_ops \<Rightarrow> 'g \<Rightarrow> (error + Node list) \<times> 'g" where
  "GetWorkingNodes G g = reg_GetWorkingNodes G g"

definition GetAllTasks :: "('k, 'a) dcron \<Rightarrow> string list" where
  "GetAllTasks dc = map fst (dc_allTasks dc)"

definition GetRunningTasks :: "('k, 'a) dcron \<Rightarrow> string list" where
  "GetRunningTasks dc = filter (\<lambda>name. name \<notin> dc_deletedTasks dc) (map fst (dc_assignedTasks dc))"

definition GetMyselfRunningTasks :: "('k, 'a) dcron \<Rightarrow> string list" where
  "GetMyselfRunningTasks dc = map fst (dc_assignedTasks dc)"

definition isDeletedTask :: "string \<Rightarrow> ('k, 'a) dcron \<Rightarrow> bool" where
  "isDeletedTask taskName dc \<longleftrightarrow> taskName \<in> dc_deletedTasks dc"

section \<open>Events and reloads\<close>

definition handleTaskEvent ::
  "'k cron_ops \<Rightarrow> TaskMetaEvent \<Rightarrow> ('k, 'a) dcron \<Rightarrow> (('k, 'a) dcron) go" where
  "handleTaskEvent C event dc =
     (let tm = TE_Task event; taskName = Name tm in
      if TE_Type event = TaskEventTypePut
      then case map_of (dc_allTasks dc) taskName of
             None \<Rightarrow> Inl NilDeref
           | Some existing \<Rightarrow>
               let t = dc_store dc ! existing;
                   needReschedule = (task_id t \<noteq> 0 \<and> CronFormat (task_metadata t) \<noteq> CronFormat tm);
                   dc = (if needReschedule
                         then set_task_id existing 0
                                (dc\<lparr>dc_cr := cr_Remove C (task_id t) (dc_cr dc),
                                    dc_assignedTasks := AList.delete taskName (dc_assignedTasks dc)\<rparr>)
                         else dc)
               in Inr (put_task taskName
                    ((dynamic_task tm)\<lparr>task_id := task_id (dc_store dc ! existing)\<rparr>) dc)
      else if TE_Type event = TaskEventTypeDelete
      then case map_of (dc_allTasks dc) taskName of
             None \<Rightarrow> Inr dc
           | Some t \<Rightarrow>
               let dc = dc\<lparr>dc_allTasks := AList.delete taskName (dc_allTasks dc),
                           dc_assignedTasks := AList.delete taskName (dc_assignedTasks dc)\<rparr>
               in Inr (if task_id (dc_store dc ! t) \<noteq> 0
                       then dc\<lparr>dc_cr := cr_Remove C (task_id (dc_store dc ! t)) (dc_cr dc)\<rparr> else dc)
      else Inr dc)"

fun reload_each :: "(string \<times> TaskMeta) list \<Rightarrow> ('k, 'a) dcron \<Rightarrow> ('k, 'a) dcron" where
  "reload_each [] dc = dc"
| "reload_each ((key, dt) # tasks) dc =
     reload_each tasks
       (if map_of (dc_allTasks dc) (Name dt) = None
        then put_task (Name dt) (dynamic_task dt) dc else dc)"

definition reloadTasks ::
  "'g registry_ops \<Rightarrow> ('k, 'a) dcron \<Rightarrow> 'g \<Rightarrow> ('k, 'a) dcron \<times> 'g" where
  "reloadTasks G dc g =
     (case reg_GetAllTasks G g of
        (Inl err, g) \<Rightarrow> (dc, g)
      | (Inr tasks, g) \<Rightarrow> (reload_each tasks dc, g))"

definition reloadDeletedTasks ::
  "'g registry_ops \<Rightarrow> ('k, 'a) dcron \<Rightarrow> 'g \<Rightarrow> ('k, 'a) dcron \<times> 'g" where
  "reloadDeletedTasks G dc g =
     (case reg_GetDeletedTaskNames G g of (names, g) \<Rightarrow> (dc\<lparr>dc_deletedTasks := set names\<rparr>, g))"

text \<open>\<open>strings.Join(ids, ",")\<close>.\<close>

fun join_comma :: "string list \<Rightarrow> string" where
  "join_comma [] = []"
| "join_comma [x] = x"
| "join_comma (x # y # xs) = x @ '','' @ join_comma (y # xs)"

definition nodes_hash :: "Node list \<Rightarrow> 32 word" where
  "nodes_hash nodes = ChecksumIEEE (join_comma (map ID nodes))"

definition reloadNodes_locked ::
  "Node list \<Rightarrow> ('k, 'a) dcron \<Rightarrow> bool \<times> ('k, 'a) dcron" where
  [dcron_defs]: "reloadNodes_locked nodes dc =
     (if nodes_hash nodes = nodes_hash (dc_nodes dc) then (False, dc)
      else (True, dc\<lparr>dc_nodes := nodes\<rparr>))"

definition reloadNodes ::
  "'g registry_ops \<Rightarrow> ('k, 'a) dcron \<Rightarrow> 'g \<Rightarrow> bool \<times> ('k, 'a) dcron \<times> 'g" where
  "reloadNodes G dc g =
     (case reg_GetWorkingNodes G g of
        (Inl err, g) \<Rightarrow> (False, dc, g)
      | (Inr nodes, g) \<Rightarrow>
          (case reloadNodes_locked (sort_key ID nodes) dc of (changed, dc) \<Rightarrow> (changed, dc, g)))"

section \<open>Rebalancing\<close>

definition shouldRunTask ::
  "'a assigner_ops \<Rightarrow> string \<Rightarrow> ('k, 'a) dcron \<Rightarrow> (bool \<times> ('k, 'a) dcron) go" where
  "shouldRunTask A taskName dc =
     (case dc_assigner dc of
        None \<Rightarrow> Inr (False, dc)
      | Some a \<Rightarrow> go_bind (as_ShouldRun A a taskName (dc_nodeID dc))
          (\<lambda>(b, a). Inr (b, dc\<lparr>dc_assigner := Some a\<rparr>)))"

fun entry_scan :: "nat \<Rightarrow> cron_entry list \<Rightarrow> bool" where
  "entry_scan i [] = False"
| "entry_scan i (e # entries) = (if fst e = i then True else entry_scan i entries)"

definition existedInCron :: "'k cron_ops \<Rightarrow> nat \<Rightarrow> ('k, 'a) dcron \<Rightarrow> bool" where
  "existedInCron C i dc = entry_scan i (cr_Entries C (dc_cr dc))"

text \<open>The counters of the summary line.\<close>

record rebalance_counts =
  rc_counter :: nat
  rc_assigned :: nat
  rc_unassigned :: nat

text \<open>The two branches of the loop body.\<close>

definition rebalance_assign ::
  "'k cron_ops \<Rightarrow> string \<Rightarrow> addr \<Rightarrow> bool \<Rightarrow> ('k, 'a) dcron \<times> rebalance_counts \<Rightarrow>
   ('k, 'a) dcron \<times> rebalance_counts" where
  "rebalance_assign C taskName a existed = (\<lambda>(dc, n).
     let n = n\<lparr>rc_counter := rc_counter n + 1\<rparr> in
     if \<not> existed
     then case cr_AddJob C (CronFormat (task_metadata (dc_store dc ! a))) a (dc_cr dc) of
            (Inl err, k) \<Rightarrow> (dc\<lparr>dc_cr := k\<rparr>, n)
          | (Inr newID, k) \<Rightarrow>
              let dc = set_task_id a newID (dc\<lparr>dc_cr := k\<rparr>)
              in (dc\<lparr>dc_assignedTasks := AList.update taskName a (dc_assignedTasks dc)\<rparr>,
                  n\<lparr>rc_assigned := rc_assigned n + 1\<rparr>)
     else (dc, n))"

definition rebalance_unassign ::
  "'k cron_ops \<Rightarrow> string \<Rightarrow> addr \<Rightarrow> bool \<Rightarrow> ('k, 'a) dcron \<times> rebalance_counts \<Rightarrow>
   ('k, 'a) dcron \<times> rebalance_counts" where
  "rebalance_unassign C taskName a existed = (\<lambda>(dc, n).
     if existed
     then (dc\<lparr>dc_cr := cr_Remove C (task_id (dc_store dc ! a)) (dc_cr dc),
              dc_assignedTasks := AList.delete taskName (dc_assignedTasks dc)\<rparr>,
           n\<lparr>rc_unassigned := rc_unassigned n + 1\<rparr>)
     else (dc, n))"

definition rebalance_task ::
  "'k cron_ops \<Rightarrow> 'a assigner_ops \<Rightarrow> string \<Rightarrow> ('k, 'a) dcron \<times> rebalance_counts \<Rightarrow>
   (('k, 'a) dcron \<times> rebalance_counts) go" where
  "rebalance_task C A taskName = (\<lambda>(dc, n).
     case map_of (dc_allTasks dc) taskName of
       None \<Rightarrow> Inl NilDeref
     | Some a \<Rightarrow>
         go_bind (if taskName \<notin> dc_deletedTasks dc then shouldRunTask A taskName dc else Inr (False, dc))
           (\<lambda>(shouldRun, dc).
              let existed = (task_id (dc_store dc ! a) \<noteq> 0 \<and> existedInCron C (task_id (dc_store dc ! a)) dc)
              in Inr (if shouldRun then rebalance_assign C taskName a existed (dc, n)
                      else rebalance_unassign C taskName a existed (dc, n))))"

fun rebalance_loop ::
  "'k cron_ops \<Rightarrow> 'a assigner_ops \<Rightarrow> string list \<Rightarrow> ('k, 'a) dcron \<times> rebalance_counts \<Rightarrow>
   (('k, 'a) dcron \<times> rebalance_counts) go" where
  "rebalance_loop C A [] s = Inr s"
| "rebalance_loop C A (taskName # taskNames) s =
     go_bind (rebalance_task C A taskName s) (rebalance_loop C A taskNames)"

definition no_counts :: rebalance_counts where
  "no_counts = \<lparr>rc_counter = 0, rc_assigned = 0, rc_unassigned = 0\<rparr>"

definition doRebalanced ::
  "'k cron_ops \<Rightarrow> 'a assigner_ops \<Rightarrow> ('k, 'a) dcron \<Rightarrow> (('k, 'a) dcron \<times> rebalance_counts) go" where
  "doRebalanced C A dc =
     (if length (dc_nodes dc) = 0 then Inr (dc, no_counts)
      else case dc_assigner dc of
        None \<Rightarrow> Inl NilDeref
      | Some a \<Rightarrow>
          let dc = dc\<lparr>dc_assigner := Some (as_UpdateNodes A a (dc_nodes dc))\<rparr>;
              taskNames = sort (map fst (dc_allTasks dc))
          in rebalance_loop C A taskNames (dc, no_counts))"

section \<open>The background goroutines\<close>

text \<open>A send on \<open>rebalancedChan\<close>; \<open>None\<close> when the buffer is full and the sender waits.\<close>

definition signal_rebalance :: "('k, 'a) dcron \<Rightarrow> (('k, 'a) dcron) option" where
  "signal_rebalance dc =
     (if dc_rebalancedChan dc < RebalancedChanelSize
      then Some (dc\<lparr>dc_rebalancedChan := dc_rebalancedChan dc + 1\<rparr>) else None)"

text \<open>One turn of each loop. The \<open>bool\<close> says that a signal has to be sent afterwards.\<close>

definition watchTaskEvent_event ::
  "'k cron_ops \<Rightarrow> TaskMetaEvent \<Rightarrow> ('k, 'a) dcron \<Rightarrow> (bool \<times> ('k, 'a) dcron) go" where
  "watchTaskEvent_event C event dc = go_bind (handleTaskEvent C event dc) (\<lambda>dc. Inr (True, dc))"

definition watchTaskEvent_tick ::
  "'g registry_ops \<Rightarrow> ('k, 'a) dcron \<Rightarrow> 'g \<Rightarrow> bool \<times> ('k, 'a) dcron \<times> 'g" where
  "watchTaskEvent_tick G dc g = (True, reloadTasks G dc g)"

definition watchDeletedTaskEvent_turn ::
  "'g registry_ops \<Rightarrow> ('k, 'a) dcron \<Rightarrow> 'g \<Rightarrow> bool \<times> ('k, 'a) dcron \<times> 'g" where
  "watchDeletedTaskEvent_turn G dc g = (True, reloadDeletedTasks G dc g)"

definition watchNodeEvent_turn ::
  "'g registry_ops \<Rightarrow> ('k, 'a) dcron \<Rightarrow> 'g \<Rightarrow> bool \<times> ('k, 'a) dcron \<times> 'g" where
  "watchNodeEvent_turn G dc g = reloadNodes G dc g"

definition rebalanced_turn ::
  "'k cron_ops \<Rightarrow> 'a assigner_ops \<Rightarrow> ('k, 'a) dcron \<Rightarrow> ((('k, 'a) dcron) go) option" where
  "rebalanced_turn C A dc =
     (if dc_rebalancedChan dc > 0
      then Some (go_bind (doRebalanced C A (dc\<lparr>dc_rebalancedChan := dc_rebalancedChan dc - 1\<rparr>))
             (\<lambda>(dc, n). Inr dc))
      else None)"

definition heartbeat_turn ::
  "'g registry_ops \<Rightarrow> time \<Rightarrow> ('k, 'a) dcron \<Rightarrow> 'g \<Rightarrow> error list \<times> 'g" where
  "heartbeat_turn G now dc g =
     (case reg_UpdateHeartbeat G (dc_nodeID dc) now g of
        (e1, g) \<Rightarrow> (case reg_CleanupExpiredNodes G nodeTimeout now g of
           (e2, g) \<Rightarrow> (List.map_filter id [e1, e2], g)))"

definition prepareWork ::
  "'g registry_ops \<Rightarrow> ('k, 'a) dcron \<Rightarrow> 'g \<Rightarrow> ('k, 'a) dcron \<times> 'g" where
  "prepareWork G dc g =
     (case reloadNodes G dc g of (changed, dc, g) \<Rightarrow>
        (case reloadTasks G dc g of (dc, g) \<Rightarrow> reloadDeletedTasks G dc g))"

end
