(* ===== verification/Dcron_Inv.thy ===== *)
theory Dcron_Inv
  imports Dcron
begin

text \<open>
  The invariant that ties the scheduler's task maps to the cron engine, and that every
  section under \<open>tasksRWMux\<close> keeps it. A map of task pointers is read through its view:
  for each name the ID, the schedule and the address of its task object. The invariant is
  stated on the two views and the engine, with one lemma per primitive change; an operation
  is a composition of these.
\<close>

section \<open>Views of the task maps\<close>

definition fmt_of :: "task \<Rightarrow> string" where
  "fmt_of t = CronFormat (task_metadata t)"

type_synonym task_view = "string \<rightharpoonup> cron_entry"

definition view :: "task list \<Rightarrow> (string \<rightharpoonup> addr) \<Rightarrow> task_view" where
  "view st m = (\<lambda>n. map_option (\<lambda>a. (task_id (st ! a), fmt_of (st ! a), a)) (m n))"

text \<open>Every pointer of a map is an object of the store, and it carries the map's key.\<close>

definition names_ok :: "task list \<Rightarrow> (string \<rightharpoonup> addr) \<Rightarrow> bool" where
  "names_ok st m \<longleftrightarrow>
     (\<forall>n a. m n = Some a \<longrightarrow> a < length st \<and> task_name (st ! a) = n \<and> Name (task_metadata (st ! a)) = n)"

lemma view_None [simp]: "view st m n = None \<longleftrightarrow> m n = None"
  by (simp add: view_def)

lemma view_Some: "view st m n = Some (i, f, a) \<longleftrightarrow>
    m n = Some a \<and> i = task_id (st ! a) \<and> f = fmt_of (st ! a)"
  by (auto simp: view_def)

lemma view_delete [simp]: "view st (m(n := None)) = (view st m)(n := None)"
  by (auto simp: view_def fun_eq_iff)

lemma names_okD:
  "names_ok st m \<Longrightarrow> m n = Some a \<Longrightarrow> a < length st"
  "names_ok st m \<Longrightarrow> m n = Some a \<Longrightarrow> task_name (st ! a) = n"
  by (auto simp: names_ok_def)

lemma names_ok_inj: "names_ok st m \<Longrightarrow> names_ok st m' \<Longrightarrow> m n = Some a \<Longrightarrow> m' n' = Some a \<Longrightarrow> n = n'"
  by (auto simp: names_ok_def)

lemma names_ok_delete [intro]: "names_ok st m \<Longrightarrow> names_ok st (m(n := None))"
  by (auto simp: names_ok_def)

lemma names_ok_append [intro]: "names_ok st m \<Longrightarrow> names_ok (st @ [t]) m"
  by (fastforce simp: names_ok_def nth_append)

lemma names_ok_new:
  "names_ok st m \<Longrightarrow> task_name t = n \<Longrightarrow> Name (task_metadata t) = n \<Longrightarrow> names_ok (st @ [t]) (m(n \<mapsto> length st))"
  by (fastforce simp: names_ok_def nth_append)

lemma names_ok_set_id [intro]:
  assumes "names_ok st m" shows "names_ok (st[b := (st ! b)\<lparr>task_id := i\<rparr>]) m"
proof -
  have "task_name (st[b := (st ! b)\<lparr>task_id := i\<rparr>] ! a) = task_name (st ! a) \<and>
      task_metadata (st[b := (st ! b)\<lparr>task_id := i\<rparr>] ! a) = task_metadata (st ! a)" for a
    by (cases "b < length st") (auto simp: nth_list_update list_update_beyond)
  with assms show ?thesis by (simp add: names_ok_def)
qed

lemma names_ok_upd: "names_ok st m \<Longrightarrow> names_ok st m' \<Longrightarrow> m n = Some a \<Longrightarrow> names_ok st (m'(n \<mapsto> a))"
  by (auto simp: names_ok_def)

lemma view_append [simp]: "names_ok st m \<Longrightarrow> view (st @ [t]) m = view st m"
  by (auto simp: view_def fun_eq_iff nth_append names_ok_def intro!: option.map_cong0)

lemma view_new:
  "names_ok st m \<Longrightarrow> view (st @ [t]) (m(n \<mapsto> length st)) = (view st m)(n \<mapsto> (task_id t, fmt_of t, length st))"
  using view_append[of st m t] by (auto simp: view_def fun_eq_iff)

lemma view_set_id:
  assumes "names_ok st m" and "m n = Some b"
  shows "view (st[b := (st ! b)\<lparr>task_id := i\<rparr>]) m = (view st m)(n \<mapsto> (i, fmt_of (st ! b), b))"
proof
  fix x
  have "m x = Some a \<Longrightarrow> x \<noteq> n \<Longrightarrow> a \<noteq> b" for a
    using names_ok_inj[OF assms(1) assms(1), of x a n] assms(2) by auto
  then show "view (st[b := (st ! b)\<lparr>task_id := i\<rparr>]) m x = ((view st m)(n \<mapsto> (i, fmt_of (st ! b), b))) x"
    using names_okD(1)[OF assms] assms(2) by (cases "m x") (auto simp: view_def fmt_of_def)
qed

lemma view_set_id_other:
  assumes "names_ok st m" and "names_ok st all" and "all n = Some b" and "m n = None"
  shows "view (st[b := (st ! b)\<lparr>task_id := i\<rparr>]) m = view st m"
proof
  fix x
  have "m x = Some a \<Longrightarrow> a \<noteq> b" for a
    using names_ok_inj[OF assms(1,2), of x a n] assms(3,4) by auto
  then show "view (st[b := (st ! b)\<lparr>task_id := i\<rparr>]) m x = view st m x"
    by (cases "m x") (auto simp: view_def)
qed

section \<open>The invariant\<close>

text \<open>
  On the views \<open>V\<close> of \<open>allTasks\<close> and \<open>W\<close> of \<open>assignedTasks\<close>: the cron entries are exactly the
  assigned tasks; an assigned task is a known one with the same ID and a schedule the engine
  accepts; an ID belongs to one task, and was given out by the engine.
\<close>

definition linked :: "'k cron_ops \<Rightarrow> ('k \<Rightarrow> string \<Rightarrow> bool) \<Rightarrow> ('k \<Rightarrow> nat set) \<Rightarrow> 'k \<Rightarrow>
    task_view \<Rightarrow> task_view \<Rightarrow> bool" where
  "linked C valid issued k V W \<longleftrightarrow>
     set (cr_Entries C k) = ran W \<and>
     (\<forall>n i f a. W n = Some (i, f, a) \<longrightarrow> i \<noteq> 0 \<and> valid k f \<and> (\<exists>b. V n = Some (i, f, b))) \<and>
     (\<forall>n i f a. V n = Some (i, f, a) \<longrightarrow> i \<noteq> 0 \<longrightarrow> i \<in> issued k \<and>
        (\<forall>m f' b. V m = Some (i, f', b) \<longrightarrow> m = n))"

definition dc_inv :: "'k cron_ops \<Rightarrow> ('k \<Rightarrow> string \<Rightarrow> bool) \<Rightarrow> ('k \<Rightarrow> nat set) \<Rightarrow> ('k, 'a) dcron \<Rightarrow> bool" where
  "dc_inv C valid issued dc \<longleftrightarrow>
     distinct (map fst (dc_allTasks dc)) \<and> distinct (map fst (dc_assignedTasks dc)) \<and>
     names_ok (dc_store dc) (map_of (dc_allTasks dc)) \<and>
     names_ok (dc_store dc) (map_of (dc_assignedTasks dc)) \<and>
     linked C valid issued (dc_cr dc)
       (view (dc_store dc) (map_of (dc_allTasks dc)))
       (view (dc_store dc) (map_of (dc_assignedTasks dc)))"

section \<open>The primitive changes\<close>

context cron_engine
begin

abbreviation lnk :: "'k \<Rightarrow> task_view \<Rightarrow> task_view \<Rightarrow> bool" where
  "lnk \<equiv> linked C valid issued"

lemma lnkD:
  "lnk k V W \<Longrightarrow> set (cr_Entries C k) = ran W"
  "lnk k V W \<Longrightarrow> W n = Some (i, f, a) \<Longrightarrow> i \<noteq> 0"
  "lnk k V W \<Longrightarrow> W n = Some (i, f, a) \<Longrightarrow> valid k f"
  "lnk k V W \<Longrightarrow> W n = Some (i, f, a) \<Longrightarrow> \<exists>b. V n = Some (i, f, b)"
  "lnk k V W \<Longrightarrow> V n = Some (i, f, a) \<Longrightarrow> i \<noteq> 0 \<Longrightarrow> i \<in> issued k"
  "lnk k V W \<Longrightarrow> V n = Some (i, f, a) \<Longrightarrow> i \<noteq> 0 \<Longrightarrow> V m = Some (i, f', b) \<Longrightarrow> m = n"
  unfolding linked_def by blast+

lemma lnk_agree: "lnk k V W \<Longrightarrow> W n = Some (i, f, a) \<Longrightarrow> V n = Some (j, g, b) \<Longrightarrow> i = j \<and> f = g"
  using lnkD(4) by fastforce

lemma lnk_unique: "lnk k V W \<Longrightarrow> W n = Some (i, f, a) \<Longrightarrow> V m = Some (i, g, b) \<Longrightarrow> m = n"
  using lnkD(2,4,6) by metis

lemma lnk_delete: "lnk k V W \<Longrightarrow> W n = None \<Longrightarrow> lnk k (V(n := None)) W"
  unfolding linked_def by (auto split: if_splits)

lemma lnk_new: "lnk k V W \<Longrightarrow> W n = None \<Longrightarrow> lnk k (V(n \<mapsto> (0, f, a))) W"
  unfolding linked_def by (auto split: if_splits)

lemma lnk_copy:
  assumes "lnk k V W" and "V n = Some (i, f, a)" and "i \<noteq> 0"
  shows "lnk k (V(n \<mapsto> (i, f, b))) W"
  unfolding linked_def
proof (intro conjI allI impI)
  fix m j g c assume W: "W m = Some (j, g, c)"
  then show "j \<noteq> 0" and "valid k g" using lnkD(2,3)[OF assms(1)] by blast+
  have "m = n \<Longrightarrow> j = i \<and> g = f" using lnk_agree[OF assms(1) W] assms(2) by simp
  then show "\<exists>b'. (V(n \<mapsto> (i, f, b))) m = Some (j, g, b')"
    using lnkD(4)[OF assms(1) W] by auto
next
  fix m j g c m' g' c'
  assume "(V(n \<mapsto> (i, f, b))) m = Some (j, g, c)" "j \<noteq> 0"
  with assms show "j \<in> issued k" and "(V(n \<mapsto> (i, f, b))) m' = Some (j, g', c') \<Longrightarrow> m' = m"
    using lnkD(5,6)[OF assms(1)] by (auto split: if_splits)
qed (use lnkD(1)[OF assms(1)] in simp)

lemma lnk_remove_stale:
  assumes "lnk k V W" and "V n = Some (i, f, a)" and "W n = None"
  shows "lnk (cr_Remove C i k) V W"
proof -
  have "(i, f', b) \<notin> ran W" for f' b
    using lnk_unique[OF assms(1) _ assms(2)] assms(3) by (auto simp: ran_def)
  then have "{e \<in> ran W. fst e \<noteq> i} = ran W" by auto
  with assms(1) show ?thesis unfolding linked_def by (simp add: remove_laws)
qed

lemma lnk_unassign:
  assumes "lnk k V W" and "W n = Some (i, f, a)"
  shows "lnk (cr_Remove C i k) V (W(n := None))"
proof -
  obtain b where "V n = Some (i, f, b)" using lnkD(4)[OF assms] ..
  then have only: "W m = Some (i, f', c) \<Longrightarrow> m = n" for m f' c
    using lnk_unique[OF assms(1)] by blast
  have "{e \<in> ran W. fst e \<noteq> i} = ran (W(n := None))"
  proof (intro equalityI subsetI)
    fix e assume "e \<in> {e \<in> ran W. fst e \<noteq> i}"
    then obtain m where "W m = Some e" "fst e \<noteq> i" by (auto simp: ran_def)
    then show "e \<in> ran (W(n := None))" using assms(2) by (intro ranI[of _ m]) auto
  next
    fix e assume "e \<in> ran (W(n := None))"
    then obtain m where "W m = Some e" "m \<noteq> n" by (auto simp: ran_def split: if_splits)
    then show "e \<in> {e \<in> ran W. fst e \<noteq> i}" using only[of m] by (cases e) (auto intro: ranI)
  qed
  with assms(1) show ?thesis unfolding linked_def by (auto simp: remove_laws)
qed

lemma lnk_assign:
  assumes "lnk k V W" and "V n = Some (i0, f, a)" and "W n = None"
    and "cr_AddJob C f a k = (Inr i, k')"
  shows "lnk k' (V(n \<mapsto> (i, f, a))) (W(n \<mapsto> (i, f, a)))"
  using assms(4)
proof (cases rule: add_cases[of f a k])
  case (ok j k2)
  then have new: "i \<noteq> 0" "i \<notin> issued k" "issued k' = insert i (issued k)" "valid k' = valid k" "valid k f"
    "set (cr_Entries C k') = insert (i, f, a) (set (cr_Entries C k))"
    using assms(4) by auto
  have "ran (W(n \<mapsto> (i, f, a))) = insert (i, f, a) (ran W)" using assms(3) by (rule ran_map_upd)
  moreover have "V m \<noteq> Some (i, f', b)" for m f' b
    using assms(1) new(1,2) unfolding linked_def by blast
  ultimately show ?thesis
    using assms(1,3) new unfolding linked_def by auto
qed (use assms(4) in auto)

lemma lnk_existed:
  assumes "lnk k V W" and "V n = Some (i, f, a)"
  shows "i \<noteq> 0 \<and> i \<in> fst ` set (cr_Entries C k) \<longleftrightarrow> W n \<noteq> None"
proof
  assume "i \<noteq> 0 \<and> i \<in> fst ` set (cr_Entries C k)"
  then obtain m f' b where "W m = Some (i, f', b)" "i \<noteq> 0"
    using assms(1) unfolding linked_def ran_def by force
  with assms show "W n \<noteq> None" using lnk_unique by blast
next
  assume "W n \<noteq> None"
  then obtain j g b where "W n = Some (j, g, b)" by (metis option.exhaust prod_cases3)
  moreover from this have "j = i" "j \<noteq> 0" using assms lnk_agree lnkD(2) by blast+
  ultimately show "i \<noteq> 0 \<and> i \<in> fst ` set (cr_Entries C k)"
    using lnkD(1)[OF assms(1)] by (auto simp: image_iff intro!: bexI[of _ "(i, g, b)"] ranI)
qed

end

section \<open>The operations keep the invariant\<close>

text \<open>Fields the invariant does not read.\<close>

lemma dc_inv_frame [simp]:
  "dc_inv C valid issued (dc\<lparr>dc_deletedTasks := D\<rparr>) = dc_inv C valid issued dc"
  "dc_inv C valid issued (dc\<lparr>dc_nodes := ns\<rparr>) = dc_inv C valid issued dc"
  "dc_inv C valid issued (dc\<lparr>dc_assigner := a\<rparr>) = dc_inv C valid issued dc"
  "dc_inv C valid issued (dc\<lparr>dc_rebalancedChan := c\<rparr>) = dc_inv C valid issued dc"
  "dc_inv C valid issued (dc\<lparr>dc_running := b\<rparr>) = dc_inv C valid issued dc"
  "dc_inv C valid issued (dc\<lparr>dc_shutdownChan := b\<rparr>) = dc_inv C valid issued dc"
  "dc_inv C valid issued (dc\<lparr>dc_done := b\<rparr>) = dc_inv C valid issued dc"
  by (simp_all add: dc_inv_def)

lemma unassign_frame [simp]:
  "unassign_locked C n (dc\<lparr>dc_allTasks := m\<rparr>) = (unassign_locked C n dc)\<lparr>dc_allTasks := m\<rparr>"
  "unassign_locked C n (dc\<lparr>dc_deletedTasks := D\<rparr>) = (unassign_locked C n dc)\<lparr>dc_deletedTasks := D\<rparr>"
  "dc_allTasks (unassign_locked C n dc) = dc_allTasks dc"
  "dc_deletedTasks (unassign_locked C n dc) = dc_deletedTasks dc"
  "dc_store (unassign_locked C n dc) = dc_store dc"
  "map_of (dc_assignedTasks (unassign_locked C n dc)) = (map_of (dc_assignedTasks dc))(n := None)"
  by (auto simp: unassign_locked_def Let_def alist_simps fun_eq_iff split: option.splits)

context cron_engine
begin

abbreviation sched_inv :: "('k, 'a) dcron \<Rightarrow> bool" where
  "sched_inv \<equiv> dc_inv C valid issued"

text \<open>An assigned task is a known task.\<close>

lemma assigned_known:
  assumes "sched_inv dc" and "map_of (dc_assignedTasks dc) n = Some a"
  obtains b where "map_of (dc_allTasks dc) n = Some b"
    "task_id (dc_store dc ! b) = task_id (dc_store dc ! a)" "fmt_of (dc_store dc ! b) = fmt_of (dc_store dc ! a)"
    "task_id (dc_store dc ! a) \<noteq> 0"
proof -
  have l: "lnk (dc_cr dc) (view (dc_store dc) (map_of (dc_allTasks dc))) (view (dc_store dc) (map_of (dc_assignedTasks dc)))"
    using assms(1) by (simp add: dc_inv_def)
  have W: "view (dc_store dc) (map_of (dc_assignedTasks dc)) n =
      Some (task_id (dc_store dc ! a), fmt_of (dc_store dc ! a), a)"
    using assms(2) by (simp add: view_Some)
  show thesis
    using lnkD(4)[OF l W] lnkD(2)[OF l W] that by (auto simp: view_Some)
qed

lemma unknown_unassigned:
  "sched_inv dc \<Longrightarrow> map_of (dc_allTasks dc) n = None \<Longrightarrow> map_of (dc_assignedTasks dc) n = None"
  by (metis assigned_known option.exhaust option.distinct(1))

lemma inv_unassign:
  assumes "sched_inv dc"
  shows "sched_inv (unassign_locked C n dc)"
proof (cases "map_of (dc_assignedTasks dc) n")
  case (Some a)
  let ?i = "task_id (dc_store dc ! a)"
  have "?i \<noteq> 0" using assigned_known[OF assms Some] by blast
  then have eq: "unassign_locked C n dc =
      dc\<lparr>dc_cr := cr_Remove C ?i (dc_cr dc), dc_assignedTasks := AList.delete n (dc_assignedTasks dc)\<rparr>"
    using Some by (simp add: unassign_locked_def)
  have "view (dc_store dc) (map_of (dc_assignedTasks dc)) n = Some (?i, fmt_of (dc_store dc ! a), a)"
    using Some by (simp add: view_Some)
  then show ?thesis
    using assms lnk_unassign unfolding eq
    by (simp add: dc_inv_def alist_simps distinct_keys_delete names_ok_delete)
qed (use assms in \<open>simp add: unassign_locked_def\<close>)

lemma inv_put:
  assumes "sched_inv dc" and "map_of (dc_assignedTasks dc) n = None"
    and "task_name t = n" and "Name (task_metadata t) = n" and "task_id t = 0"
  shows "sched_inv (put_task n t dc)"
  using assms lnk_new
  by (simp add: dc_inv_def put_task_def new_task_def alist_simps distinct_keys_update
      names_ok_append names_ok_new view_new)

lemma inv_delete:
  assumes "sched_inv dc" and "map_of (dc_assignedTasks dc) n = None"
  shows "sched_inv (dc\<lparr>dc_allTasks := AList.delete n (dc_allTasks dc)\<rparr>)"
  using assms lnk_delete
  by (simp add: dc_inv_def alist_simps distinct_keys_delete names_ok_delete)

lemma inv_addJobLocked: "sched_inv dc \<Longrightarrow> sched_inv (snd (addJobLocked n f t os dc))"
  using inv_put[of dc n] unknown_unassigned[of dc n]
  by (auto simp: addJobLocked_def static_meta_def put_task_def new_task_def)

lemma inv_ForceAddTask: "sched_inv dc \<Longrightarrow> sched_inv (snd (ForceAddTask_locked C n f t os dc))"
proof -
  assume "sched_inv dc"
  then have "sched_inv ((unassign_locked C n dc)\<lparr>dc_allTasks := AList.delete n (dc_allTasks dc)\<rparr>)"
    using inv_delete[OF inv_unassign] by fastforce
  then have "sched_inv ((unassign_locked C n dc)\<lparr>dc_allTasks := AList.delete n (dc_allTasks dc),
      dc_deletedTasks := dc_deletedTasks dc - {n}\<rparr>)" (is "sched_inv ?dc")
    by simp
  from inv_addJobLocked[OF this, of n f t os] show ?thesis
    by (auto simp: ForceAddTask_locked_def split: prod.splits option.splits)
qed

lemma inv_ForceAddTaskMeta: "sched_inv dc \<Longrightarrow> sched_inv (ForceAddTaskMeta_locked C tm dc)"
  unfolding ForceAddTaskMeta_locked_def Let_def
  by (intro inv_put) (auto simp: inv_unassign dynamic_task_def)

lemma inv_MarkTaskDeleted:
  assumes "sched_inv dc"
  shows "sched_inv (snd (MarkTaskDeleted_locked C n dc))"
proof (cases "map_of (dc_allTasks dc) n")
  case (Some t)
  have "(if map_of (dc_assignedTasks dc) n \<noteq> None
      then dc\<lparr>dc_cr := cr_Remove C (task_id (dc_store dc ! t)) (dc_cr dc),
              dc_assignedTasks := AList.delete n (dc_assignedTasks dc)\<rparr> else dc) = unassign_locked C n dc"
  proof (cases "map_of (dc_assignedTasks dc) n")
    case asg: (Some a)
    obtain b where "map_of (dc_allTasks dc) n = Some b"
      "task_id (dc_store dc ! b) = task_id (dc_store dc ! a)" "task_id (dc_store dc ! a) \<noteq> 0"
      using assigned_known[OF assms asg] by blast
    with asg Some show ?thesis by (simp add: unassign_locked_def)
  qed (simp add: unassign_locked_def)
  then show ?thesis
    using Some inv_unassign[OF assms] by (simp add: MarkTaskDeleted_locked_def Let_def)
qed (use assms in \<open>simp add: MarkTaskDeleted_locked_def\<close>)

lemma CleanupTask_eq:
  assumes "sched_inv dc"
  shows "CleanupTask_locked C n dc = (unassign_locked C n dc)\<lparr>dc_allTasks := AList.delete n (dc_allTasks dc),
    dc_deletedTasks := dc_deletedTasks dc - {n}\<rparr>"
proof (cases "map_of (dc_assignedTasks dc) n")
  case (Some a)
  then have "task_id (dc_store dc ! a) \<noteq> 0" using assigned_known[OF assms Some] by blast
  with Some show ?thesis by (simp add: CleanupTask_locked_def unassign_locked_def)
next
  case None
  then have "AList.delete n (dc_assignedTasks dc) = dc_assignedTasks dc"
    by (simp add: map_of_eq_None_iff AList.delete_id)
  with None show ?thesis by (simp add: CleanupTask_locked_def unassign_locked_def)
qed

lemma inv_CleanupTask: "sched_inv dc \<Longrightarrow> sched_inv (CleanupTask_locked C n dc)"
  using inv_delete[OF inv_unassign, of dc n n] by (simp add: CleanupTask_eq)

lemma remove_all_laws:
  "set (cr_Entries C (remove_all C st ts k)) =
     {e \<in> set (cr_Entries C k). fst e \<notin> (\<lambda>(n, t). task_id (st ! t)) ` set ts \<or> fst e = 0} \<and>
   issued (remove_all C st ts k) = issued k \<and> valid (remove_all C st ts k) = valid k"
proof (induction ts arbitrary: k)
  case (Cons x ts)
  obtain n t where "x = (n, t)" by (cases x)
  with Cons[of "if task_id (st ! t) \<noteq> 0 then cr_Remove C (task_id (st ! t)) k else k"]
  show ?case by (auto simp: remove_all_def remove_laws)
qed (simp add: remove_all_def)

lemma inv_ForceCleanupAllTasks:
  assumes "sched_inv dc"
  shows "sched_inv (ForceCleanupAllTasks_locked C dc) \<and>
    set (cr_Entries C (dc_cr (ForceCleanupAllTasks_locked C dc))) = {}"
proof -
  have "set (cr_Entries C (dc_cr dc)) = ran (view (dc_store dc) (map_of (dc_assignedTasks dc)))"
    using assms by (simp add: dc_inv_def linked_def)
  moreover have gone: "i \<in> (\<lambda>(n, t). task_id (dc_store dc ! t)) ` set (dc_assignedTasks dc) \<and> i \<noteq> 0"
    if "view (dc_store dc) (map_of (dc_assignedTasks dc)) n = Some (i, f, a)" for n i f a
  proof -
    have a: "map_of (dc_assignedTasks dc) n = Some a" and i: "i = task_id (dc_store dc ! a)"
      using that by (simp_all add: view_Some)
    have "i \<noteq> 0" using assigned_known[OF assms a] i by blast
    moreover have "i \<in> (\<lambda>(n, t). task_id (dc_store dc ! t)) ` set (dc_assignedTasks dc)"
      unfolding i using map_of_SomeD[OF a] by (auto intro: rev_image_eqI)
    ultimately show ?thesis by blast
  qed
  ultimately have "e \<notin> set (cr_Entries C (remove_all C (dc_store dc) (dc_assignedTasks dc) (dc_cr dc)))" for e
    using remove_all_laws by (cases e) (auto simp: ran_def dest!: gone)
  then have "set (cr_Entries C (remove_all C (dc_store dc) (dc_assignedTasks dc) (dc_cr dc))) = {}"
    by (auto simp only: set_eq_iff empty_iff)
  then show ?thesis
    by (simp add: ForceCleanupAllTasks_locked_def dc_inv_def linked_def names_ok_def view_def ran_def)
qed

lemma inv_remove_id:
  assumes "sched_inv dc" and "map_of (dc_allTasks dc) n = Some e" and "task_id (dc_store dc ! e) \<noteq> 0"
  shows "sched_inv (dc\<lparr>dc_cr := cr_Remove C (task_id (dc_store dc ! e)) (dc_cr dc),
    dc_assignedTasks := AList.delete n (dc_assignedTasks dc)\<rparr>)"
proof (cases "map_of (dc_assignedTasks dc) n")
  case (Some a)
  then have "task_id (dc_store dc ! e) = task_id (dc_store dc ! a)"
    using assigned_known[OF assms(1) Some] assms(2) by (metis option.inject)
  then show ?thesis
    using inv_unassign[OF assms(1), of n] Some assms(3) by (simp add: unassign_locked_def)
next
  case None
  then have "AList.delete n (dc_assignedTasks dc) = dc_assignedTasks dc"
    by (simp add: map_of_eq_None_iff AList.delete_id)
  moreover have "view (dc_store dc) (map_of (dc_allTasks dc)) n =
      Some (task_id (dc_store dc ! e), fmt_of (dc_store dc ! e), e)"
    using assms(2) by (simp add: view_Some)
  ultimately show ?thesis
    using assms(1) None lnk_remove_stale by (simp add: dc_inv_def)
qed

lemma inv_reset_id:
  assumes "sched_inv dc" and "map_of (dc_allTasks dc) n = Some e" and "map_of (dc_assignedTasks dc) n = None"
  shows "sched_inv (set_task_id e 0 dc)"
proof -
  have ok: "names_ok (dc_store dc) (map_of (dc_allTasks dc))" "names_ok (dc_store dc) (map_of (dc_assignedTasks dc))"
    using assms(1) by (auto simp: dc_inv_def)
  show ?thesis
    using assms(1,3) lnk_new view_set_id[OF ok(1) assms(2)] view_set_id_other[OF ok(2,1) assms(2,3)]
    by (simp add: dc_inv_def set_task_id_def names_ok_set_id)
qed

lemma inv_put_copy:
  assumes "sched_inv dc" and "map_of (dc_allTasks dc) n = Some e"
    and "task_name t = n" and "Name (task_metadata t) = n" and "task_id t = task_id (dc_store dc ! e)"
    and "task_id t \<noteq> 0 \<longrightarrow> fmt_of t = fmt_of (dc_store dc ! e)"
  shows "sched_inv (put_task n t dc)"
proof (cases "task_id t = 0")
  case True
  have "map_of (dc_assignedTasks dc) n = None"
  proof (rule ccontr)
    assume "map_of (dc_assignedTasks dc) n \<noteq> None"
    then obtain a where a: "map_of (dc_assignedTasks dc) n = Some a" by blast
    show False using assigned_known[OF assms(1) a] assms(2,5) True by (metis option.inject)
  qed
  with assms(1,3,4) True show ?thesis by (intro inv_put)
next
  case False
  have "view (dc_store dc) (map_of (dc_allTasks dc)) n = Some (task_id t, fmt_of t, e)"
    using assms False by (simp add: view_Some)
  then show ?thesis
    using assms(1,3,4) False lnk_copy
    by (simp add: dc_inv_def put_task_def new_task_def alist_simps distinct_keys_update
        names_ok_append names_ok_new view_new)
qed

lemma inv_handle_put:
  assumes "sched_inv dc" and "handleTaskEvent C event dc = Inr dc'" and "TE_Type event = TaskEventTypePut"
  shows "sched_inv dc'"
proof -
  let ?tm = "TE_Task event"
  obtain e where e: "map_of (dc_allTasks dc) (Name ?tm) = Some e"
    using assms(2,3) by (cases "map_of (dc_allTasks dc) (Name ?tm)") (simp_all add: handleTaskEvent_def)
  let ?t = "dc_store dc ! e"
  have len: "e < length (dc_store dc)" using assms(1) e names_okD(1) by (auto simp: dc_inv_def)
  show ?thesis
  proof (cases "task_id ?t \<noteq> 0 \<and> CronFormat (task_metadata ?t) \<noteq> CronFormat ?tm")
    case True
    let ?dc = "dc\<lparr>dc_cr := cr_Remove C (task_id ?t) (dc_cr dc),
      dc_assignedTasks := AList.delete (Name ?tm) (dc_assignedTasks dc)\<rparr>"
    have "sched_inv (set_task_id e 0 ?dc)"
      using inv_remove_id[OF assms(1) e] True e by (intro inv_reset_id[of _ "Name ?tm"]) (simp_all add: alist_simps)
    moreover have "dc' = put_task (Name ?tm) (dynamic_task ?tm) (set_task_id e 0 ?dc)"
      using assms(2,3) e True len by (simp add: handleTaskEvent_def set_task_id_def dynamic_task_def Let_def)
    ultimately show ?thesis
      by (auto simp: alist_simps set_task_id_def dynamic_task_def intro!: inv_put)
  next
    case False
    then have "dc' = put_task (Name ?tm) ((dynamic_task ?tm)\<lparr>task_id := task_id ?t\<rparr>) dc"
      using assms(2,3) e by (auto simp: handleTaskEvent_def Let_def)
    then show ?thesis
      using assms(1) e False by (auto simp: fmt_of_def dynamic_task_def intro!: inv_put_copy)
  qed
qed

lemma inv_handle_delete:
  assumes "sched_inv dc" and "handleTaskEvent C event dc = Inr dc'" and "TE_Type event = TaskEventTypeDelete"
  shows "sched_inv dc'"
proof (cases "map_of (dc_allTasks dc) (Name (TE_Task event))")
  case None
  then show ?thesis using assms by (simp add: handleTaskEvent_def TaskEventType_defs)
next
  case (Some t)
  let ?n = "Name (TE_Task event)"
  show ?thesis
  proof (cases "task_id (dc_store dc ! t) = 0")
    case True
    have a: "map_of (dc_assignedTasks dc) ?n = None"
    proof (rule ccontr)
      assume "map_of (dc_assignedTasks dc) ?n \<noteq> None"
      then obtain a where a: "map_of (dc_assignedTasks dc) ?n = Some a" by blast
      show False using assigned_known[OF assms(1) a] Some True by (metis option.inject)
    qed
    then have "AList.delete ?n (dc_assignedTasks dc) = dc_assignedTasks dc"
      by (simp add: map_of_eq_None_iff AList.delete_id)
    then have "dc' = dc\<lparr>dc_allTasks := AList.delete ?n (dc_allTasks dc)\<rparr>"
      using assms(2,3) Some True by (simp add: handleTaskEvent_def TaskEventType_defs Let_def)
    then show ?thesis using inv_delete[OF assms(1) a] by simp
  next
    case False
    have "sched_inv ((dc\<lparr>dc_cr := cr_Remove C (task_id (dc_store dc ! t)) (dc_cr dc),
        dc_assignedTasks := AList.delete ?n (dc_assignedTasks dc)\<rparr>)
        \<lparr>dc_allTasks := AList.delete ?n (dc_allTasks dc)\<rparr>)"
      using inv_delete[OF inv_remove_id[OF assms(1) Some False], of ?n] by (simp add: alist_simps)
    moreover have "dc' = (dc\<lparr>dc_cr := cr_Remove C (task_id (dc_store dc ! t)) (dc_cr dc),
        dc_assignedTasks := AList.delete ?n (dc_assignedTasks dc)\<rparr>)
        \<lparr>dc_allTasks := AList.delete ?n (dc_allTasks dc)\<rparr>"
      using assms(2,3) Some False
      by (cases dc) (simp add: handleTaskEvent_def TaskEventType_defs Let_def)
    ultimately show ?thesis by simp
  qed
qed

lemma inv_handleTaskEvent:
  assumes "sched_inv dc" and "handleTaskEvent C event dc = Inr dc'"
  shows "sched_inv dc'"
proof -
  consider "TE_Type event = TaskEventTypePut" | "TE_Type event = TaskEventTypeDelete"
    | "TE_Type event \<noteq> TaskEventTypePut" "TE_Type event \<noteq> TaskEventTypeDelete" by blast
  then show ?thesis
  proof cases
    case 3
    with assms show ?thesis by (simp add: handleTaskEvent_def)
  qed (use assms inv_handle_put inv_handle_delete in blast)+
qed

lemma inv_reload_each: "sched_inv dc \<Longrightarrow> sched_inv (reload_each tasks dc)"
proof (induction tasks dc rule: reload_each.induct)
  case (2 key dt tasks dc)
  have "map_of (dc_allTasks dc) (Name dt) = None \<Longrightarrow> sched_inv (put_task (Name dt) (dynamic_task dt) dc)"
    using unknown_unassigned[OF "2.prems"] by (intro inv_put "2.prems") (auto simp: dynamic_task_def)
  with 2 show ?case by simp
qed simp

end

end
