(* ===== verification/Assigner_Laws.thy ===== *)
theory Assigner_Laws
  imports Assigner
begin

text \<open>
  The contract of an assigner as a locale, the documented law of the hash ring, one
  interpretation per strategy, and what each strategy promises: which node owns a task, how
  evenly the slots and the weights divide the tasks, and where a strategy can panic.
\<close>

section \<open>The contract\<close>

text \<open>
  \<open>holds a ns k\<close>: the assigner \<open>a\<close> was last given the nodes \<open>ns\<close> and has answered \<open>k\<close>
  calls of \<open>ShouldRun\<close> since. \<open>ok ns\<close> is what the strategy needs of a node list;
  \<open>config a\<close> is what no method changes.
\<close>

locale task_assigner =
  fixes update :: "'a \<Rightarrow> Node list \<Rightarrow> 'a"
    and shouldRun :: "'a \<Rightarrow> string \<Rightarrow> string \<Rightarrow> (bool \<times> 'a) go"
    and config :: "'a \<Rightarrow> bool"
    and ok :: "Node list \<Rightarrow> bool"
    and holds :: "'a \<Rightarrow> Node list \<Rightarrow> nat \<Rightarrow> bool"
    and owner :: "Node list \<Rightarrow> nat \<Rightarrow> string \<Rightarrow> string"
  assumes config_update: "config a \<Longrightarrow> config (update a ns)"
    and holds_update: "config a \<Longrightarrow> ok ns \<Longrightarrow> holds (update a ns) ns 0"
    and shouldRun_owner: "holds a ns k \<Longrightarrow> ok ns \<Longrightarrow>
          \<exists>a'. shouldRun a t nid = Inr (owner ns k t = nid, a') \<and> holds a' ns (Suc k)"
    and config_shouldRun: "config a \<Longrightarrow> shouldRun a t nid = Inr (b, a') \<Longrightarrow> config a'"
    and owner_in: "ok ns \<Longrightarrow> owner ns k t \<in> ID ` set ns"
begin

lemma shouldRun_total: "holds a ns k \<Longrightarrow> ok ns \<Longrightarrow> \<exists>b a'. shouldRun a t nid = Inr (b, a')"
  using shouldRun_owner by blast

lemma shouldRun_same_nodes:
  assumes "holds a ns k" and "holds a2 ns k" and "ok ns"
    and "shouldRun a t nid = Inr (b, a')" and "shouldRun a2 t nid = Inr (b2, a2')"
  shows "b = b2"
  using assms shouldRun_owner[of a ns k t nid] shouldRun_owner[of a2 ns k t nid] by auto

text \<open>Every task has exactly one node among the listed ones that runs it.\<close>

lemma exactly_one:
  assumes "holds a ns k" and "ok ns" and "distinct (map ID ns)"
  shows "\<exists>!n. n \<in> set ns \<and> (\<exists>a'. shouldRun a t (ID n) = Inr (True, a'))"
proof -
  have yes: "(\<exists>a'. shouldRun a t (ID n) = Inr (True, a')) \<longleftrightarrow> owner ns k t = ID n" for n
    using shouldRun_owner[OF assms(1,2), of t "ID n"] by auto
  obtain n where n: "n \<in> set ns" "owner ns k t = ID n"
    using owner_in[OF assms(2)] by blast
  moreover have "m = n" if "m \<in> set ns" "owner ns k t = ID m" for m
    using that n assms(3) by (auto simp: distinct_map inj_on_def)
  ultimately show ?thesis
    unfolding yes by blast
qed

lemma exactly_one_update:
  assumes "config a" and "ok ns" and "distinct (map ID ns)"
  shows "\<exists>!n. n \<in> set ns \<and> (\<exists>a'. shouldRun (update a ns) t (ID n) = Inr (True, a'))"
  using exactly_one[OF holds_update] assms by blast

end

section \<open>Hash sharding\<close>

text \<open>The modulus by \<open>uint32(len)\<close> is the modulus of numbers when the length fits.\<close>

lemma uint32_mod_index:
  assumes "0 < n" and "n < 2 ^ 32"
  shows "go_uint32 (int n) \<noteq> 0" and "unat (h mod go_uint32 (int n)) = unat h mod n"
    and "unat (h mod go_uint32 (int n)) < n"
proof -
  have u: "unat (go_uint32 (int n)) = n"
    using assms(2) by (simp add: go_uint32_def unsigned_of_nat take_bit_nat_eq_self)
  show "go_uint32 (int n) \<noteq> 0"
    using u assms(1) by auto
  show "unat (h mod go_uint32 (int n)) = unat h mod n"
    by (simp add: unat_mod u)
  then show "unat (h mod go_uint32 (int n)) < n"
    using assms(1) by simp
qed

definition shard_ok :: "Node list \<Rightarrow> bool" where
  "shard_ok ns \<longleftrightarrow> ns \<noteq> [] \<and> length ns < 2 ^ 32"

definition shard_owner :: "Node list \<Rightarrow> nat \<Rightarrow> string \<Rightarrow> string" where
  "shard_owner ns k t = ID (ns ! (unat (ChecksumIEEE t) mod length ns))"

definition shard_holds :: "hashShardingAssigner \<Rightarrow> Node list \<Rightarrow> nat \<Rightarrow> bool" where
  "shard_holds a ns k \<longleftrightarrow> hs_nodes a = ns"

interpretation shard: task_assigner hashSharding_UpdateNodes hashSharding_ShouldRun
  "\<lambda>_. True" shard_ok shard_holds shard_owner
proof unfold_locales
  fix a ns k t nid
  assume "shard_holds a ns k" and ok: "shard_ok ns"
  then show "\<exists>a'. hashSharding_ShouldRun a t nid = Inr (shard_owner ns k t = nid, a')
        \<and> shard_holds a' ns (Suc k)"
    by (auto simp: strategy_defs shard_ok_def shard_owner_def shard_holds_def uint32_mod_index
        Let_def)
qed (auto simp: strategy_defs shard_ok_def shard_owner_def shard_holds_def)

section \<open>Consistent hashing\<close>

text \<open>The ring's documentation: \<open>Get\<close> returns one of the added keys.\<close>

locale consistent_ring =
  fixes R :: "'r ring_ops"
  assumes get_added: "ks \<noteq> [] \<Longrightarrow> 0 < n \<Longrightarrow>
    ring_Get R (ring_Add R (ring_New R n f) ks) t \<in> set ks"

definition ring_owner :: "'r ring_ops \<Rightarrow> Node list \<Rightarrow> nat \<Rightarrow> string \<Rightarrow> string" where
  "ring_owner R ns k t =
     ring_Get R (ring_Add R (ring_New R virtualNodes ChecksumIEEE) (map ID ns)) t"

definition ring_holds :: "'r ring_ops \<Rightarrow> 'r consistentHashAssigner \<Rightarrow> Node list \<Rightarrow> nat \<Rightarrow> bool"
  where "ring_holds R c ns k \<longleftrightarrow> ch_hashRing c =
     Some (ring_Add R (ring_New R virtualNodes ChecksumIEEE) (map ID ns))"

context consistent_ring
begin

lemma ring_owner_in: "ns \<noteq> [] \<Longrightarrow> ring_owner R ns k t \<in> ID ` set ns"
  using get_added[of "map ID ns" virtualNodes ChecksumIEEE t]
  by (auto simp: ring_owner_def virtualNodes_def)

end

sublocale consistent_ring \<subseteq> ring: task_assigner "consistent_UpdateNodes R"
  "consistent_ShouldRun R" "\<lambda>_. True" "\<lambda>ns. ns \<noteq> []" "ring_holds R" "ring_owner R"
  by unfold_locales
    (auto simp: strategy_defs ring_holds_def ring_owner_def Let_def
      dest: ring_owner_in[unfolded ring_owner_def])

text \<open>
  A ring in the usual textbook form: every key is hashed to \<open>n\<close> points, \<open>Get\<close> takes the
  first point at or after the hash of the task, or wraps around to the first of all. It
  shows that the law can hold and makes examples computable.
\<close>

record point_ring =
  pr_replicas :: nat
  pr_hash :: "string \<Rightarrow> 32 word"
  pr_points :: "(32 word \<times> string) list"

definition points_of :: "point_ring \<Rightarrow> string \<Rightarrow> (32 word \<times> string) list" where
  "points_of r key =
     map (\<lambda>i. (pr_hash r (replicate i (CHR ''#'') @ key), key)) [0..<pr_replicas r]"

definition point_ring_ops :: "point_ring ring_ops" where
  "point_ring_ops =
     \<lparr>ring_New = (\<lambda>n f. \<lparr>pr_replicas = n, pr_hash = f, pr_points = []\<rparr>),
      ring_Add = (\<lambda>r keys. r\<lparr>pr_points :=
        sort_key fst (pr_points r @ concat (map (points_of r) keys))\<rparr>),
      ring_Get = (\<lambda>r t. case find (\<lambda>p. pr_hash r t \<le> fst p) (pr_points r) of
          Some p \<Rightarrow> snd p
        | None \<Rightarrow> (case pr_points r of [] \<Rightarrow> [] | p # _ \<Rightarrow> snd p))\<rparr>"

lemma point_ring_get:
  assumes "set (map snd ps) \<subseteq> K" and "ps \<noteq> []"
  shows "(case find P ps of Some p \<Rightarrow> snd p
          | None \<Rightarrow> (case ps of [] \<Rightarrow> [] | p # _ \<Rightarrow> snd p)) \<in> K"
proof (cases "find P ps")
  case None
  with assms show ?thesis by (cases ps) auto
next
  case (Some p)
  then have "p \<in> set ps" by (auto simp: find_Some_iff)
  with assms(1) Some show ?thesis by auto
qed

interpretation point_ring: consistent_ring point_ring_ops
proof unfold_locales
  fix ks :: "string list" and n :: nat and f t
  assume ne: "ks \<noteq> []" and n: "0 < n"
  let ?r = "\<lparr>pr_replicas = n, pr_hash = f, pr_points = []\<rparr>"
  let ?ps = "sort_key fst (concat (map (points_of ?r) ks))"
  have "set (map snd ?ps) \<subseteq> set ks"
    by (auto simp: points_of_def)
  moreover have "set ?ps \<noteq> {}"
    using ne n by (cases ks) (auto simp: points_of_def)
  then have "?ps \<noteq> []" by (metis list.set(1))
  ultimately show "ring_Get point_ring_ops (ring_Add point_ring_ops
      (ring_New point_ring_ops n f) ks) t \<in> set ks"
    using point_ring_get[of ?ps "set ks" "\<lambda>p. f t \<le> fst p"]
    by (simp add: point_ring_ops_def cong: option.case_cong)
qed

section \<open>Hash slots\<close>

text \<open>
  The slots in closed form: the nodes in order, each with its share of consecutive slots.
\<close>

definition slot_share :: "nat \<Rightarrow> nat \<Rightarrow> nat \<Rightarrow> nat" where
  "slot_share q r i = (if i < r then q + 1 else q)"

definition slot_runs :: "nat \<Rightarrow> nat \<Rightarrow> nat \<Rightarrow> Node list \<Rightarrow> string list" where
  "slot_runs q r i ns =
     concat (map (\<lambda>(k, nd). replicate (slot_share q r k) (ID nd)) (enumerate i ns))"

definition slot_table :: "nat \<Rightarrow> Node list \<Rightarrow> string list" where
  "slot_table c ns = slot_runs (c div length ns) (c mod length ns) 0 ns"

lemma slot_runs_simps [simp]:
  "slot_runs q r i [] = []"
  "slot_runs q r i (nd # ns) = replicate (slot_share q r i) (ID nd) @ slot_runs q r (Suc i) ns"
  by (simp_all add: slot_runs_def)

lemma length_slot_runs: "length (slot_runs q r i ns) = length ns * q + min (length ns) (r - i)"
  by (induction ns arbitrary: i) (auto simp: slot_share_def)

lemma assign_slots_eq:
  "ix + j \<le> c \<Longrightarrow> length slots = c \<Longrightarrow>
   assign_slots c j nid (slots, ix)
     = (take ix slots @ replicate j nid @ drop (ix + j) slots, ix + j)"
proof (induction j arbitrary: slots ix)
  case 0
  then show ?case by simp
next
  case (Suc j)
  then have "assign_slots c (Suc j) nid (slots, ix)
      = (take (Suc ix) (slots[ix := nid]) @ replicate j nid
           @ drop (Suc ix + j) (slots[ix := nid]), Suc ix + j)"
    by simp
  also have "take (Suc ix) (slots[ix := nid]) = take ix slots @ [nid]"
    using Suc.prems by (simp add: take_Suc_conv_app_nth)
  finally show ?case
    by simp
qed

lemma overwrite_run:
  assumes "ix + m + s \<le> length xs"
  shows "length (take ix xs @ replicate m v @ drop (ix + m) xs) = length xs"
    and "take (ix + m) (take ix xs @ replicate m v @ drop (ix + m) xs) = take ix xs @ replicate m v"
    and "drop (ix + m + s) (take ix xs @ replicate m v @ drop (ix + m) xs) = drop (ix + m + s) xs"
  using assms by (auto simp: min_def ac_simps)

lemma assign_nodes_eq:
  assumes "length slots = c" and "ix + length (slot_runs q r i ns) \<le> c"
  shows "assign_nodes c q r i ns (slots, ix) =
     (take ix slots @ slot_runs q r i ns @ drop (ix + length (slot_runs q r i ns)) slots,
      ix + length (slot_runs q r i ns))"
  using assms
proof (induction ns arbitrary: i ix slots)
  case Nil
  then show ?case by simp
next
  case (Cons nd ns)
  define m where "m = slot_share q r i"
  define s where "s = length (slot_runs q r (Suc i) ns)"
  define slots' where "slots' = take ix slots @ replicate m (ID nd) @ drop (ix + m) slots"
  have le: "ix + m + s \<le> c"
    using Cons.prems(2) by (simp add: m_def s_def)
  note run = overwrite_run[of ix m s slots "ID nd", unfolded Cons.prems(1), OF le,
      folded slots'_def]
  have "assign_nodes c q r i (nd # ns) (slots, ix)
      = assign_nodes c q r (Suc i) ns (assign_slots c m (ID nd) (slots, ix))"
    by (simp add: Let_def m_def slot_share_def)
  also have "assign_slots c m (ID nd) (slots, ix) = (slots', ix + m)"
    unfolding slots'_def using le Cons.prems(1) by (intro assign_slots_eq) auto
  also have "assign_nodes c q r (Suc i) ns (slots', ix + m) =
      (take (ix + m) slots' @ slot_runs q r (Suc i) ns @ drop (ix + m + s) slots', ix + m + s)"
    unfolding s_def using le run(1) by (intro Cons.IH) (auto simp: s_def)
  finally show ?case
    using run by (simp add: m_def s_def add.assoc)
qed

lemma length_slot_table: "ns \<noteq> [] \<Longrightarrow> length (slot_table c ns) = c"
  by (simp add: slot_table_def length_slot_runs min_absorb2 less_imp_le mult.commute)

text \<open>The loops compute the closed form.\<close>

lemma hashSlot_UpdateNodes_table:
  "ns \<noteq> [] \<Longrightarrow> sl_slots (hashSlot_UpdateNodes h ns) = slot_table (sl_slotCount h) ns"
  using length_slot_table[of ns "sl_slotCount h"]
  by (simp add: hashSlot_UpdateNodes_def assign_nodes_eq slot_table_def)

lemma set_slot_runs: "set (slot_runs q r i ns) \<subseteq> ID ` set ns"
  by (induction ns arbitrary: i) (auto simp: in_set_replicate)

text \<open>How many slots a node gets: the shares differ by at most one.\<close>

lemma count_slot_runs_notin: "nid \<notin> ID ` set ns \<Longrightarrow> count_list (slot_runs q r i ns) nid = 0"
  using set_slot_runs[of q r i ns] by (auto simp: count_list_0_iff)

lemma count_list_replicate: "count_list (replicate m x) y = (if x = y then m else 0)"
  by (induction m) auto

lemma count_slot_runs:
  "distinct (map ID ns) \<Longrightarrow> k < length ns \<Longrightarrow>
   count_list (slot_runs q r i ns) (ID (ns ! k)) = slot_share q r (i + k)"
proof (induction ns arbitrary: i k)
  case Nil
  then show ?case by simp
next
  case (Cons nd ns)
  show ?case
  proof (cases k)
    case 0
    with Cons.prems show ?thesis
      by (simp add: count_list_append count_list_replicate count_slot_runs_notin)
  next
    case (Suc k')
    with Cons.prems have "ID nd \<noteq> ID (ns ! k')"
      by (metis distinct.simps(2) length_Cons list.simps(9) not_less_eq nth_map nth_mem length_map)
    with Cons Suc show ?thesis
      by (simp add: count_list_append count_list_replicate)
  qed
qed

definition slot_ok :: "nat \<Rightarrow> Node list \<Rightarrow> bool" where
  "slot_ok c ns \<longleftrightarrow> 0 < c \<and> c < 2 ^ 32 \<and> ns \<noteq> []"

definition slot_owner :: "nat \<Rightarrow> Node list \<Rightarrow> nat \<Rightarrow> string \<Rightarrow> string" where
  "slot_owner c ns k t = slot_table c ns ! (unat (ChecksumIEEE t) mod c)"

definition slot_holds :: "nat \<Rightarrow> hashSlotAssigner \<Rightarrow> Node list \<Rightarrow> nat \<Rightarrow> bool" where
  "slot_holds c h ns k \<longleftrightarrow> sl_slotCount h = c \<and> sl_slots h = slot_table c ns"

interpretation slot: task_assigner hashSlot_UpdateNodes hashSlot_ShouldRun
  "\<lambda>h. sl_slotCount h = c" "slot_ok c" "slot_holds c" "slot_owner c" for c
proof unfold_locales
  fix h ns k t nid
  assume h: "slot_holds c h ns k" and ok: "slot_ok c ns"
  then have "length (sl_slots h) = c"
    by (simp add: slot_holds_def slot_ok_def length_slot_table)
  with h ok show "\<exists>a'. hashSlot_ShouldRun h t nid = Inr (slot_owner c ns k t = nid, a')
        \<and> slot_holds c a' ns (Suc k)"
    by (simp add: hashSlot_ShouldRun_def slot_holds_def slot_ok_def slot_owner_def
        uint32_mod_index Let_def)
next
  fix ns k t
  assume "slot_ok c ns"
  then have "slot_owner c ns k t \<in> set (slot_table c ns)"
    by (simp add: slot_owner_def slot_ok_def length_slot_table)
  then show "slot_owner c ns k t \<in> ID ` set ns"
    using set_slot_runs unfolding slot_table_def by blast
qed (auto simp: slot_holds_def hashSlot_UpdateNodes_table slot_ok_def, auto simp: strategy_defs
    Let_def split: if_splits)

section \<open>Ranges\<close>

text \<open>
  The owner in closed form: the first node, in list order, whose ID is at or above the task
  name, and the last node for what is left.
\<close>

fun range_first :: "Node list \<Rightarrow> string \<Rightarrow> string" where
  "range_first [] t = []"
| "range_first [n] t = ID n"
| "range_first (n # m # ns) t = (if t \<le> ID n then ID n else range_first (m # ns) t)"

definition range_ok :: "Node list \<Rightarrow> bool" where
  "range_ok ns \<longleftrightarrow> ns \<noteq> [] \<and> (\<forall>n \<in> set ns. ID n \<noteq> [])"

lemma range_first_in: "ns \<noteq> [] \<Longrightarrow> range_first ns t \<in> ID ` set ns"
  by (induction ns t rule: range_first.induct) auto

lemma range_scan_from:
  assumes "\<forall>n \<in> set ns. ID n \<noteq> []" and "i < length ns" and "i > 0 \<longrightarrow> ID (ns ! (i - 1)) < t"
  shows "range_scan (map (range_entry ns) [i..<length ns]) t nid \<longleftrightarrow>
    range_first (drop i ns) t = nid"
  using assms(2,3)
proof (induction "length ns - i" arbitrary: i)
  case 0
  then show ?case by simp
next
  case (Suc l)
  have up: "[i..<length ns] = i # [Suc i..<length ns]"
    using Suc.prems(1) by (simp add: upt_conv_Cons)
  have dr: "drop i ns = ns ! i # drop (Suc i) ns"
    using Suc.prems(1) by (simp add: Cons_nth_drop_Suc)
  have ne: "ID (ns ! i) \<noteq> []"
    using assms(1) Suc.prems(1) by simp
  show ?case
  proof (cases "Suc i < length ns")
    case False
    with Suc.prems ne show ?thesis
      unfolding up dr by (simp add: range_entry_def)
  next
    case last: True
    have dr2: "drop (Suc i) ns = ns ! Suc i # drop (Suc (Suc i)) ns"
      using last by (simp add: Cons_nth_drop_Suc)
    show ?thesis
    proof (cases "t \<le> ID (ns ! i)")
      case True
      with Suc.prems ne last show ?thesis
        unfolding up dr dr2 by (simp add: range_entry_def)
    next
      case False
      have "range_scan (map (range_entry ns) [Suc i..<length ns]) t nid
          \<longleftrightarrow> range_first (drop (Suc i) ns) t = nid"
        using Suc.hyps last False by (intro Suc.hyps(1)) auto
      with False ne last show ?thesis
        unfolding up dr dr2 by (simp add: range_entry_def)
    qed
  qed
qed

definition range_holds :: "rangeAssigner \<Rightarrow> Node list \<Rightarrow> nat \<Rightarrow> bool" where
  "range_holds r ns k \<longleftrightarrow> rg_ranges r = map (range_entry ns) [0..<length ns]"

interpretation rng: task_assigner range_UpdateNodes range_ShouldRun
  "\<lambda>_. True" range_ok range_holds "\<lambda>ns k. range_first ns"
proof unfold_locales
  fix r ns k t nid
  assume "range_holds r ns k" and "range_ok ns"
  then show "\<exists>a'. range_ShouldRun r t nid = Inr (range_first ns t = nid, a')
      \<and> range_holds a' ns (Suc k)"
    using range_scan_from[of ns 0 t nid]
    by (simp add: range_holds_def range_ok_def range_ShouldRun_def)
qed (auto simp: range_holds_def range_UpdateNodes_def range_ok_def intro: range_first_in)

text \<open>
  On a list sorted by ID, as \<open>reloadNodes\<close> keeps it, a node that joins takes over tasks
  but never moves a task between two other nodes.
\<close>

lemma range_first_insort:
  assumes "sorted (map ID ns)" and "ns \<noteq> []" and "ID x \<notin> ID ` set ns"
  shows "range_first (insort_key ID x ns) t \<in> {range_first ns t, ID x}"
  using assms
proof (induction ns t rule: range_first.induct)
  case (3 n m ns t)
  show ?case
  proof (cases "ID x \<le> ID n")
    case True
    then show ?thesis by simp
  next
    case False
    have "range_first (insort_key ID x (m # ns)) t \<in> {range_first (m # ns) t, ID x}"
      if "\<not> t \<le> ID n"
      using that "3.prems" by (intro "3.IH") auto
    moreover obtain y ys where "insort_key ID x (m # ns) = y # ys"
      by (metis insort_not_Nil neq_Nil_conv)
    ultimately show ?thesis
      using False by (auto simp del: insort_key.simps(2) simp: insort_key.simps(2)[of _ _ n])
  qed
qed auto

section \<open>Weights\<close>

text \<open>The owner in closed form: the node in whose interval of the running sum \<open>h\<close> falls.\<close>

fun weighted_pick :: "Node list \<Rightarrow> int \<Rightarrow> string" where
  "weighted_pick [] h = []"
| "weighted_pick (n # ns) h = (if h < Weight n then ID n else weighted_pick ns (h - Weight n))"

definition weighted_ok :: "Node list \<Rightarrow> bool" where
  "weighted_ok ns \<longleftrightarrow> (\<forall>n \<in> set ns. 0 \<le> Weight n) \<and> 0 < sum_list (map Weight ns) \<and>
     sum_list (map Weight ns) < 2 ^ 32"

definition weighted_owner :: "Node list \<Rightarrow> nat \<Rightarrow> string \<Rightarrow> string" where
  "weighted_owner ns k t =
     weighted_pick ns (uint (ChecksumIEEE t) mod sum_list (map Weight ns))"

lemma sum_weights_nonneg: "\<forall>n \<in> set ns. 0 \<le> Weight n \<Longrightarrow> 0 \<le> sum_list (map Weight ns)"
  by (induction ns) auto

lemma weighted_total_eq:
  "\<forall>n \<in> set ns. 0 \<le> Weight n \<Longrightarrow> 0 \<le> acc \<Longrightarrow> acc + sum_list (map Weight ns) < 2 ^ 63 \<Longrightarrow>
   foldl (\<lambda>total node. go_int (total + Weight node)) acc ns = acc + sum_list (map Weight ns)"
proof (induction ns arbitrary: acc)
  case Nil
  then show ?case by simp
next
  case (Cons n ns)
  then have "go_int (acc + Weight n) = acc + Weight n"
    using sum_weights_nonneg[of ns] by (intro go_int_id) (auto simp: int_range_def)
  with Cons show ?case by (simp add: add.assoc)
qed

lemma weighted_scan_eq:
  "\<forall>n \<in> set ns. 0 \<le> Weight n \<Longrightarrow> 0 \<le> h \<Longrightarrow> h < sum_list (map Weight ns) \<Longrightarrow>
   sum_list (map Weight ns) < 2 ^ 63 \<Longrightarrow>
   weighted_scan ns h nid \<longleftrightarrow> weighted_pick ns h = nid"
proof (induction ns arbitrary: h)
  case Nil
  then show ?case by simp
next
  case (Cons n ns)
  then have "go_int (h - Weight n) = h - Weight n"
    using sum_weights_nonneg[of ns] by (intro go_int_id) (auto simp: int_range_def)
  with Cons show ?case by (auto simp: Let_def)
qed

lemma weighted_pick_in:
  "\<forall>n \<in> set ns. 0 \<le> Weight n \<Longrightarrow> 0 \<le> h \<Longrightarrow> h < sum_list (map Weight ns) \<Longrightarrow>
   weighted_pick ns h \<in> ID ` set ns"
  by (induction ns arbitrary: h) auto

lemma uint32_mod_total:
  assumes "0 < s" and "s < 2 ^ 32"
  shows "go_uint32 s \<noteq> 0" and "uint (h mod go_uint32 s) = uint h mod s"
proof -
  have u: "uint (go_uint32 s) = s"
    using assms by (simp add: go_uint32_def unsigned_of_int take_bit_int_eq_self)
  then show "go_uint32 s \<noteq> 0" using assms(1) by auto
  show "uint (h mod go_uint32 s) = uint h mod s" by (simp add: uint_mod u)
qed

definition weighted_holds :: "weightedAssigner \<Rightarrow> Node list \<Rightarrow> nat \<Rightarrow> bool" where
  "weighted_holds w ns k \<longleftrightarrow>
     wt_nodes w = ns \<and> wt_totalWeight w = foldl (\<lambda>total node. go_int (total + Weight node)) 0 ns"

interpretation weighted: task_assigner weighted_UpdateNodes weighted_ShouldRun
  "\<lambda>_. True" weighted_ok weighted_holds weighted_owner
proof unfold_locales
  fix w ns k t nid
  assume "weighted_holds w ns k" and ok: "weighted_ok ns"
  moreover have "ns \<noteq> []" using ok by (auto simp: weighted_ok_def)
  ultimately show "\<exists>a'. weighted_ShouldRun w t nid = Inr (weighted_owner ns k t = nid, a')
      \<and> weighted_holds a' ns (Suc k)"
    using weighted_total_eq[of ns 0]
    by (simp add: weighted_holds_def weighted_ok_def weighted_ShouldRun_def weighted_owner_def
        uint32_mod_total weighted_scan_eq Let_def)
next
  fix ns k t
  assume "weighted_ok ns"
  then show "weighted_owner ns k t \<in> ID ` set ns"
    by (auto simp: weighted_owner_def weighted_ok_def intro: weighted_pick_in)
qed (auto simp: weighted_holds_def weighted_UpdateNodes_def)

text \<open>Of the residues of the hash, each node owns as many as its weight.\<close>

definition residues :: "Node list \<Rightarrow> string \<Rightarrow> int set" where
  "residues ns nid = {h. 0 \<le> h \<and> h < sum_list (map Weight ns) \<and> weighted_pick ns h = nid}"

lemma residues_notin: "\<forall>n \<in> set ns. 0 \<le> Weight n \<Longrightarrow> nid \<notin> ID ` set ns \<Longrightarrow> residues ns nid = {}"
  unfolding residues_def using weighted_pick_in by blast

lemma residues_Cons:
  assumes "\<forall>n \<in> set (m # ns). 0 \<le> Weight n"
  shows "residues (m # ns) nid =
    (if ID m = nid then {0..<Weight m} else {}) \<union> (\<lambda>h. h + Weight m) ` residues ns nid"
proof (rule set_eqI)
  fix h
  have pos: "0 \<le> sum_list (map Weight ns)"
    using assms by (intro sum_weights_nonneg) auto
  have shift: "h \<in> (\<lambda>h. h + Weight m) ` residues ns nid \<longleftrightarrow> h - Weight m \<in> residues ns nid"
    by (metis (no_types, lifting) add_diff_cancel_right' diff_add_cancel image_iff)
  show "h \<in> residues (m # ns) nid \<longleftrightarrow>
    h \<in> (if ID m = nid then {0..<Weight m} else {}) \<union> (\<lambda>h. h + Weight m) ` residues ns nid"
    unfolding Un_iff shift using assms pos by (auto simp: residues_def)
qed

lemma card_residues:
  assumes "\<forall>n \<in> set ns. 0 \<le> Weight n" and "distinct (map ID ns)" and "n \<in> set ns"
  shows "card (residues ns (ID n)) = nat (Weight n)"
  using assms
proof (induction ns)
  case Nil
  then show ?case by simp
next
  case (Cons m ns)
  have notin: "ID m \<notin> ID ` set ns"
    using Cons.prems(2) by simp
  show ?case
  proof (cases "n \<in> set ns")
    case True
    then have "ID m \<noteq> ID n" using notin by auto
    with True Cons show ?thesis
      by (simp add: residues_Cons card_image)
  next
    case False
    then have "n = m" using Cons.prems(3) by simp
    with notin Cons.prems(1) show ?thesis
      by (simp add: residues_Cons residues_notin)
  qed
qed

section \<open>Round robin\<close>

definition robin_owner :: "Node list \<Rightarrow> nat \<Rightarrow> string \<Rightarrow> string" where
  "robin_owner ns k t = ID (ns ! (k mod length ns))"

definition robin_holds :: "roundRobinAssigner \<Rightarrow> Node list \<Rightarrow> nat \<Rightarrow> bool" where
  "robin_holds r ns k \<longleftrightarrow> rr_nodes r = ns \<and> rr_index r = k"

interpretation robin: task_assigner roundRobin_UpdateNodes roundRobin_ShouldRun
  "\<lambda>_. True" "\<lambda>ns. ns \<noteq> []" robin_holds robin_owner
  by unfold_locales (auto simp: strategy_defs robin_owner_def robin_holds_def Let_def)

text \<open>A run of calls: the verdicts of \<open>ShouldRun\<close> for a list of tasks, one after the other.\<close>

fun ask_all :: "('a \<Rightarrow> string \<Rightarrow> string \<Rightarrow> (bool \<times> 'a) go) \<Rightarrow> 'a \<Rightarrow> string list \<Rightarrow> string
    \<Rightarrow> (bool list \<times> 'a) go" where
  "ask_all f a [] nid = Inr ([], a)"
| "ask_all f a (t # ts) nid = go_bind (f a t nid) (\<lambda>(b, a').
     map_sum id (map_prod (Cons b) id) (ask_all f a' ts nid))"

context task_assigner
begin

lemma ask_all_owner:
  "holds a ns k \<Longrightarrow> ok ns \<Longrightarrow> \<exists>a'. ask_all shouldRun a ts nid =
     Inr (map (\<lambda>(i, t). owner ns i t = nid) (enumerate k ts), a') \<and> holds a' ns (k + length ts)"
proof (induction ts arbitrary: a k)
  case Nil
  then show ?case by simp
next
  case (Cons t ts)
  obtain a1 where a1: "shouldRun a t nid = Inr (owner ns k t = nid, a1)" "holds a1 ns (Suc k)"
    using shouldRun_owner[OF Cons.prems] by blast
  from Cons.IH[OF a1(2) Cons.prems(2)] show ?case
    using a1(1) by (auto simp: id_def)
qed

end

section \<open>The built-in assigners behind the interface\<close>

primrec assigner_ok :: "'r assigner \<Rightarrow> Node list \<Rightarrow> bool" where
  "assigner_ok (HashSharding a) ns = shard_ok ns"
| "assigner_ok (ConsistentHash a) ns = (ns \<noteq> [])"
| "assigner_ok (HashSlot a) ns = slot_ok (sl_slotCount a) ns"
| "assigner_ok (RangeSharding a) ns = range_ok ns"
| "assigner_ok (Weighted a) ns = weighted_ok ns"
| "assigner_ok (RoundRobin a) ns = (ns \<noteq> [])"

primrec assigner_owner ::
  "'r ring_ops \<Rightarrow> 'r assigner \<Rightarrow> Node list \<Rightarrow> nat \<Rightarrow> string \<Rightarrow> string" where
  "assigner_owner R (HashSharding a) ns k t = shard_owner ns k t"
| "assigner_owner R (ConsistentHash a) ns k t = ring_owner R ns k t"
| "assigner_owner R (HashSlot a) ns k t = slot_owner (sl_slotCount a) ns k t"
| "assigner_owner R (RangeSharding a) ns k t = range_first ns t"
| "assigner_owner R (Weighted a) ns k t = weighted_owner ns k t"
| "assigner_owner R (RoundRobin a) ns k t = robin_owner ns k t"

text \<open>Two assigners of one configuration: the same strategy, the same number of slots.\<close>

fun assigner_like :: "'r assigner \<Rightarrow> 'r assigner \<Rightarrow> bool" where
  "assigner_like (HashSharding a) (HashSharding b) = True"
| "assigner_like (ConsistentHash a) (ConsistentHash b) = True"
| "assigner_like (HashSlot a) (HashSlot b) = (sl_slotCount b = sl_slotCount a)"
| "assigner_like (RangeSharding a) (RangeSharding b) = True"
| "assigner_like (Weighted a) (Weighted b) = True"
| "assigner_like (RoundRobin a) (RoundRobin b) = True"
| "assigner_like _ _ = False"

primrec assigner_holds :: "'r ring_ops \<Rightarrow> 'r assigner \<Rightarrow> Node list \<Rightarrow> nat \<Rightarrow> bool" where
  "assigner_holds R (HashSharding a) ns k = shard_holds a ns k"
| "assigner_holds R (ConsistentHash a) ns k = ring_holds R a ns k"
| "assigner_holds R (HashSlot a) ns k = slot_holds (sl_slotCount a) a ns k"
| "assigner_holds R (RangeSharding a) ns k = range_holds a ns k"
| "assigner_holds R (Weighted a) ns k = weighted_holds a ns k"
| "assigner_holds R (RoundRobin a) ns k = robin_holds a ns k"

lemma assigner_like_refl: "assigner_like a a"
  by (cases a) auto

lemma assigner_like_cases [consumes 1, case_names shard ring slot rng weighted robin]:
  assumes "assigner_like a0 a"
  obtains c d where "a0 = HashSharding c" "a = HashSharding d"
    | c d where "a0 = ConsistentHash c" "a = ConsistentHash d"
    | c d where "a0 = HashSlot c" "a = HashSlot d" "sl_slotCount d = sl_slotCount c"
    | c d where "a0 = RangeSharding c" "a = RangeSharding d"
    | c d where "a0 = Weighted c" "a = Weighted d"
    | c d where "a0 = RoundRobin c" "a = RoundRobin d"
  using assms by (elim assigner_like.elims(2)) auto

lemma wrapped_Inr [simp]:
  "map_sum id (map_prod id C) m = Inr (b, x) \<longleftrightarrow> (\<exists>y. m = Inr (b, y) \<and> x = C y)"
  by (cases m) auto

locale builtin_assigner = consistent_ring R for R :: "'r ring_ops" +
  fixes a0 :: "'r assigner"
begin

lemma builtin_update:
  assumes "assigner_like a0 a"
  shows "assigner_like a0 (assigner_UpdateNodes R a ns)"
    and "assigner_ok a0 ns \<Longrightarrow> assigner_holds R (assigner_UpdateNodes R a ns) ns 0"
  using assms shard.holds_update ring.holds_update slot.holds_update rng.holds_update
    weighted.holds_update robin.holds_update slot.config_update
  by (cases a0; cases a; simp)+

lemma builtin_shouldRun_config:
  assumes "assigner_like a0 a" and "assigner_ShouldRun R a t nid = Inr (b, a')"
  shows "assigner_like a0 a'"
  using assms(1)
proof (cases rule: assigner_like_cases)
  case (slot c d)
  with assms(2) show ?thesis
    by (auto dest: slot.config_shouldRun[where c = "sl_slotCount c"])
qed (use assms(2) in auto)

lemma builtin_shouldRun:
  assumes "assigner_like a0 a" and "assigner_holds R a ns k" and "assigner_ok a0 ns"
  shows "\<exists>a'. assigner_ShouldRun R a t nid = Inr (assigner_owner R a0 ns k t = nid, a')
    \<and> assigner_holds R a' ns (Suc k)"
  using assms(1)
proof (cases rule: assigner_like_cases)
  case (shard c d)
  with assms(2,3) show ?thesis
    using shard.shouldRun_owner[of d ns k t nid] by auto
next
  case (ring c d)
  with assms(2,3) show ?thesis
    using ring.shouldRun_owner[of d ns k t nid] by auto
next
  case (slot c d)
  then obtain d' where "hashSlot_ShouldRun d t nid =
      Inr (slot_owner (sl_slotCount c) ns k t = nid, d')" and "slot_holds (sl_slotCount c) d' ns (Suc k)"
    using assms(2,3) slot.shouldRun_owner[of "sl_slotCount c" d ns k t nid] by auto
  with slot show ?thesis
    by (auto simp: slot_holds_def intro!: exI[of _ "HashSlot d'"])
next
  case (rng c d)
  with assms(2,3) show ?thesis
    using rng.shouldRun_owner[of d ns k t nid] by auto
next
  case (weighted c d)
  with assms(2,3) show ?thesis
    using weighted.shouldRun_owner[of d ns k t nid] by auto
next
  case (robin c d)
  with assms(2,3) show ?thesis
    using robin.shouldRun_owner[of d ns k t nid] by auto
qed

lemma builtin_owner_in: "assigner_ok a0 ns \<Longrightarrow> assigner_owner R a0 ns k t \<in> ID ` set ns"
  using shard.owner_in ring.owner_in slot.owner_in rng.owner_in weighted.owner_in robin.owner_in
  by (cases a0) auto

end

sublocale builtin_assigner \<subseteq> builtin: task_assigner "assigner_UpdateNodes R"
  "assigner_ShouldRun R" "assigner_like a0" "assigner_ok a0"
  "\<lambda>a ns k. assigner_like a0 a \<and> assigner_holds R a ns k" "assigner_owner R a0"
proof unfold_locales
  fix a ns k t nid
  assume h: "assigner_like a0 a \<and> assigner_holds R a ns k" and ok: "assigner_ok a0 ns"
  with builtin_shouldRun[of a ns k t nid] builtin_shouldRun_config[of a t nid]
  show "\<exists>a'. assigner_ShouldRun R a t nid = Inr (assigner_owner R a0 ns k t = nid, a') \<and>
      (assigner_like a0 a' \<and> assigner_holds R a' ns (Suc k))"
    by blast
qed (auto intro: builtin_update builtin_owner_in builtin_shouldRun_config)

context builtin_assigner
begin

lemma builtin_one:
  "assigner_ok a0 ns \<Longrightarrow> distinct (map ID ns) \<Longrightarrow> \<exists>!n. n \<in> set ns \<and>
    (\<exists>a'. assigner_ShouldRun R (assigner_UpdateNodes R a0 ns) t (ID n) = Inr (True, a'))"
  by (rule builtin.exactly_one_update[OF assigner_like_refl])

end

interpretation point_builtin: builtin_assigner point_ring_ops a0 for a0
  by unfold_locales

section \<open>What the strategies promise\<close>

text \<open>Nodes for the examples.\<close>

definition demo_node :: "string \<Rightarrow> int \<Rightarrow> Node" where
  "demo_node i w = \<lparr>ID = i, IP = ''10.0.0.1'', Hostname = [], LastAlive = 0, CreateTime = 0,
     Status = NodeStatusWorking, Weight = w\<rparr>"

lemma demo_node_simps [simp]:
  "ID (demo_node i w) = i" "Weight (demo_node i w) = w"
  "Status (demo_node i w) = NodeStatusWorking"
  by (simp_all add: demo_node_def)

text \<open>
  C5. Whichever built-in strategy is chosen, once the assigner has been given a node list the
  strategy accepts, with distinct IDs, \<open>ShouldRun\<close> says yes for exactly one of the nodes:
  no task is left without a node and no task is given to two.
\<close>

theorem builtin_exactly_one:
  assumes "consistent_ring R" and "assigner_ok a ns" and "distinct (map ID ns)"
  shows "\<exists>!n. n \<in> set ns \<and>
    (\<exists>a'. assigner_ShouldRun R (assigner_UpdateNodes R a ns) t (ID n) = Inr (True, a'))"
proof -
  have "builtin_assigner R" using assms(1) by (simp add: builtin_assigner_def)
  then show ?thesis
    using assms(2,3) by (rule builtin_assigner.builtin_one)
qed

theorem builtin_exactly_one_witness:
  "consistent_ring point_ring_ops \<and>
   (\<exists>!n. n \<in> {demo_node ''a'' 1, demo_node ''b'' 2} \<and>
     (\<exists>a'. assigner_ShouldRun point_ring_ops (assigner_UpdateNodes point_ring_ops
        (Weighted NewWeightedAssigner) [demo_node ''a'' 1, demo_node ''b'' 2]) ''job'' (ID n)
        = Inr (True, a')))"
  using builtin_exactly_one[OF point_ring.consistent_ring_axioms,
      of "Weighted NewWeightedAssigner" "[demo_node ''a'' 1, demo_node ''b'' 2]" "''job''"]
    point_ring.consistent_ring_axioms
  by (simp add: weighted_ok_def)

text \<open>
  The hash-slot strategy fills every slot and deals them out as evenly as possible: node
  \<open>i\<close> of \<open>n\<close> gets \<open>slotCount / n\<close> slots, and one more when \<open>i\<close> is below the remainder.
\<close>

theorem hashSlot_even:
  assumes "distinct (map ID ns)" and "i < length ns"
  shows "length (sl_slots (hashSlot_UpdateNodes h ns)) = sl_slotCount h \<and>
    count_list (sl_slots (hashSlot_UpdateNodes h ns)) (ID (ns ! i)) =
      sl_slotCount h div length ns + (if i < sl_slotCount h mod length ns then 1 else 0)"
proof -
  have ne: "ns \<noteq> []" using assms(2) by auto
  then have "length (sl_slots (hashSlot_UpdateNodes h ns)) = sl_slotCount h"
    by (simp add: hashSlot_UpdateNodes_table length_slot_table)
  moreover have "count_list (sl_slots (hashSlot_UpdateNodes h ns)) (ID (ns ! i)) =
      sl_slotCount h div length ns + (if i < sl_slotCount h mod length ns then 1 else 0)"
    using ne assms by (simp add: hashSlot_UpdateNodes_table slot_table_def count_slot_runs
        slot_share_def)
  ultimately show ?thesis ..
qed

theorem hashSlot_even_witness:
  "count_list (sl_slots (hashSlot_UpdateNodes \<lparr>sl_nodeID = [], sl_slotCount = 7, sl_slots = []\<rparr>
     [demo_node ''a'' 0, demo_node ''b'' 0])) ''b'' = 3"
  using hashSlot_even[of "[demo_node ''a'' 0, demo_node ''b'' 0]" 1
      "\<lparr>sl_nodeID = [], sl_slotCount = 7, sl_slots = []\<rparr>"]
  by (simp flip: numeral_2_eq_2)

text \<open>
  With the default 16384 slots, going from two nodes to three gives the third node 5461
  slots but changes the owner of 8191: every boundary moves, so half of the slots migrate
  and not only those the new node takes.
\<close>

theorem hashSlot_join_migration:
  assumes "ID a \<noteq> ID b" and "ID b \<noteq> ID c" and "ID a \<noteq> ID c"
    and "NewHashSlotAssigner virtualHashSlot = Inr h"
  shows "count_list (sl_slots (hashSlot_UpdateNodes h [a, b, c])) (ID c) = 5461 \<and>
    length (filter (\<lambda>(x, y). x \<noteq> y) (zip (sl_slots (hashSlot_UpdateNodes h [a, b]))
      (sl_slots (hashSlot_UpdateNodes h [a, b, c])))) = 8191"
proof -
  have cnt: "sl_slotCount h = 16384"
    using assms(4) by (auto simp: NewHashSlotAssigner_def virtualHashSlot_def)
  have split: "replicate 8192 x = replicate 5462 x @ replicate 2730 x"
    "replicate 8192 x = replicate 2731 x @ replicate 5461 x"
    "replicate 5461 x = replicate 2730 x @ replicate 2731 x" for x :: string
    by (simp_all flip: replicate_add)
  have two: "sl_slots (hashSlot_UpdateNodes h [a, b]) =
      replicate 5462 (ID a) @ replicate 2730 (ID a) @ replicate 2731 (ID b) @ replicate 5461 (ID b)"
    using split(1)[of "ID a"] split(2)[of "ID b"]
    by (simp add: hashSlot_UpdateNodes_table cnt slot_table_def slot_share_def
        flip: numeral_2_eq_2)
  have three: "sl_slots (hashSlot_UpdateNodes h [a, b, c]) =
      replicate 5462 (ID a) @ replicate 2730 (ID b) @ replicate 2731 (ID b) @ replicate 5461 (ID c)"
    using split(3)[of "ID b"]
    by (simp add: hashSlot_UpdateNodes_table cnt slot_table_def slot_share_def
        flip: numeral_3_eq_3 replicate_Suc)
  show ?thesis
    unfolding two three using assms(1-3)
    by (simp add: count_list_append count_list_replicate zip_append zip_replicate filter_replicate)
qed

theorem hashSlot_join_migration_witness:
  "length (filter (\<lambda>(x, y). x \<noteq> y)
     (zip (sl_slots (hashSlot_UpdateNodes
            \<lparr>sl_nodeID = [], sl_slotCount = 16384, sl_slots = replicate 16384 []\<rparr>
            [demo_node ''a'' 0, demo_node ''b'' 0]))
          (sl_slots (hashSlot_UpdateNodes
            \<lparr>sl_nodeID = [], sl_slotCount = 16384, sl_slots = replicate 16384 []\<rparr>
            [demo_node ''a'' 0, demo_node ''b'' 0, demo_node ''c'' 0])))) = 8191"
  by (rule hashSlot_join_migration[THEN conjunct2])
    (simp_all add: NewHashSlotAssigner_def virtualHashSlot_def)

text \<open>
  On a node list sorted by ID, when a node joins under the range strategy, every task that
  does not move to the new node stays where it was.
\<close>

theorem range_join_stable:
  assumes "sorted (map ID ns)" and "range_ok ns" and "ID x \<notin> ID ` set ns" and "ID x \<noteq> []"
    and "y \<noteq> ID x"
    and "range_ShouldRun (range_UpdateNodes r (insort_key ID x ns)) t y = Inr (True, r1)"
  shows "\<exists>r2. range_ShouldRun (range_UpdateNodes r ns) t y = Inr (True, r2)"
proof -
  have ok: "range_ok (insort_key ID x ns)"
    using assms(2,4) by (auto simp: range_ok_def set_insort_key)
  have "range_first (insort_key ID x ns) t = y"
    using rng.shouldRun_owner[OF rng.holds_update[OF _ ok] ok, of r t y] assms(6) by auto
  then have "range_first ns t = y"
    using range_first_insort[OF assms(1) _ assms(3), of t] assms(2,5) by (auto simp: range_ok_def)
  then show ?thesis
    using rng.shouldRun_owner[OF rng.holds_update[OF _ assms(2)] assms(2), of r t y] by auto
qed

theorem range_join_stable_witness:
  "\<exists>r2. range_ShouldRun (range_UpdateNodes NewRangeAssigner
     [demo_node ''b'' 0, demo_node ''d'' 0]) ''a1'' ''b'' = Inr (True, r2)"
  by (rule range_join_stable[of "[demo_node ''b'' 0, demo_node ''d'' 0]" "demo_node ''c'' 0" "''b''"
        NewRangeAssigner "''a1''" "range_UpdateNodes NewRangeAssigner
          (insort_key ID (demo_node ''c'' 0) [demo_node ''b'' 0, demo_node ''d'' 0])"])
    (simp_all add: range_ok_def strategy_defs)

text \<open>
  C28. The weighted strategy splits the hash residues modulo the total weight among the nodes in
  proportion to their weights: a node runs the tasks whose residue is one of its own, and it
  owns as many residues as its weight.
\<close>

theorem weighted_proportional:
  assumes "weighted_ok ns" and "distinct (map ID ns)" and "n \<in> set ns"
  shows "(\<exists>w'. weighted_ShouldRun (weighted_UpdateNodes w ns) t (ID n) =
      Inr (uint (ChecksumIEEE t) mod sum_list (map Weight ns) \<in> residues ns (ID n), w')) \<and>
    card (residues ns (ID n)) = nat (Weight n)"
proof -
  have "uint (ChecksumIEEE t) mod sum_list (map Weight ns) \<in> residues ns (ID n) \<longleftrightarrow>
      weighted_owner ns 0 t = ID n"
    using assms(1) by (simp add: residues_def weighted_owner_def weighted_ok_def)
  moreover have "card (residues ns (ID n)) = nat (Weight n)"
    using assms by (intro card_residues) (auto simp: weighted_ok_def)
  ultimately show ?thesis
    using weighted.shouldRun_owner[OF weighted.holds_update[OF _ assms(1)] assms(1), of w t "ID n"]
    by auto
qed

theorem weighted_proportional_witness:
  "card (residues [demo_node ''a'' 1, demo_node ''b'' 3] ''b'') = 3"
  using weighted_proportional[of "[demo_node ''a'' 1, demo_node ''b'' 3]" "demo_node ''b'' 3"]
  by (simp add: weighted_ok_def)

text \<open>
  C29. When no node of the cluster sets a weight (the option \<open>WithWeight\<close> is optional, the
  default is zero), the weighted strategy divides by zero on every task: the call panics.
\<close>

theorem weighted_default_panics:
  assumes "ns \<noteq> []" and "\<forall>n \<in> set ns. Weight n = 0"
  shows "weighted_ShouldRun (weighted_UpdateNodes w ns) t nid = Inl DivideByZero"
proof -
  have "sum_list (map Weight ns) = 0"
    using assms(2) by (induction ns) auto
  then have "wt_totalWeight (weighted_UpdateNodes w ns) = 0"
    using weighted_total_eq[of ns 0] assms(2) by (simp add: weighted_UpdateNodes_def)
  then show ?thesis
    using assms(1) by (simp add: weighted_ShouldRun_def weighted_UpdateNodes_def go_uint32_def)
qed

theorem weighted_default_panics_witness:
  "weighted_ShouldRun (weighted_UpdateNodes NewWeightedAssigner [demo_node ''a'' 0])
     ''job'' ''a'' = Inl DivideByZero"
  by (rule weighted_default_panics) simp_all

text \<open>
  Round robin deals tasks out in circular order: asked about the tasks \<open>ts\<close> one after the
  other since the last update, a node runs exactly the ones whose position modulo the number
  of nodes is its own.
\<close>

theorem roundRobin_cycle:
  assumes "ns \<noteq> []"
  shows "\<exists>r'. ask_all roundRobin_ShouldRun (roundRobin_UpdateNodes r ns) ts nid =
    Inr (map (\<lambda>i. ID (ns ! (i mod length ns)) = nid) [0..<length ts], r')"
proof -
  have "map (\<lambda>(i, t). robin_owner ns i t = nid) (enumerate 0 ts) =
      map (\<lambda>i. ID (ns ! (i mod length ns)) = nid) [0..<length ts]"
    by (rule nth_equalityI) (simp_all add: robin_owner_def nth_enumerate_eq)
  then show ?thesis
    using robin.ask_all_owner[OF robin.holds_update[OF _ assms] assms, of r ts nid] by auto
qed

theorem roundRobin_cycle_witness:
  "\<exists>r'. ask_all roundRobin_ShouldRun
     (roundRobin_UpdateNodes NewRoundRobinAssigner [demo_node ''a'' 0, demo_node ''b'' 0])
     [''t1'', ''t2'', ''t3''] ''a'' = Inr ([True, False, True], r')"
  using roundRobin_cycle[of "[demo_node ''a'' 0, demo_node ''b'' 0]" NewRoundRobinAssigner
      "[''t1'', ''t2'', ''t3'']" "''a''"]
  by (simp add: upt_rec numeral_2_eq_2 numeral_3_eq_3)

end
