(* ===== verification/Rebalance.thy ===== *)
theory Rebalance
  imports Dcron_Inv Assigner_Laws
begin

text \<open>
  \<open>doRebalanced\<close> of \<open>src/task.go\<close> against its specification: after a rebalance a node runs
  exactly the tasks that are not deleted, that the assigner gives to it, and whose schedule
  the cron engine accepts. The specification is the list \<open>plan\<close>, which depends on the task
  names, the deleted names and the node list only, so that nodes that agree on these agree on
  the plan.
\<close>

section \<open>The specification\<close>

text \<open>The owner of every task that is not deleted; \<open>k\<close> counts the questions put to the
  assigner, which round robin depends on.\<close>

fun plan :: "(nat \<Rightarrow> string \<Rightarrow> string) \<Rightarrow> string set \<Rightarrow> nat \<Rightarrow> string list \<Rightarrow> (string \<times> string) list" where
  "plan owner D k [] = []"
| "plan owner D k (t # ts) =
     (if t \<in> D then plan owner D k ts else (t, owner k t) # plan owner D (Suc k) ts)"

lemma plan_keys: "map fst (plan owner D k ts) = filter (\<lambda>t. t \<notin> D) ts"
  by (induction ts arbitrary: k) auto

lemma plan_dom: "map_of (plan owner D k ts) n \<noteq> None \<longleftrightarrow> n \<in> set ts \<and> n \<notin> D"
proof -
  have "map_of (plan owner D k ts) n \<noteq> None \<longleftrightarrow> n \<in> set (map fst (plan owner D k ts))"
    by (auto simp: map_of_eq_None_iff)
  then show ?thesis by (simp add: plan_keys)
qed

lemma plan_owner_in:
  "map_of (plan owner D k ts) n = Some nid \<Longrightarrow> \<exists>j. nid = owner j n"
  by (induction ts arbitrary: k) (auto split: if_splits)

text \<open>The schedule of a known task.\<close>

definition task_fmt :: "('k, 'a) dcron \<Rightarrow> string \<Rightarrow> string" where
  "task_fmt dc n = fmt_of (dc_store dc ! the (map_of (dc_allTasks dc) n))"

text \<open>What a rebalance leaves alone.\<close>

definition rb_frame :: "('k, 'a) dcron \<Rightarrow> ('k, 'a) dcron \<Rightarrow> bool" where
  "rb_frame dc dc' \<longleftrightarrow> dc_allTasks dc' = dc_allTasks dc \<and> dc_deletedTasks dc' = dc_deletedTasks dc \<and>
     dc_nodes dc' = dc_nodes dc \<and> dc_nodeID dc' = dc_nodeID dc \<and>
     map task_metadata (dc_store dc') = map task_metadata (dc_store dc)"

lemma rb_frame_refl [simp]: "rb_frame dc dc"
  by (simp add: rb_frame_def)

lemma rb_frame_trans: "rb_frame dc dc' \<Longrightarrow> rb_frame dc' dc'' \<Longrightarrow> rb_frame dc dc''"
  by (simp add: rb_frame_def)

lemma rb_frame_fmt:
  assumes "rb_frame dc dc'" and "names_ok (dc_store dc) (map_of (dc_allTasks dc))"
    and "map_of (dc_allTasks dc) n \<noteq> None"
  shows "task_fmt dc' n = task_fmt dc n"
proof -
  obtain a where a: "map_of (dc_allTasks dc) n = Some a" using assms(3) by blast
  have eq: "map task_metadata (dc_store dc') = map task_metadata (dc_store dc)"
    using assms(1) by (simp add: rb_frame_def)
  have "a < length (dc_store dc)" using names_okD(1)[OF assms(2) a] .
  moreover have "length (dc_store dc') = length (dc_store dc)" using eq by (metis length_map)
  ultimately have "task_metadata (dc_store dc' ! a) = task_metadata (dc_store dc ! a)"
    using eq by (metis nth_map)
  then show ?thesis using a assms(1) by (simp add: task_fmt_def fmt_of_def rb_frame_def)
qed

lemma entry_scan_iff: "entry_scan i es \<longleftrightarrow> i \<in> fst ` set es"
  by (induction es) auto

lemma set_task_id_frame: "rb_frame dc (set_task_id a i dc)"
proof -
  have "map task_metadata ((dc_store dc)[a := (dc_store dc ! a)\<lparr>task_id := i\<rparr>]) =
      map task_metadata (dc_store dc)"
    by (cases "a < length (dc_store dc)")
      (simp_all add: map_update list_update_beyond list_update_same_conv)
  then show ?thesis by (simp add: rb_frame_def set_task_id_def)
qed

section \<open>One task\<close>

context cron_engine
begin

lemma existed_iff:
  assumes "sched_inv dc" and "map_of (dc_allTasks dc) n = Some a"
  shows "task_id (dc_store dc ! a) \<noteq> 0 \<and> existedInCron C (task_id (dc_store dc ! a)) dc \<longleftrightarrow>
    map_of (dc_assignedTasks dc) n \<noteq> None"
proof -
  have l: "lnk (dc_cr dc) (view (dc_store dc) (map_of (dc_allTasks dc))) (view (dc_store dc) (map_of (dc_assignedTasks dc)))"
    using assms(1) by (simp add: dc_inv_def)
  have "view (dc_store dc) (map_of (dc_allTasks dc)) n =
      Some (task_id (dc_store dc ! a), fmt_of (dc_store dc ! a), a)"
    using assms(2) by (simp add: view_Some)
  from lnk_existed[OF l this] show ?thesis
    by (simp add: existedInCron_def entry_scan_iff)
qed

lemma assigned_valid:
  assumes "sched_inv dc" and "map_of (dc_assignedTasks dc) n \<noteq> None"
  shows "valid (dc_cr dc) (task_fmt dc n)"
proof -
  obtain a where a: "map_of (dc_assignedTasks dc) n = Some a" using assms(2) by blast
  have l: "lnk (dc_cr dc) (view (dc_store dc) (map_of (dc_allTasks dc))) (view (dc_store dc) (map_of (dc_assignedTasks dc)))"
    using assms(1) by (simp add: dc_inv_def)
  have W: "view (dc_store dc) (map_of (dc_assignedTasks dc)) n =
      Some (task_id (dc_store dc ! a), fmt_of (dc_store dc ! a), a)"
    using a by (simp add: view_Some)
  obtain b where "map_of (dc_allTasks dc) n = Some b" "fmt_of (dc_store dc ! b) = fmt_of (dc_store dc ! a)"
    using assigned_known[OF assms(1) a] by blast
  then show ?thesis using lnkD(3)[OF l W] by (simp add: task_fmt_def)
qed

text \<open>What the loop body does once the assigner has answered.\<close>

definition decide :: "string \<Rightarrow> addr \<Rightarrow> bool \<Rightarrow> ('k, 'a) dcron \<times> rebalance_counts \<Rightarrow> ('k, 'a) dcron \<times> rebalance_counts"
  where "decide n a b s = (if b then rebalance_assign C n a (map_of (dc_assignedTasks (fst s)) n \<noteq> None) s
     else rebalance_unassign C n a (map_of (dc_assignedTasks (fst s)) n \<noteq> None) s)"

text \<open>The result has the task assigned when it should be, and is the same state when it
  already was as it should be.\<close>

definition settled :: "string \<Rightarrow> bool \<Rightarrow> ('k, 'a) dcron \<Rightarrow> bool" where
  "settled n b dc \<longleftrightarrow> (map_of (dc_assignedTasks dc) n \<noteq> None \<longleftrightarrow> b \<and> valid (dc_cr dc) (task_fmt dc n))"

lemma decide_settled:
  assumes "sched_inv dc" and "map_of (dc_allTasks dc) n = Some a" and "settled n b dc"
  shows "\<exists>c'. decide n a b (dc, c) = (dc, c') \<and> rc_assigned c' = rc_assigned c \<and>
    rc_unassigned c' = rc_unassigned c"
proof (cases "b \<and> map_of (dc_assignedTasks dc) n = None")
  case True
  then have "\<not> valid (dc_cr dc) (fmt_of (dc_store dc ! a))"
    using assms(2,3) by (simp add: settled_def task_fmt_def)
  then obtain e where "cr_AddJob C (fmt_of (dc_store dc ! a)) a (dc_cr dc) = (Inl e, dc_cr dc)"
    using add_invalid by blast
  with True show ?thesis by (simp add: decide_def rebalance_assign_def fmt_of_def)
next
  case False
  with assms(3) show ?thesis
    by (auto simp: decide_def rebalance_assign_def rebalance_unassign_def settled_def)
qed

lemma decide_spec:
  assumes "sched_inv dc" and "map_of (dc_allTasks dc) n = Some a" and "decide n a b (dc, c) = (dc', c')"
  shows "sched_inv dc' \<and> rb_frame dc dc' \<and> valid (dc_cr dc') = valid (dc_cr dc) \<and>
    dc_assigner dc' = dc_assigner dc \<and> settled n b dc' \<and>
    (\<forall>m. m \<noteq> n \<longrightarrow> map_of (dc_assignedTasks dc') m = map_of (dc_assignedTasks dc) m)"
proof -
  have fmt: "task_fmt dc n = fmt_of (dc_store dc ! a)" using assms(2) by (simp add: task_fmt_def)
  consider "settled n b dc" | (add) "b" "map_of (dc_assignedTasks dc) n = None" "valid (dc_cr dc) (fmt_of (dc_store dc ! a))"
    | (remove) "\<not> b" "map_of (dc_assignedTasks dc) n \<noteq> None"
    using assigned_valid[OF assms(1), of n] by (auto simp: settled_def fmt)
  then show ?thesis
  proof cases
    case 1
    then show ?thesis using decide_settled[OF assms(1,2) 1, of c] assms by auto
  next
    case remove
    then have "task_id (dc_store dc ! a) \<noteq> 0" using existed_iff[OF assms(1,2)] by simp
    moreover have "dc' = dc\<lparr>dc_cr := cr_Remove C (task_id (dc_store dc ! a)) (dc_cr dc),
        dc_assignedTasks := AList.delete n (dc_assignedTasks dc)\<rparr>"
      using remove assms(3) by (simp add: decide_def rebalance_unassign_def)
    ultimately show ?thesis
      using remove inv_remove_id[OF assms(1,2)]
      by (simp add: rb_frame_def remove_laws settled_def alist_simps)
  next
    case add
    then obtain i k where k: "cr_AddJob C (fmt_of (dc_store dc ! a)) a (dc_cr dc) = (Inr i, k)"
      "valid k = valid (dc_cr dc)"
      using add_valid by blast
    have ok: "names_ok (dc_store dc) (map_of (dc_allTasks dc))" "names_ok (dc_store dc) (map_of (dc_assignedTasks dc))"
      using assms(1) by (auto simp: dc_inv_def)
    let ?st = "(dc_store dc)[a := (dc_store dc ! a)\<lparr>task_id := i\<rparr>]"
    have dc': "dc' = (set_task_id a i (dc\<lparr>dc_cr := k\<rparr>))
        \<lparr>dc_assignedTasks := AList.update n a (dc_assignedTasks dc)\<rparr>"
      using add assms(3) k by (simp add: decide_def rebalance_assign_def fmt_of_def set_task_id_def)
    have "view ?st ((map_of (dc_assignedTasks dc))(n \<mapsto> a)) =
        (view (dc_store dc) (map_of (dc_assignedTasks dc)))(n \<mapsto> (i, fmt_of (dc_store dc ! a), a))"
      using view_set_id_other[OF ok(2,1) assms(2) add(2)] names_okD(1)[OF ok(1) assms(2)]
      by (auto simp: view_def fun_eq_iff fmt_of_def)
    moreover have "linked C valid issued k
        ((view (dc_store dc) (map_of (dc_allTasks dc)))(n \<mapsto> (i, fmt_of (dc_store dc ! a), a)))
        ((view (dc_store dc) (map_of (dc_assignedTasks dc)))(n \<mapsto> (i, fmt_of (dc_store dc ! a), a)))"
      using assms(1,2) add k by (intro lnk_assign[where k = "dc_cr dc"]) (auto simp: dc_inv_def view_Some)
    moreover have "names_ok ?st ((map_of (dc_assignedTasks dc))(n \<mapsto> a))"
      using ok assms(2) by (intro names_ok_upd names_ok_set_id)
    ultimately have inv: "sched_inv dc'"
      using assms(1) view_set_id[OF ok(1) assms(2)] ok
      by (simp add: dc' dc_inv_def set_task_id_def alist_simps distinct_keys_update names_ok_set_id)
    have frame: "rb_frame dc dc'"
      using set_task_id_frame[of dc a i] by (simp add: dc' rb_frame_def set_task_id_def)
    have "task_fmt dc' n = fmt_of (dc_store dc ! a)"
      using rb_frame_fmt[OF frame ok(1)] assms(2) fmt by simp
    with inv frame add k show ?thesis
      by (simp add: settled_def) (simp add: dc' set_task_id_def alist_simps)
  qed
qed

end

section \<open>The loop\<close>

text \<open>The scheduler with a cron engine and an assigner that keep their contracts.\<close>

locale rebalancer = cron_engine C valid issued +
    task_assigner "as_UpdateNodes A" "as_ShouldRun A" config ok holds owner
  for C :: "'k cron_ops" and valid :: "'k \<Rightarrow> string \<Rightarrow> bool" and issued :: "'k \<Rightarrow> nat set"
    and A :: "'a assigner_ops" and config :: "'a \<Rightarrow> bool" and ok :: "Node list \<Rightarrow> bool"
    and holds :: "'a \<Rightarrow> Node list \<Rightarrow> nat \<Rightarrow> bool" and owner :: "Node list \<Rightarrow> nat \<Rightarrow> string \<Rightarrow> string"
begin

text \<open>The state of the loop: the assigner has answered \<open>k\<close> questions about \<open>ns\<close>.\<close>

definition asked :: "Node list \<Rightarrow> nat \<Rightarrow> ('k, 'a) dcron \<Rightarrow> bool" where
  "asked ns k dc \<longleftrightarrow> (\<exists>a. dc_assigner dc = Some a \<and> config a \<and> holds a ns k)"

lemma rebalance_task_decide:
  assumes "sched_inv dc" and "map_of (dc_allTasks dc) n = Some a" and "asked ns k dc" and "ok ns"
  shows "\<exists>dc1. rebalance_task C A n (dc, c) =
      Inr (decide n a (n \<notin> dc_deletedTasks dc \<and> owner ns k n = dc_nodeID dc) (dc1, c)) \<and>
    dc1 = dc\<lparr>dc_assigner := dc_assigner dc1\<rparr> \<and> asked ns (if n \<in> dc_deletedTasks dc then k else Suc k) dc1"
proof (cases "n \<in> dc_deletedTasks dc")
  case True
  then show ?thesis
    using assms existed_iff[OF assms(1,2)]
    by (intro exI[of _ dc]) (simp add: rebalance_task_def decide_def)
next
  case False
  obtain x where x: "dc_assigner dc = Some x" "config x" "holds x ns k"
    using assms(3) by (auto simp: asked_def)
  then obtain x' where x': "as_ShouldRun A x n (dc_nodeID dc) = Inr (owner ns k n = dc_nodeID dc, x')"
    "holds x' ns (Suc k)" "config x'"
    using shouldRun_owner[OF x(3) assms(4)] config_shouldRun[OF x(2)] by blast
  have "existedInCron C (task_id (dc_store dc ! a)) (dc\<lparr>dc_assigner := Some x'\<rparr>) =
      existedInCron C (task_id (dc_store dc ! a)) dc"
    by (simp add: existedInCron_def)
  with False x x' existed_iff[OF assms(1,2)] assms(2) show ?thesis
    by (intro exI[of _ "dc\<lparr>dc_assigner := Some x'\<rparr>"])
      (simp add: rebalance_task_def shouldRunTask_def decide_def asked_def)
qed

text \<open>Which of the listed tasks the plan gives to this node.\<close>

definition mine :: "Node list \<Rightarrow> nat \<Rightarrow> string list \<Rightarrow> ('k, 'a) dcron \<Rightarrow> string \<Rightarrow> bool" where
  "mine ns k names dc n \<longleftrightarrow> map_of (plan (owner ns) (dc_deletedTasks dc) k names) n = Some (dc_nodeID dc)"

lemma mine_frame: "rb_frame dc dc' \<Longrightarrow> mine ns k names dc' n = mine ns k names dc n"
  by (simp add: mine_def rb_frame_def)

lemma settled_frame:
  assumes "settled n b dc" and "rb_frame dc dc'" and "sched_inv dc" and "map_of (dc_allTasks dc) n \<noteq> None"
    and "valid (dc_cr dc') = valid (dc_cr dc)"
    and "map_of (dc_assignedTasks dc') n = map_of (dc_assignedTasks dc) n"
  shows "settled n b dc'"
  using assms rb_frame_fmt[OF assms(2) _ assms(4)] by (simp add: settled_def dc_inv_def)

lemma rebalance_loop_spec:
  assumes "sched_inv dc" and "asked ns k dc" and "ok ns" and "distinct names"
    and "\<forall>n \<in> set names. map_of (dc_allTasks dc) n \<noteq> None"
  shows "\<exists>dc' c'. rebalance_loop C A names (dc, c) = Inr (dc', c') \<and> sched_inv dc' \<and> rb_frame dc dc' \<and>
    valid (dc_cr dc') = valid (dc_cr dc) \<and> (\<exists>k'. asked ns k' dc') \<and>
    (\<forall>n \<in> set names. settled n (mine ns k names dc n) dc') \<and>
    (\<forall>n. n \<notin> set names \<longrightarrow> map_of (dc_assignedTasks dc') n = map_of (dc_assignedTasks dc) n)"
  using assms
proof (induction names arbitrary: dc k c)
  case Nil
  then show ?case by auto
next
  case (Cons n names)
  obtain a where a: "map_of (dc_allTasks dc) n = Some a" using Cons.prems(5) by auto
  define b where "b \<longleftrightarrow> n \<notin> dc_deletedTasks dc \<and> owner ns k n = dc_nodeID dc"
  define k1 where "k1 = (if n \<in> dc_deletedTasks dc then k else Suc k)"
  obtain dc1 where step: "rebalance_task C A n (dc, c) = Inr (decide n a b (dc1, c))"
    and dc1: "dc1 = dc\<lparr>dc_assigner := dc_assigner dc1\<rparr>" and asked1: "asked ns k1 dc1"
    using rebalance_task_decide[OF Cons.prems(1) a Cons.prems(2,3), of c] unfolding b_def k1_def by blast
  have f1: "sched_inv dc1" "rb_frame dc dc1" "map_of (dc_allTasks dc1) n = Some a" "dc_cr dc1 = dc_cr dc"
      "dc_assignedTasks dc1 = dc_assignedTasks dc"
    using Cons.prems(1) a by (subst dc1, simp add: rb_frame_def)+
  obtain dc2 c2 where d: "decide n a b (dc1, c) = (dc2, c2)" by fastforce
  note spec2 = decide_spec[OF f1(1,3) d]
  have f2: "rb_frame dc dc2" using spec2 f1(2) rb_frame_trans by blast
  then have all2: "dc_allTasks dc2 = dc_allTasks dc" by (simp add: rb_frame_def)
  have "asked ns k1 dc2" using asked1 spec2 by (simp add: asked_def)
  then obtain dc' c' where IH: "rebalance_loop C A names (dc2, c2) = Inr (dc', c')" "sched_inv dc'"
      "rb_frame dc2 dc'" "valid (dc_cr dc') = valid (dc_cr dc2)" "\<exists>k'. asked ns k' dc'"
      "\<forall>m \<in> set names. settled m (mine ns k1 names dc2 m) dc'"
      "\<forall>m. m \<notin> set names \<longrightarrow> map_of (dc_assignedTasks dc') m = map_of (dc_assignedTasks dc2) m"
    using Cons.IH[of dc2 k1 c2] spec2 Cons.prems(3-5) all2 by auto
  have run: "rebalance_loop C A (n # names) (dc, c) = Inr (dc', c')"
    using step d IH(1) by simp
  have sn: "settled n b dc'"
    using settled_frame[of n b dc2 dc'] spec2 IH Cons.prems(4) all2 a by auto
  have mine_n: "mine ns k (n # names) dc n \<longleftrightarrow> b"
    using plan_dom[of "owner ns" "dc_deletedTasks dc" k names n] Cons.prems(4)
    by (auto simp: mine_def b_def)
  have mine_m: "mine ns k (n # names) dc m = mine ns k1 names dc2 m" if "m \<in> set names" for m
    using that Cons.prems(4) mine_frame[OF f2] by (auto simp: mine_def k1_def)
  have settled_all: "\<forall>m \<in> set (n # names). settled m (mine ns k (n # names) dc m) dc'"
    using sn mine_n mine_m IH(6) by auto
  have rest: "map_of (dc_assignedTasks dc') m = map_of (dc_assignedTasks dc) m" if "m \<notin> set (n # names)" for m
    using that IH(7) spec2 f1(5) by auto
  show ?case
    using run IH(2,4,5) rb_frame_trans[OF f2 IH(3)] settled_all rest spec2 f1(4)
    by (intro exI[of _ dc'] exI[of _ c']) simp
qed

lemma doRebalanced_loop:
  assumes "dc_nodes dc \<noteq> []" and "dc_assigner dc = Some a"
  shows "doRebalanced C A dc = rebalance_loop C A (sort (map fst (dc_allTasks dc)))
    (dc\<lparr>dc_assigner := Some (as_UpdateNodes A a (dc_nodes dc))\<rparr>, no_counts)"
  using assms by (simp add: doRebalanced_def)

text \<open>The whole of \<open>doRebalanced\<close>.\<close>

lemma doRebalanced_spec:
  assumes "sched_inv dc" and "dc_assigner dc = Some a" and "config a" and "ok (dc_nodes dc)"
  shows "\<exists>dc' c. doRebalanced C A dc = Inr (dc', c) \<and> sched_inv dc' \<and> rb_frame dc dc' \<and>
    valid (dc_cr dc') = valid (dc_cr dc) \<and> (\<exists>a'. dc_assigner dc' = Some a' \<and> config a') \<and>
    (\<forall>n. map_of (dc_assignedTasks dc') n \<noteq> None \<longleftrightarrow>
       map_of (plan (owner (dc_nodes dc)) (dc_deletedTasks dc) 0 (sort (map fst (dc_allTasks dc)))) n
         = Some (dc_nodeID dc) \<and> valid (dc_cr dc) (task_fmt dc n))"
proof -
  let ?names = "sort (map fst (dc_allTasks dc))"
  let ?dc = "dc\<lparr>dc_assigner := Some (as_UpdateNodes A a (dc_nodes dc))\<rparr>"
  have ne: "dc_nodes dc \<noteq> []" using owner_in[OF assms(4)] by force
  have "asked (dc_nodes dc) 0 ?dc"
    using holds_update[OF assms(3,4)] config_update[OF assms(3)] by (simp add: asked_def)
  moreover have "distinct ?names" using assms(1) by (simp add: dc_inv_def)
  moreover have "\<forall>n \<in> set ?names. map_of (dc_allTasks ?dc) n \<noteq> None"
    by (auto simp: map_of_eq_None_iff image_iff)
  ultimately obtain dc' c where r: "rebalance_loop C A ?names (?dc, no_counts) = Inr (dc', c)"
      "sched_inv dc'" "rb_frame ?dc dc'" "valid (dc_cr dc') = valid (dc_cr ?dc)"
      "\<exists>k'. asked (dc_nodes dc) k' dc'"
      "\<forall>n \<in> set ?names. settled n (mine (dc_nodes dc) 0 ?names ?dc n) dc'"
      "\<forall>n. n \<notin> set ?names \<longrightarrow> map_of (dc_assignedTasks dc') n = map_of (dc_assignedTasks ?dc) n"
    using rebalance_loop_spec[of ?dc "dc_nodes dc" 0 ?names no_counts] assms(1,4) by auto
  have frame: "rb_frame dc dc'" using r(3) by (simp add: rb_frame_def)
  have asg: "map_of (dc_assignedTasks dc') n \<noteq> None \<longleftrightarrow>
       map_of (plan (owner (dc_nodes dc)) (dc_deletedTasks dc) 0 ?names) n = Some (dc_nodeID dc) \<and>
       valid (dc_cr dc) (task_fmt dc n)" for n
  proof (cases "n \<in> set ?names")
    case True
    then have "map_of (dc_allTasks dc) n \<noteq> None" by (auto simp: map_of_eq_None_iff)
    then have "task_fmt dc' n = task_fmt dc n"
      using rb_frame_fmt[OF frame] assms(1) by (simp add: dc_inv_def)
    moreover have "settled n (mine (dc_nodes dc) 0 ?names ?dc n) dc'" using r(6) True by blast
    ultimately show ?thesis using r(4) by (simp add: settled_def mine_def)
  next
    case False
    then have "map_of (dc_allTasks dc) n = None" by (auto simp: map_of_eq_None_iff)
    then have "map_of (dc_assignedTasks dc) n = None" by (rule unknown_unassigned[OF assms(1)])
    moreover have "map_of (plan (owner (dc_nodes dc)) (dc_deletedTasks dc) 0 ?names) n = None"
      using False plan_dom by blast
    ultimately show ?thesis using r(7) False by simp
  qed
  show ?thesis
    using r(1,2,4,5) frame asg doRebalanced_loop[OF ne assms(2)]
    by (intro exI[of _ dc'] exI[of _ c]) (auto simp: asked_def)
qed

text \<open>A loop over settled tasks changes nothing but the assigner.\<close>

lemma rebalance_loop_settled:
  assumes "sched_inv dc" and "asked ns k dc" and "ok ns" and "distinct names"
    and "\<forall>n \<in> set names. map_of (dc_allTasks dc) n \<noteq> None"
    and "\<forall>n \<in> set names. settled n (mine ns k names dc n) dc"
  shows "\<exists>a c'. rebalance_loop C A names (dc, c) = Inr (dc\<lparr>dc_assigner := a\<rparr>, c') \<and>
    rc_assigned c' = rc_assigned c \<and> rc_unassigned c' = rc_unassigned c"
  using assms
proof (induction names arbitrary: dc k c)
  case Nil
  show ?case by (rule exI[of _ "dc_assigner dc"]) simp
next
  case (Cons n names)
  obtain a where a: "map_of (dc_allTasks dc) n = Some a" using Cons.prems(5) by auto
  define b where "b \<longleftrightarrow> n \<notin> dc_deletedTasks dc \<and> owner ns k n = dc_nodeID dc"
  define k1 where "k1 = (if n \<in> dc_deletedTasks dc then k else Suc k)"
  obtain dc1 where step: "rebalance_task C A n (dc, c) = Inr (decide n a b (dc1, c))"
    and dc1: "dc1 = dc\<lparr>dc_assigner := dc_assigner dc1\<rparr>" and asked1: "asked ns k1 dc1"
    using rebalance_task_decide[OF Cons.prems(1) a Cons.prems(2,3), of c] unfolding b_def k1_def by blast
  have f1: "sched_inv dc1" "dc_allTasks dc1 = dc_allTasks dc" "rb_frame dc dc1"
    using Cons.prems(1) by (subst dc1, simp add: rb_frame_def)+
  have st: "settled m x dc1 = settled m x dc" for m x
    by (subst dc1) (simp add: settled_def task_fmt_def)
  have mine_n: "mine ns k (n # names) dc n \<longleftrightarrow> b"
    using plan_dom[of "owner ns" "dc_deletedTasks dc" k names n] Cons.prems(4)
    by (auto simp: mine_def b_def)
  then have "settled n b dc1" using Cons.prems(6) st by auto
  then obtain c1 where d: "decide n a b (dc1, c) = (dc1, c1)" "rc_assigned c1 = rc_assigned c"
      "rc_unassigned c1 = rc_unassigned c"
    using decide_settled[OF f1(1), of n a b c] f1(2) a by auto
  have "mine ns k1 names dc1 m = mine ns k (n # names) dc m" if "m \<in> set names" for m
    using that Cons.prems(4) mine_frame[OF f1(3)] by (auto simp: mine_def k1_def)
  then have "\<forall>m \<in> set names. settled m (mine ns k1 names dc1 m) dc1" using Cons.prems(6) st by auto
  then obtain x c' where "rebalance_loop C A names (dc1, c1) = Inr (dc1\<lparr>dc_assigner := x\<rparr>, c')"
      "rc_assigned c' = rc_assigned c1" "rc_unassigned c' = rc_unassigned c1"
    using Cons.IH[of dc1 k1 c1] f1(1,2) asked1 Cons.prems(3-5) by auto
  moreover have "dc1\<lparr>dc_assigner := x\<rparr> = dc\<lparr>dc_assigner := x\<rparr>" by (subst dc1) simp
  ultimately show ?case using step d by auto
qed

lemma doRebalanced_twice:
  assumes "sched_inv dc" and "dc_assigner dc = Some a" and "config a" and "ok (dc_nodes dc)"
    and "doRebalanced C A dc = Inr (dc1, c1)"
  shows "\<exists>x c2. doRebalanced C A dc1 = Inr (dc1\<lparr>dc_assigner := x\<rparr>, c2) \<and>
    rc_assigned c2 = 0 \<and> rc_unassigned c2 = 0"
proof -
  have s: "sched_inv dc1" "rb_frame dc dc1" "valid (dc_cr dc1) = valid (dc_cr dc)"
    "\<exists>a'. dc_assigner dc1 = Some a' \<and> config a'"
    "\<forall>n. map_of (dc_assignedTasks dc1) n \<noteq> None \<longleftrightarrow>
       map_of (plan (owner (dc_nodes dc)) (dc_deletedTasks dc) 0 (sort (map fst (dc_allTasks dc)))) n
         = Some (dc_nodeID dc) \<and> valid (dc_cr dc) (task_fmt dc n)"
    using doRebalanced_spec[OF assms(1-4)] assms(5) by auto
  obtain a1 where a1: "dc_assigner dc1 = Some a1" "config a1" using s(4) by blast
  let ?names = "sort (map fst (dc_allTasks dc1))"
  let ?dc = "dc1\<lparr>dc_assigner := Some (as_UpdateNodes A a1 (dc_nodes dc1))\<rparr>"
  have same: "dc_nodes dc1 = dc_nodes dc" "dc_allTasks dc1 = dc_allTasks dc"
      "dc_deletedTasks dc1 = dc_deletedTasks dc" "dc_nodeID dc1 = dc_nodeID dc"
    using s(2) by (auto simp: rb_frame_def)
  have ne: "dc_nodes dc1 \<noteq> []" using owner_in[OF assms(4)] same by force
  have known: "map_of (dc_allTasks dc) n \<noteq> None" if "n \<in> set ?names" for n
    using that same by (auto simp: map_of_eq_None_iff)
  have "settled n (mine (dc_nodes dc1) 0 ?names ?dc n) ?dc" if "n \<in> set ?names" for n
  proof -
    have "task_fmt dc1 n = task_fmt dc n"
      using rb_frame_fmt[OF s(2) _ known[OF that]] assms(1) by (simp add: dc_inv_def)
    then show ?thesis
      using s(3,5) same by (simp add: settled_def mine_def) (simp add: task_fmt_def)
  qed
  moreover have "asked (dc_nodes dc1) 0 ?dc"
    using holds_update[OF a1(2)] config_update[OF a1(2)] assms(4) same by (simp add: asked_def)
  ultimately show ?thesis
    using rebalance_loop_settled[of ?dc "dc_nodes dc1" 0 ?names no_counts] s(1) assms(4) same
      doRebalanced_loop[OF ne a1(1)] known
    by (auto simp: no_counts_def dc_inv_def)
qed

end

end
