(* ===== verification/Scheduler.thy ===== *)
theory Scheduler
  imports Rebalance
begin

text \<open>
  The scheduler as a transition system: one step per section under \<open>tasksRWMux\<close>, in any
  order, whatever the registry answers. Every API call and every turn of a background
  goroutine is a sequence of such steps. The properties of the schedule are proved for all
  reachable states.
\<close>

section \<open>Steps\<close>

inductive sched_step :: "'k cron_ops \<Rightarrow> 'a assigner_ops \<Rightarrow> ('k, 'a) dcron \<Rightarrow> ('k, 'a) dcron \<Rightarrow> bool"
  for C :: "'k cron_ops" and A :: "'a assigner_ops" where
  add: "sched_step C A dc (snd (addJob n f t os dc))"
| add_meta: "Name tm \<notin> dc_deletedTasks dc \<Longrightarrow> map_of (dc_allTasks dc) (Name tm) = None \<Longrightarrow>
    sched_step C A dc (put_task (Name tm) (dynamic_task tm) dc)"
| force_add: "sched_step C A dc (snd (ForceAddTask_locked C n f t os dc))"
| force_add_meta: "sched_step C A dc (ForceAddTaskMeta_locked C tm dc)"
| reuse: "sched_step C A dc (dc\<lparr>dc_deletedTasks := dc_deletedTasks dc - {n}\<rparr>)"
| mark: "sched_step C A dc (snd (MarkTaskDeleted_locked C n dc))"
| cleanup: "sched_step C A dc (CleanupTask_locked C n dc)"
| cleanup_all: "sched_step C A dc (ForceCleanupAllTasks_locked C dc)"
| task_event: "handleTaskEvent C event dc = Inr dc' \<Longrightarrow> sched_step C A dc dc'"
| reload_tasks: "sched_step C A dc (reload_each tasks dc)"
| reload_deleted: "sched_step C A dc (dc\<lparr>dc_deletedTasks := set names\<rparr>)"
| reload_nodes: "sched_step C A dc (snd (reloadNodes_locked nodes dc))"
| rebalance: "doRebalanced C A dc = Inr (dc', c) \<Longrightarrow> sched_step C A dc dc'"
| signal: "sched_step C A dc (dc\<lparr>dc_rebalancedChan := r\<rparr>)"
| lifecycle: "sched_step C A dc (dc\<lparr>dc_running := r, dc_shutdownChan := s, dc_done := d\<rparr>)"
| cron_start: "sched_step C A dc (dc\<lparr>dc_cr := cr_Start C (dc_cr dc)\<rparr>)"
| cron_stop: "sched_step C A dc (dc\<lparr>dc_cr := cr_Stop C (dc_cr dc)\<rparr>)"

abbreviation sched_steps :: "'k cron_ops \<Rightarrow> 'a assigner_ops \<Rightarrow> ('k, 'a) dcron \<Rightarrow> ('k, 'a) dcron \<Rightarrow> bool" where
  "sched_steps C A \<equiv> (sched_step C A)\<^sup>*\<^sup>*"

definition sched_reachable ::
  "'k cron_ops \<Rightarrow> 'a assigner_ops \<Rightarrow> ('r assigner \<Rightarrow> 'a) \<Rightarrow> ('k, 'a) dcron \<Rightarrow> bool" where
  "sched_reachable C A iface dc \<longleftrightarrow> (\<exists>addrs nano rnd opts dc0.
     NewDcron C A iface addrs nano rnd opts = Inr dc0 \<and> sched_steps C A dc0 dc)"

section \<open>Rebalancing whatever the assigner does\<close>

text \<open>The invariant survives even an assigner that keeps no contract.\<close>

context cron_engine
begin

lemma rebalance_task_inv:
  assumes "sched_inv dc" and "rebalance_task C A n (dc, c) = Inr (dc', c')"
  shows "sched_inv dc'"
proof -
  obtain a where a: "map_of (dc_allTasks dc) n = Some a"
    using assms(2) by (auto simp: rebalance_task_def split: option.splits)
  obtain b x where r: "(if n \<notin> dc_deletedTasks dc then shouldRunTask A n dc else Inr (False, dc)) =
      Inr (b, dc\<lparr>dc_assigner := x\<rparr>)"
    and d: "decide n a b (dc\<lparr>dc_assigner := x\<rparr>, c) = (dc', c')"
  proof -
    obtain b dc1 where 1: "(if n \<notin> dc_deletedTasks dc then shouldRunTask A n dc else Inr (False, dc)) = Inr (b, dc1)"
      using assms(2) a by (auto simp: rebalance_task_def go_bind_Inr_iff simp del: split_paired_Ex)
    moreover have "\<exists>x. dc1 = dc\<lparr>dc_assigner := x\<rparr>"
      using 1 by (auto simp: shouldRunTask_def go_bind_Inr_iff split: if_splits option.splits
          intro: exI[of _ "dc_assigner dc"])
    then obtain x where dc1: "dc1 = dc\<lparr>dc_assigner := x\<rparr>" by blast
    have "existedInCron C i dc1 = existedInCron C i dc" for i by (simp add: dc1 existedInCron_def)
    then have "decide n a b (dc1, c) = (dc', c')"
      using assms(2) a 1 existed_iff[OF assms(1) a] dc1
      by (auto simp: rebalance_task_def decide_def Let_def split: if_splits)
    with that 1 dc1 show thesis by blast
  qed
  show ?thesis using decide_spec[of "dc\<lparr>dc_assigner := x\<rparr>", OF _ _ d] assms(1) a by simp
qed

lemma rebalance_loop_inv:
  "sched_inv dc \<Longrightarrow> rebalance_loop C A names (dc, c) = Inr (dc', c') \<Longrightarrow> sched_inv dc'"
proof (induction names arbitrary: dc c)
  case (Cons n names)
  then obtain dc1 c1 where "rebalance_task C A n (dc, c) = Inr (dc1, c1)"
    "rebalance_loop C A names (dc1, c1) = Inr (dc', c')"
    by (auto simp: go_bind_Inr_iff)
  with Cons rebalance_task_inv show ?case by blast
qed simp

lemma doRebalanced_inv:
  "sched_inv dc \<Longrightarrow> doRebalanced C A dc = Inr (dc', c) \<Longrightarrow> sched_inv dc'"
  using rebalance_loop_inv[of "dc\<lparr>dc_assigner := x\<rparr>" A "sort (map fst (dc_allTasks dc))" no_counts dc' c for x]
  by (simp add: doRebalanced_def Let_def split: if_splits option.splits)

lemma step_inv: "sched_step C A dc dc' \<Longrightarrow> sched_inv dc \<Longrightarrow> sched_inv dc'"
proof (induction rule: sched_step.induct)
  case (add dc n f t os)
  then show ?case by (simp add: addJob_def inv_addJobLocked)
next
  case (add_meta tm dc)
  then show ?case using unknown_unassigned[of dc "Name tm"] by (intro inv_put) (auto simp: dynamic_task_def)
next
  case (reload_nodes dc nodes)
  then show ?case by (simp add: reloadNodes_locked_def)
next
  case (cleanup_all dc)
  then show ?case using inv_ForceCleanupAllTasks by blast
next
  case (cron_start dc)
  then show ?case by (simp add: dc_inv_def linked_def engine_laws)
next
  case (cron_stop dc)
  then show ?case by (simp add: dc_inv_def linked_def engine_laws)
qed (use inv_ForceAddTask inv_ForceAddTaskMeta inv_MarkTaskDeleted inv_CleanupTask
    inv_handleTaskEvent inv_reload_each doRebalanced_inv in \<open>simp_all\<close>)

lemma steps_inv: "sched_steps C A dc dc' \<Longrightarrow> sched_inv dc \<Longrightarrow> sched_inv dc'"
  by (induction rule: rtranclp_induct) (auto intro: step_inv)

lemma apply_options_empty:
  "apply_options iface opts dc = Inr dc' \<Longrightarrow> dc_allTasks dc = [] \<Longrightarrow> dc_assignedTasks dc = [] \<Longrightarrow>
   dc_allTasks dc' = [] \<and> dc_assignedTasks dc' = []"
proof (induction opts arbitrary: dc)
  case (Cons opt opts)
  then show ?case by (cases opt) (auto simp: go_bind_Inr_iff)
qed simp

lemma NewDcron_inv:
  assumes "NewDcron C A iface addrs nano rnd opts = Inr dc"
  shows "sched_inv dc"
proof -
  obtain dc1 where "apply_options iface opts (empty_dcron (cr_New C [])) = Inr dc1"
    and dc: "dc_cr dc = cr_New C (dc_cOptions dc1)" "dc_allTasks dc = dc_allTasks dc1"
      "dc_assignedTasks dc = dc_assignedTasks dc1"
    using assms by (auto simp: NewDcron_def go_bind_Inr_iff Let_def)
  then have "dc_allTasks dc1 = [] \<and> dc_assignedTasks dc1 = []"
    using apply_options_empty by (fastforce simp: empty_dcron_def)
  then show ?thesis
    by (simp add: dc dc_inv_def linked_def names_ok_def view_def ran_def entries_new)
qed

lemma reachable_inv: "sched_reachable C A iface dc \<Longrightarrow> sched_inv dc"
  using NewDcron_inv steps_inv unfolding sched_reachable_def by blast

end

section \<open>The scheduler with a built-in assigner\<close>

locale builtin_scheduler = cron_engine C valid issued + builtin_assigner R a0
  for C :: "'k cron_ops" and valid :: "'k \<Rightarrow> string \<Rightarrow> bool" and issued :: "'k \<Rightarrow> nat set"
    and R :: "'r ring_ops" and a0 :: "'r assigner"

sublocale builtin_scheduler \<subseteq> rb: rebalancer C valid issued "builtin_ops R" "assigner_like a0"
  "assigner_ok a0" "\<lambda>a ns k. assigner_like a0 a \<and> assigner_holds R a ns k" "assigner_owner R a0"
proof -
  have "task_assigner (assigner_UpdateNodes R) (assigner_ShouldRun R) (assigner_like a0) (assigner_ok a0)
      (\<lambda>a ns k. assigner_like a0 a \<and> assigner_holds R a ns k) (assigner_owner R a0)"
    by (rule builtin.task_assigner_axioms)
  then show "rebalancer C valid issued (builtin_ops R) (assigner_like a0) (assigner_ok a0)
      (\<lambda>a ns k. assigner_like a0 a \<and> assigner_holds R a ns k) (assigner_owner R a0)"
    using cron_engine_axioms by (simp add: rebalancer_def builtin_ops_def)
qed

context builtin_scheduler
begin

lemma builtin_rebalance:
  assumes "sched_reachable C (builtin_ops R) iface dc"
    and "dc_assigner dc = Some a" and "assigner_like a0 a" and "assigner_ok a0 (dc_nodes dc)"
  shows "\<exists>dc' c. doRebalanced C (builtin_ops R) dc = Inr (dc', c) \<and> rb_frame dc dc' \<and>
    (\<forall>n. map_of (dc_assignedTasks dc') n \<noteq> None \<longleftrightarrow>
       map_of (plan (assigner_owner R a0 (dc_nodes dc)) (dc_deletedTasks dc) 0
         (sort (map fst (dc_allTasks dc)))) n = Some (dc_nodeID dc) \<and>
       valid (dc_cr dc) (task_fmt dc n))"
  using rb.doRebalanced_spec[OF reachable_inv[OF assms(1)] assms(2-4)] by blast

lemma builtin_rebalance_twice:
  assumes "sched_reachable C (builtin_ops R) iface dc"
    and "dc_assigner dc = Some a" and "assigner_like a0 a" and "assigner_ok a0 (dc_nodes dc)"
    and "doRebalanced C (builtin_ops R) dc = Inr (dc1, c1)"
  shows "\<exists>x c2. doRebalanced C (builtin_ops R) dc1 = Inr (dc1\<lparr>dc_assigner := x\<rparr>, c2) \<and>
    rc_assigned c2 = 0 \<and> rc_unassigned c2 = 0"
  using rb.doRebalanced_twice[OF reachable_inv[OF assms(1)] assms(2-5)] .

end

interpretation mem_sched: builtin_scheduler mem_cron_ops mem_valid "\<lambda>k. set (mem_ids k)" point_ring_ops a0 for a0
  by unfold_locales

lemma builtin_schedulerI: "cron_engine C valid issued \<Longrightarrow> consistent_ring R \<Longrightarrow> builtin_scheduler C valid issued R"
  by (simp add: builtin_scheduler_def builtin_assigner_def)

text \<open>A node for the examples: built, given a task, a node list with itself, and rebalanced.\<close>

definition demo_new :: "(mem_cron, point_ring assigner) dcron" where
  "demo_new = projr (NewDcron mem_cron_ops (builtin_ops point_ring_ops) id (Inr []) 5 7
     [WithStrategy StrategyRoundRobin, WithIP ''h''])"

definition demo_added :: "(mem_cron, point_ring assigner) dcron" where
  "demo_added = snd (addJob ''job'' ''@hourly'' (StaticTasker 0) False demo_new)"

definition demo_nodes :: "Node list" where
  "demo_nodes = [demo_node ''h-5-0007'' 1]"

definition demo_ready :: "(mem_cron, point_ring assigner) dcron" where
  "demo_ready = demo_added\<lparr>dc_nodes := demo_nodes\<rparr>"

definition demo_balanced :: "(mem_cron, point_ring assigner) dcron" where
  "demo_balanced = fst (projr (doRebalanced mem_cron_ops (builtin_ops point_ring_ops) demo_ready))"

lemma demo_new_eq: "NewDcron mem_cron_ops (builtin_ops point_ring_ops) id (Inr []) 5 7
     [WithStrategy StrategyRoundRobin, WithIP ''h''] = Inr demo_new"
  by (simp add: demo_new_def NewDcron_def NewAssigner_def Strategy_defs Let_def)

lemma demo_reload: "reloadNodes_locked demo_nodes demo_added = (True, demo_ready)"
proof -
  have "nodes_hash demo_nodes \<noteq> nodes_hash []" by code_simp
  moreover have "dc_nodes demo_added = []" by code_simp
  ultimately show ?thesis by (simp add: reloadNodes_locked_def demo_ready_def)
qed

lemma demo_ready_fields:
  "dc_nodes demo_ready = demo_nodes" "dc_nodeID demo_ready = ''h-5-0007''"
  "dc_allTasks demo_ready = [(''job'', 0)]" "dc_deletedTasks demo_ready = {}"
  "task_fmt demo_ready ''job'' = ''@hourly''"
  by code_simp+

lemma demo_ready_assigner: "dc_assigner demo_ready = Some (RoundRobin NewRoundRobinAssigner)"
proof -
  have "case dc_assigner demo_ready of Some (RoundRobin r) \<Rightarrow> r = NewRoundRobinAssigner | _ \<Rightarrow> False"
    by code_simp
  then show ?thesis by (auto split: option.splits assigner.splits)
qed

lemma demo_balanced_eq:
  obtains c where "doRebalanced mem_cron_ops (builtin_ops point_ring_ops) demo_ready = Inr (demo_balanced, c)"
proof -
  have "\<not> isl (doRebalanced mem_cron_ops (builtin_ops point_ring_ops) demo_ready)" by code_simp
  then show thesis using that unfolding demo_balanced_def by (metis prod.collapse sum.collapse(2))
qed

lemma demo_balanced_fields:
  "cr_Entries mem_cron_ops (dc_cr demo_balanced) = [(1, ''@hourly'', 0)]"
  "dc_assignedTasks demo_balanced = [(''job'', 0)]"
  by code_simp+

lemma demo_steps:
  "sched_steps mem_cron_ops (builtin_ops point_ring_ops) demo_new demo_ready"
  "sched_steps mem_cron_ops (builtin_ops point_ring_ops) demo_new demo_balanced"
proof -
  let ?step = "sched_step mem_cron_ops (builtin_ops point_ring_ops)"
  have "?step demo_new demo_added" unfolding demo_added_def by (rule sched_step.add)
  moreover have "?step demo_added demo_ready" using sched_step.reload_nodes[of mem_cron_ops _ demo_added demo_nodes] by (simp add: demo_reload)
  ultimately show ready: "?step\<^sup>*\<^sup>* demo_new demo_ready"
    by (meson rtranclp.rtrancl_into_rtrancl rtranclp.rtrancl_refl)
  have "?step demo_ready demo_balanced" using demo_balanced_eq sched_step.rebalance by metis
  with ready show "?step\<^sup>*\<^sup>* demo_new demo_balanced" by (rule rtranclp.rtrancl_into_rtrancl)
qed

lemma demo_reachable:
  "sched_reachable mem_cron_ops (builtin_ops point_ring_ops) id demo_ready"
  "sched_reachable mem_cron_ops (builtin_ops point_ring_ops) id demo_balanced"
  unfolding sched_reachable_def using demo_new_eq demo_steps by blast+

section \<open>Properties\<close>

text \<open>
  C2. In every reachable state the cron engine and the task maps agree: the entries of the
  engine are exactly the assigned tasks with their IDs and schedules, every assigned task is a
  known task whose current object has the same ID and the same schedule, and no two known tasks
  share an ID. So no entry is ever leaked or orphaned and no task is scheduled twice on a node,
  whatever the order of API calls, events, reloads and rebalances, and whatever the assigner
  answers.
\<close>

theorem schedule_matches_tasks:
  assumes "cron_engine C valid issued" and "sched_reachable C A iface dc"
  shows "(\<forall>i f a. (i, f, a) \<in> set (cr_Entries C (dc_cr dc)) \<longleftrightarrow>
      (\<exists>n. map_of (dc_assignedTasks dc) n = Some a \<and> task_id (dc_store dc ! a) = i \<and>
         CronFormat (task_metadata (dc_store dc ! a)) = f)) \<and>
    (\<forall>n a. map_of (dc_assignedTasks dc) n = Some a \<longrightarrow>
      task_name (dc_store dc ! a) = n \<and> task_id (dc_store dc ! a) \<noteq> 0 \<and>
      (\<exists>b. map_of (dc_allTasks dc) n = Some b \<and> task_id (dc_store dc ! b) = task_id (dc_store dc ! a) \<and>
         CronFormat (task_metadata (dc_store dc ! b)) = CronFormat (task_metadata (dc_store dc ! a)))) \<and>
    (\<forall>n m a b. map_of (dc_allTasks dc) n = Some a \<longrightarrow> map_of (dc_allTasks dc) m = Some b \<longrightarrow>
      task_id (dc_store dc ! a) \<noteq> 0 \<longrightarrow> task_id (dc_store dc ! b) = task_id (dc_store dc ! a) \<longrightarrow> m = n)"
proof -
  have inv: "dc_inv C valid issued dc"
    using cron_engine.reachable_inv[OF assms] .
  then have "set (cr_Entries C (dc_cr dc)) = ran (view (dc_store dc) (map_of (dc_assignedTasks dc)))"
    by (simp add: dc_inv_def linked_def)
  then have "(i, f, a) \<in> set (cr_Entries C (dc_cr dc)) \<longleftrightarrow>
      (\<exists>n. map_of (dc_assignedTasks dc) n = Some a \<and> task_id (dc_store dc ! a) = i \<and>
         CronFormat (task_metadata (dc_store dc ! a)) = f)" for i f a
    by (auto simp: ran_def view_Some fmt_of_def)
  moreover have "task_name (dc_store dc ! a) = n \<and> task_id (dc_store dc ! a) \<noteq> 0 \<and>
      (\<exists>b. map_of (dc_allTasks dc) n = Some b \<and> task_id (dc_store dc ! b) = task_id (dc_store dc ! a) \<and>
         CronFormat (task_metadata (dc_store dc ! b)) = CronFormat (task_metadata (dc_store dc ! a)))"
    if asg: "map_of (dc_assignedTasks dc) n = Some a" for n a
  proof -
    have "task_name (dc_store dc ! a) = n" using inv asg names_okD(2) by (auto simp: dc_inv_def)
    moreover obtain b where "map_of (dc_allTasks dc) n = Some b"
        "task_id (dc_store dc ! b) = task_id (dc_store dc ! a)"
        "fmt_of (dc_store dc ! b) = fmt_of (dc_store dc ! a)" "task_id (dc_store dc ! a) \<noteq> 0"
      using cron_engine.assigned_known[OF assms(1) inv asg] by blast
    ultimately show ?thesis by (simp add: fmt_of_def)
  qed
  moreover have "m = n" if "map_of (dc_allTasks dc) n = Some a" "map_of (dc_allTasks dc) m = Some b"
      "task_id (dc_store dc ! a) \<noteq> 0" "task_id (dc_store dc ! b) = task_id (dc_store dc ! a)" for n m a b
    using inv that cron_engine.lnkD(6)[OF assms(1), of "dc_cr dc"] by (fastforce simp: dc_inv_def view_Some)
  ultimately show ?thesis by blast
qed

theorem schedule_matches_tasks_witness:
  "(1, ''@hourly'', 0) \<in> set (cr_Entries mem_cron_ops (dc_cr demo_balanced)) \<and>
   (\<exists>n. map_of (dc_assignedTasks demo_balanced) n = Some 0 \<and> task_id (dc_store demo_balanced ! 0) = 1 \<and>
      CronFormat (task_metadata (dc_store demo_balanced ! 0)) = ''@hourly'')"
  using schedule_matches_tasks[OF mem_cron.cron_engine_axioms demo_reachable(2), THEN conjunct1,
      rule_format, of 1 "''@hourly''" 0] demo_balanced_fields(1)
  by simp

text \<open>
  C3. A rebalance with a built-in assigner that accepts the node list returns, and afterwards
  this node runs exactly the tasks that are known, not deleted, planned for it by the assigner
  (asked in the order of the sorted names) and have a schedule the cron engine accepts; task
  lists, deleted names and metadata are untouched.
\<close>

theorem rebalance_exact:
  assumes "cron_engine C valid issued" and "consistent_ring R"
    and "sched_reachable C (builtin_ops R) iface dc"
    and "dc_assigner dc = Some a" and "assigner_ok a (dc_nodes dc)"
  shows "\<exists>dc' c. doRebalanced C (builtin_ops R) dc = Inr (dc', c) \<and>
    (\<forall>n. map_of (dc_assignedTasks dc') n \<noteq> None \<longleftrightarrow>
       map_of (plan (assigner_owner R a (dc_nodes dc)) (dc_deletedTasks dc) 0
         (sort (map fst (dc_allTasks dc)))) n = Some (dc_nodeID dc) \<and>
       valid (dc_cr dc) (task_fmt dc n)) \<and>
    dc_allTasks dc' = dc_allTasks dc \<and> dc_deletedTasks dc' = dc_deletedTasks dc \<and>
    map task_metadata (dc_store dc') = map task_metadata (dc_store dc)"
proof -
  have "builtin_scheduler C valid issued R" using assms(1,2) by (rule builtin_schedulerI)
  from builtin_scheduler.builtin_rebalance[OF this assms(3,4) assigner_like_refl assms(5)]
  show ?thesis by (auto simp: rb_frame_def)
qed

theorem rebalance_exact_witness:
  "\<exists>dc' c. doRebalanced mem_cron_ops (builtin_ops point_ring_ops) demo_ready = Inr (dc', c) \<and>
     map_of (dc_assignedTasks dc') ''job'' \<noteq> None"
proof -
  have "assigner_ok (RoundRobin NewRoundRobinAssigner) (dc_nodes demo_ready)"
    by (simp add: demo_ready_fields demo_nodes_def)
  from rebalance_exact[OF mem_cron.cron_engine_axioms point_ring.consistent_ring_axioms
      demo_reachable(1) demo_ready_assigner this]
  obtain dc' c where "doRebalanced mem_cron_ops (builtin_ops point_ring_ops) demo_ready = Inr (dc', c)"
    and "\<forall>n. map_of (dc_assignedTasks dc') n \<noteq> None \<longleftrightarrow>
       map_of (plan (assigner_owner point_ring_ops (RoundRobin NewRoundRobinAssigner) (dc_nodes demo_ready))
         (dc_deletedTasks demo_ready) 0 (sort (map fst (dc_allTasks demo_ready)))) n = Some (dc_nodeID demo_ready) \<and>
       mem_valid (dc_cr demo_ready) (task_fmt demo_ready n)"
    by blast
  moreover from this(2)[rule_format, of "''job''"] have "map_of (dc_assignedTasks dc') ''job'' \<noteq> None"
    by (simp add: demo_ready_fields mem_valid_def robin_owner_def demo_nodes_def)
  ultimately show ?thesis by blast
qed

text \<open>
  C10. A rebalance is idempotent: a second one in a row assigns and unassigns nothing, and leaves
  the schedule, the task objects and both task maps as they are.
\<close>

theorem rebalance_idempotent:
  assumes "cron_engine C valid issued" and "consistent_ring R"
    and "sched_reachable C (builtin_ops R) iface dc"
    and "dc_assigner dc = Some a" and "assigner_ok a (dc_nodes dc)"
    and "doRebalanced C (builtin_ops R) dc = Inr (dc1, c1)"
  shows "\<exists>x c2. doRebalanced C (builtin_ops R) dc1 = Inr (dc1\<lparr>dc_assigner := x\<rparr>, c2) \<and>
    rc_assigned c2 = 0 \<and> rc_unassigned c2 = 0"
proof -
  have "builtin_scheduler C valid issued R" using assms(1,2) by (rule builtin_schedulerI)
  from builtin_scheduler.builtin_rebalance_twice[OF this assms(3,4) assigner_like_refl assms(5,6)]
  show ?thesis .
qed

theorem rebalance_idempotent_witness:
  "\<exists>x c2. doRebalanced mem_cron_ops (builtin_ops point_ring_ops) demo_balanced =
     Inr (demo_balanced\<lparr>dc_assigner := x\<rparr>, c2) \<and> rc_assigned c2 = 0 \<and> rc_unassigned c2 = 0"
proof -
  have "assigner_ok (RoundRobin NewRoundRobinAssigner) (dc_nodes demo_ready)"
    by (simp add: demo_ready_fields demo_nodes_def)
  moreover obtain c where "doRebalanced mem_cron_ops (builtin_ops point_ring_ops) demo_ready = Inr (demo_balanced, c)"
    by (rule demo_balanced_eq)
  ultimately show ?thesis
    using rebalance_idempotent[OF mem_cron.cron_engine_axioms point_ring.consistent_ring_axioms
        demo_reachable(1) demo_ready_assigner] by blast
qed

end
