(* ===== verification/Registry.thy ===== *)
theory Registry
  imports Driver
begin

text \<open>
  What the scheduler relies on of a registry back end: the lock that \<open>CanRunTask\<close> takes on a
  task and a second (the locale \<open>exec_lock\<close>), and a registry in memory that follows the
  comments of the \<open>Registry\<close> interface in \<open>src/driver.go\<close>, for the examples.
\<close>

section \<open>The execution lock\<close>

text \<open>
  \<open>held g\<close>: the locks that are taken, a task name with a second. A call that succeeds takes the
  lock when nobody has it and says whether it did; a call that fails takes at most that lock.
  \<open>ok_name\<close>: the task names for which the back end keeps this.
\<close>

locale exec_lock =
  fixes canRun :: "string \<Rightarrow> time \<Rightarrow> 'g \<Rightarrow> (error + bool) \<times> 'g"
    and held :: "'g \<Rightarrow> (string \<times> int) set"
    and slot :: "time \<Rightarrow> int"
    and ok_name :: "string \<Rightarrow> bool"
  assumes granted: "ok_name n \<Longrightarrow> canRun n t g = (Inr b, g') \<Longrightarrow>
      b = ((n, slot t) \<notin> held g) \<and> held g' = insert (n, slot t) (held g)"
    and failed: "ok_name n \<Longrightarrow> canRun n t g = (Inl e, g') \<Longrightarrow>
      held g' = held g \<or> held g' = insert (n, slot t) (held g)"
begin

lemma held_mono: "ok_name n \<Longrightarrow> held g \<subseteq> held (snd (canRun n t g))"
  using granted[of n t g] failed[of n t g] by (cases "canRun n t g"; cases "fst (canRun n t g)") auto

text \<open>A call that says yes has taken a lock that was free.\<close>

lemma yes_free: "ok_name n \<Longrightarrow> fst (canRun n t g) = Inr True \<Longrightarrow>
    (n, slot t) \<in> held (snd (canRun n t g)) - held g"
  using granted[of n t g] by (cases "canRun n t g") auto

end

section \<open>A registry in memory\<close>

record mem_state =
  ms_nodes :: "Node list"
  ms_tasks :: "(string \<times> TaskMeta) list"
  ms_deleted :: "string list"
  ms_execs :: "(string \<times> int) list"

definition unix_second :: "time \<Rightarrow> int" where
  "unix_second t = t div Second"

definition mem_update_node :: "string \<Rightarrow> (Node \<Rightarrow> Node) \<Rightarrow> mem_state \<Rightarrow> error option \<times> mem_state" where
  "mem_update_node nid f g =
     (if nid \<in> ID ` set (ms_nodes g)
      then (None, g\<lparr>ms_nodes := map (\<lambda>n. if ID n = nid then f n else n) (ms_nodes g)\<rparr>)
      else (Some ErrNodeNotFound, g))"

definition mem_CanRunTask :: "string \<Rightarrow> time \<Rightarrow> mem_state \<Rightarrow> (error + bool) \<times> mem_state" where
  "mem_CanRunTask n t g =
     (if (n, unix_second t) \<in> set (ms_execs g) then (Inr False, g)
      else (Inr True, g\<lparr>ms_execs := (n, unix_second t) # ms_execs g\<rparr>))"

definition mem_registry :: "mem_state registry_ops" where
  "mem_registry = \<lparr>
     reg_Register = (\<lambda>n g. (None, g\<lparr>ms_nodes := n # filter (\<lambda>m. ID m \<noteq> ID n) (ms_nodes g)\<rparr>)),
     reg_Unregister = (\<lambda>nid g. (None, g\<lparr>ms_nodes := filter (\<lambda>m. ID m \<noteq> nid) (ms_nodes g)\<rparr>)),
     reg_UpdateStatus = (\<lambda>nid s. mem_update_node nid (\<lambda>n. n\<lparr>Status := s\<rparr>)),
     reg_UpdateHeartbeat = (\<lambda>nid now. mem_update_node nid (\<lambda>n. n\<lparr>LastAlive := now\<rparr>)),
     reg_GetNodes = (\<lambda>g. (Inr (ms_nodes g), g)),
     reg_GetWorkingNodes = (\<lambda>g. (Inr (filter (\<lambda>n. Status n = NodeStatusWorking) (ms_nodes g)), g)),
     reg_CleanupExpiredNodes = (\<lambda>timeout now g.
       (None, g\<lparr>ms_nodes := filter (\<lambda>n. now - LastAlive n \<le> timeout) (ms_nodes g)\<rparr>)),
     reg_PutTask = (\<lambda>tm g. (None, g\<lparr>ms_tasks := AList.update (Name tm) tm (ms_tasks g)\<rparr>)),
     reg_MarkTaskDeleted = (\<lambda>n g. (None, g\<lparr>ms_deleted := n # ms_deleted g\<rparr>)),
     reg_RemoveTaskDeleted = (\<lambda>n g. (None, g\<lparr>ms_deleted := filter (\<lambda>m. m \<noteq> n) (ms_deleted g)\<rparr>)),
     reg_ForceCleanupTask = (\<lambda>n g. (None, g\<lparr>ms_tasks := AList.delete n (ms_tasks g),
       ms_deleted := filter (\<lambda>m. m \<noteq> n) (ms_deleted g)\<rparr>)),
     reg_GetAllTasks = (\<lambda>g. (Inr (ms_tasks g), g)),
     reg_GetDeletedTaskNames = (\<lambda>g. (ms_deleted g, g)),
     reg_ForceCleanupAllTasks = (\<lambda>g. (None, g\<lparr>ms_tasks := [], ms_deleted := []\<rparr>)),
     reg_CanRunTask = mem_CanRunTask\<rparr>"

definition mem_empty :: mem_state where
  "mem_empty = \<lparr>ms_nodes = [], ms_tasks = [], ms_deleted = [], ms_execs = []\<rparr>"

interpretation mem_lock: exec_lock "reg_CanRunTask mem_registry" "\<lambda>g. set (ms_execs g)" unix_second "\<lambda>n. True"
  by unfold_locales (auto simp: mem_registry_def mem_CanRunTask_def split: if_splits)

end
