(* ===== verification/Task_Api.thy ===== *)
theory Task_Api
  imports Scheduler Registry
begin

text \<open>
  What the API calls and the task events do to the task lists and the schedule: that each is
  a sequence of the steps of \<open>Scheduler\<close>, and its effect, errors included.
\<close>

section \<open>Shared lemmas\<close>

text \<open>No entry of the cron engine runs a task of that name.\<close>

definition not_scheduled :: "'k cron_ops \<Rightarrow> string \<Rightarrow> ('k, 'a) dcron \<Rightarrow> bool" where
  "not_scheduled C n dc \<longleftrightarrow> (\<forall>(i, f, a) \<in> set (cr_Entries C (dc_cr dc)). task_name (dc_store dc ! a) \<noteq> n)"

lemma put_task_fields [simp]:
  "dc_cr (put_task n t dc) = dc_cr dc" "dc_assignedTasks (put_task n t dc) = dc_assignedTasks dc"
  "dc_deletedTasks (put_task n t dc) = dc_deletedTasks dc" "dc_nodes (put_task n t dc) = dc_nodes dc"
  "dc_store (put_task n t dc) = dc_store dc @ [t]"
  "map_of (dc_allTasks (put_task n t dc)) = (map_of (dc_allTasks dc))(n \<mapsto> length (dc_store dc))"
  by (simp_all add: put_task_def new_task_def alist_simps)

context cron_engine
begin

lemma unassigned_not_scheduled:
  assumes "sched_inv dc" and "map_of (dc_assignedTasks dc) n = None"
  shows "not_scheduled C n dc"
proof -
  have e: "set (cr_Entries C (dc_cr dc)) = ran (view (dc_store dc) (map_of (dc_assignedTasks dc)))"
    and ok: "names_ok (dc_store dc) (map_of (dc_assignedTasks dc))"
    using assms(1) by (auto simp: dc_inv_def linked_def)
  have "task_name (dc_store dc ! a) \<noteq> n" if asg: "map_of (dc_assignedTasks dc) m = Some a" for m a
    using names_okD(2)[OF ok asg] asg assms(2) by auto
  then show ?thesis unfolding not_scheduled_def e by (auto simp: ran_def view_Some)
qed

lemma rebalance_skips_deleted:
  assumes "sched_inv dc" and "n \<in> dc_deletedTasks dc" and "map_of (dc_assignedTasks dc) n = None"
    and "rebalance_loop C A names (dc, c) = Inr (dc', c')"
  shows "map_of (dc_assignedTasks dc') n = None"
  using assms
proof (induction names arbitrary: dc c)
  case (Cons m names)
  then obtain dc1 c1 where step: "rebalance_task C A m (dc, c) = Inr (dc1, c1)"
    and rest: "rebalance_loop C A names (dc1, c1) = Inr (dc', c')"
    by (auto simp: go_bind_Inr_iff)
  have "sched_inv dc1" using rebalance_task_inv[OF Cons.prems(1) step] .
  moreover have "n \<in> dc_deletedTasks dc1 \<and> map_of (dc_assignedTasks dc1) n = None"
  proof (cases "m = n")
    case True
    then show ?thesis
      using step Cons.prems(2,3)
      by (auto simp: rebalance_task_def rebalance_unassign_def alist_simps split: option.splits if_splits)
  next
    case False
    then show ?thesis
      using step Cons.prems(2,3)
      by (auto simp: rebalance_task_def shouldRunTask_def go_bind_Inr_iff rebalance_unassign_def
          rebalance_assign_def set_task_id_def alist_simps Let_def
          split: option.splits if_splits sum.splits prod.splits)
  qed
  ultimately show ?case using Cons.IH rest by blast
qed simp

lemma doRebalanced_skips_deleted:
  assumes "sched_inv dc" and "n \<in> dc_deletedTasks dc" and "map_of (dc_assignedTasks dc) n = None"
    and "doRebalanced C A dc = Inr (dc', c)"
  shows "map_of (dc_assignedTasks dc') n = None"
  using assms rebalance_skips_deleted[of "dc\<lparr>dc_assigner := x\<rparr>" n A "sort (map fst (dc_allTasks dc))" no_counts dc' c for x]
  by (simp add: doRebalanced_def Let_def split: if_splits option.splits)

end

section \<open>The operations as steps\<close>












section \<open>Properties\<close>


text \<open>
  C12. A forced addition cannot fail locally. Once the registry has cleaned the task up, the
  name is no longer marked deleted, it has a new task object with the new schedule and no cron
  entry, whatever was there before, and no other task is touched.
\<close>

theorem force_add_replaces:
  assumes "cron_engine C valid issued" and "sched_reachable C A iface dc"
    and "reg_ForceCleanupTask G n g = (None, g')"
  shows "\<exists>dc'. ForceAddTask G C n f t dc g = (None, dc', g') \<and> n \<notin> dc_deletedTasks dc' \<and>
    (\<exists>a. map_of (dc_allTasks dc') n = Some a \<and> dc_store dc' ! a =
       \<lparr>task_name = n, task_tasker = t, task_id = 0, task_metadata = static_meta n f False\<rparr>) \<and>
    map_of (dc_assignedTasks dc') n = None \<and> not_scheduled C n dc' \<and>
    (\<forall>m. m \<noteq> n \<longrightarrow> map_of (dc_allTasks dc') m = map_of (dc_allTasks dc) m \<and>
       map_of (dc_assignedTasks dc') m = map_of (dc_assignedTasks dc) m \<and>
       (m \<in> dc_deletedTasks dc' \<longleftrightarrow> m \<in> dc_deletedTasks dc))"
proof -
  let ?t = "\<lparr>task_name = n, task_tasker = t, task_id = 0, task_metadata = static_meta n f False\<rparr>"
  let ?dc1 = "(unassign_locked C n dc)\<lparr>dc_allTasks := AList.delete n (dc_allTasks dc),
    dc_deletedTasks := dc_deletedTasks dc - {n}\<rparr>"
  have locked: "ForceAddTask_locked C n f t False dc = (None, put_task n ?t ?dc1)"
    by (simp add: ForceAddTask_locked_def addJobLocked_def put_task_def new_task_def alist_simps)
  have inv: "dc_inv C valid issued (put_task n ?t ?dc1)"
    using cron_engine.inv_ForceAddTask[OF assms(1) cron_engine.reachable_inv[OF assms(1,2)], of n f t False]
    by (simp add: locked)
  have asg: "map_of (dc_assignedTasks (put_task n ?t ?dc1)) n = None" by simp
  have "ForceAddTask G C n f t dc g = (None, put_task n ?t ?dc1, g')"
    using assms(3) by (simp add: ForceAddTask_def locked)
  moreover have "not_scheduled C n (put_task n ?t ?dc1)"
    using cron_engine.unassigned_not_scheduled[OF assms(1) inv asg] .
  ultimately show ?thesis by (intro exI[of _ "put_task n ?t ?dc1"]) (auto simp: alist_simps)
qed

theorem force_add_replaces_witness:
  "\<exists>dc'. ForceAddTask mem_registry mem_cron_ops ''job'' ''@daily'' (StaticTasker 1) demo_balanced mem_empty =
     (None, dc', mem_empty) \<and> map_of (dc_assignedTasks dc') ''job'' = None \<and>
     not_scheduled mem_cron_ops ''job'' dc'"
proof -
  have "reg_ForceCleanupTask mem_registry ''job'' mem_empty = (None, mem_empty)"
    by (simp add: mem_registry_def mem_empty_def)
  from force_add_replaces[OF mem_cron.cron_engine_axioms demo_reachable(2) this, of "''@daily''" "StaticTasker 1"]
  show ?thesis by blast
qed




definition demo_meta :: "string \<Rightarrow> TaskMeta" where
  "demo_meta f = (static_meta ''job'' f False)\<lparr>Payload := ''v2''\<rparr>"


text \<open>
  A put event with a new schedule takes the old entry off the cron engine and leaves a new
  task object without an ID, so that the next rebalance schedules the new metadata.
\<close>

theorem put_event_reschedules:
  assumes "cron_engine C valid issued" and "sched_reachable C A iface dc"
    and "map_of (dc_assignedTasks dc) (Name tm) = Some a"
    and "CronFormat tm \<noteq> CronFormat (task_metadata (dc_store dc ! a))"
  shows "\<exists>dc'. handleTaskEvent C \<lparr>TE_Type = TaskEventTypePut, TE_Task = tm\<rparr> dc = Inr dc' \<and>
    not_scheduled C (Name tm) dc' \<and> map_of (dc_assignedTasks dc') (Name tm) = None \<and>
    (\<exists>b. map_of (dc_allTasks dc') (Name tm) = Some b \<and> dc_store dc' ! b = dynamic_task tm)"
proof -
  note inv = cron_engine.reachable_inv[OF assms(1,2)]
  obtain b where b: "map_of (dc_allTasks dc) (Name tm) = Some b" "task_id (dc_store dc ! b) \<noteq> 0"
      "CronFormat (task_metadata (dc_store dc ! b)) \<noteq> CronFormat tm"
    using cron_engine.assigned_known[OF assms(1) inv assms(3)] assms(4) unfolding fmt_of_def by metis
  have len: "b < length (dc_store dc)" using inv b(1) names_okD(1) by (auto simp: dc_inv_def)
  let ?dc1 = "set_task_id b 0 (dc\<lparr>dc_cr := cr_Remove C (task_id (dc_store dc ! b)) (dc_cr dc),
    dc_assignedTasks := AList.delete (Name tm) (dc_assignedTasks dc)\<rparr>)"
  have h: "handleTaskEvent C \<lparr>TE_Type = TaskEventTypePut, TE_Task = tm\<rparr> dc =
      Inr (put_task (Name tm) (dynamic_task tm) ?dc1)"
    using b len by (simp add: handleTaskEvent_def Let_def set_task_id_def dynamic_task_def)
  have asg: "map_of (dc_assignedTasks (put_task (Name tm) (dynamic_task tm) ?dc1)) (Name tm) = None"
    by (simp add: set_task_id_def alist_simps)
  show ?thesis
    using h asg cron_engine.unassigned_not_scheduled[OF assms(1) cron_engine.inv_handleTaskEvent[OF assms(1) inv h] asg]
    by (intro exI[of _ "put_task (Name tm) (dynamic_task tm) ?dc1"]) simp
qed

theorem put_event_reschedules_witness:
  "\<exists>dc'. handleTaskEvent mem_cron_ops \<lparr>TE_Type = TaskEventTypePut, TE_Task = demo_meta ''@daily''\<rparr> demo_balanced
     = Inr dc' \<and> not_scheduled mem_cron_ops ''job'' dc'"
proof -
  have "map_of (dc_assignedTasks demo_balanced) (Name (demo_meta ''@daily'')) = Some 0"
    and "CronFormat (demo_meta ''@daily'') \<noteq> CronFormat (task_metadata (dc_store demo_balanced ! 0))"
    by code_simp+
  from put_event_reschedules[OF mem_cron.cron_engine_axioms demo_reachable(2) this]
  show ?thesis by (auto simp: demo_meta_def static_meta_def)
qed

text \<open>
  C21. A put event with an unchanged schedule replaces the metadata in the task list but not in
  the cron engine: the entry still runs the old task object, and that object still has the old
  metadata.
\<close>

theorem put_event_keeps_old_job:
  assumes "cron_engine C valid issued" and "sched_reachable C A iface dc"
    and "map_of (dc_assignedTasks dc) (Name tm) = Some a"
    and "CronFormat tm = CronFormat (task_metadata (dc_store dc ! a))"
  shows "\<exists>dc'. handleTaskEvent C \<lparr>TE_Type = TaskEventTypePut, TE_Task = tm\<rparr> dc = Inr dc' \<and>
    (\<exists>b. map_of (dc_allTasks dc') (Name tm) = Some b \<and> task_metadata (dc_store dc' ! b) = tm) \<and>
    cr_Entries C (dc_cr dc') = cr_Entries C (dc_cr dc) \<and>
    (task_id (dc_store dc ! a), CronFormat tm, a) \<in> set (cr_Entries C (dc_cr dc')) \<and>
    dc_store dc' ! a = dc_store dc ! a"
proof -
  note inv = cron_engine.reachable_inv[OF assms(1,2)]
  obtain b where b: "map_of (dc_allTasks dc) (Name tm) = Some b"
      "task_id (dc_store dc ! b) = task_id (dc_store dc ! a)"
      "CronFormat (task_metadata (dc_store dc ! b)) = CronFormat tm"
    using cron_engine.assigned_known[OF assms(1) inv assms(3)] assms(4) unfolding fmt_of_def by metis
  let ?dc' = "put_task (Name tm) ((dynamic_task tm)\<lparr>task_id := task_id (dc_store dc ! b)\<rparr>) dc"
  have h: "handleTaskEvent C \<lparr>TE_Type = TaskEventTypePut, TE_Task = tm\<rparr> dc = Inr ?dc'"
    using b by (simp add: handleTaskEvent_def Let_def)
  have len: "a < length (dc_store dc)" using inv assms(3) names_okD(1) by (auto simp: dc_inv_def)
  have "set (cr_Entries C (dc_cr dc)) = ran (view (dc_store dc) (map_of (dc_assignedTasks dc)))"
    using inv by (simp add: dc_inv_def linked_def)
  moreover have "view (dc_store dc) (map_of (dc_assignedTasks dc)) (Name tm) =
      Some (task_id (dc_store dc ! a), CronFormat tm, a)"
    using assms(3,4) by (simp add: view_Some fmt_of_def)
  ultimately have "(task_id (dc_store dc ! a), CronFormat tm, a) \<in> set (cr_Entries C (dc_cr dc))"
    by (metis ranI)
  then show ?thesis
    using h len by (intro exI[of _ ?dc']) (simp add: nth_append dynamic_task_def)
qed

theorem put_event_keeps_old_job_witness:
  "Payload (task_metadata (dc_store demo_balanced ! 0)) = [] \<and>
   (\<exists>dc'. handleTaskEvent mem_cron_ops \<lparr>TE_Type = TaskEventTypePut, TE_Task = demo_meta ''@hourly''\<rparr> demo_balanced
     = Inr dc' \<and> (1, ''@hourly'', 0) \<in> set (cr_Entries mem_cron_ops (dc_cr dc')) \<and>
     dc_store dc' ! 0 = dc_store demo_balanced ! 0)"
proof -
  have "map_of (dc_assignedTasks demo_balanced) (Name (demo_meta ''@hourly'')) = Some 0"
    and "CronFormat (demo_meta ''@hourly'') = CronFormat (task_metadata (dc_store demo_balanced ! 0))"
    and "task_id (dc_store demo_balanced ! 0) = 1" "CronFormat (demo_meta ''@hourly'') = ''@hourly''"
    and "Payload (task_metadata (dc_store demo_balanced ! 0)) = []"
    by code_simp+
  with put_event_keeps_old_job[OF mem_cron.cron_engine_axioms demo_reachable(2) this(1,2)]
  show ?thesis by auto
qed

end
