(* ===== verification/Execution.thy ===== *)
theory Execution
  imports Task_Api
begin

text \<open>
  The run of a task (\<open>task.Run\<close> of \<open>src/dcron.go\<close>) and the life of the service (\<open>Start\<close>,
  \<open>Stop\<close> and \<open>waitForShutdown\<close>): the models and what they guarantee.
\<close>

section \<open>Running a task\<close>

text \<open>What a run does that others can see: the user's code is called, an error is handed to the
  error handler, a panic is recovered.\<close>

datatype run_event = RanTask string | Reported error | Recovered

text \<open>\<open>user\<close> says how the user's static taskers end.\<close>

definition run_tasker :: "(nat \<Rightarrow> outcome) \<Rightarrow> task \<Rightarrow> ('k, 'a) dcron \<Rightarrow> outcome" where
  "run_tasker user t dc =
     (case task_tasker t of
        StaticTasker i \<Rightarrow> user i
      | DynamicTasker \<Rightarrow> (case dc_taskRunFunc dc of None \<Rightarrow> RunOk | Some h \<Rightarrow> h (task_metadata t)))"

text \<open>The calls of \<open>errHandler\<close>; the second result is false when the handler panics.\<close>

definition report_error :: "error option \<Rightarrow> TaskMeta \<Rightarrow> ('k, 'a) dcron \<Rightarrow> run_event list \<times> bool" where
  "report_error err tm dc =
     (case err of
        None \<Rightarrow> ([], True)
      | Some e \<Rightarrow> (case dc_errHandler dc of
            None \<Rightarrow> ([], True)
          | Some h \<Rightarrow> (if h tm e = RunPanic then ([Reported e, Recovered], False) else ([Reported e], True))))"

definition post_actions ::
  "'g registry_ops \<Rightarrow> 'k cron_ops \<Rightarrow> task \<Rightarrow> ('k, 'a) dcron \<Rightarrow> 'g \<Rightarrow> run_event list \<times> ('k, 'a) dcron \<times> 'g"
where
  "post_actions G C t dc g =
     (let tm = task_metadata t in
      if OneShot tm \<or> ExecutedAndMarkDeleted tm
      then case MarkTaskDeleted G C (task_name t) dc g of
             (err, dc, g) \<Rightarrow> (fst (report_error err tm dc), dc, g)
      else if ExecutedAndCleanup tm
      then case CleanupTask G C (task_name t) dc g of
             (err, dc, g) \<Rightarrow> (fst (report_error err tm dc), dc, g)
      else ([], dc, g))"

definition outcome_error :: "outcome \<Rightarrow> error option" where
  "outcome_error r = (case r of RunErr e \<Rightarrow> Some e | _ \<Rightarrow> None)"

definition task_Run ::
  "'g registry_ops \<Rightarrow> 'k cron_ops \<Rightarrow> (nat \<Rightarrow> outcome) \<Rightarrow> time \<Rightarrow> addr \<Rightarrow> ('k, 'a) dcron \<Rightarrow> 'g \<Rightarrow>
   run_event list \<times> ('k, 'a) dcron \<times> 'g" where
  "task_Run G C user now a dc g =
     (let t = dc_store dc ! a in
      if isDeletedTask (task_name t) dc then ([], dc, g)
      else case reg_CanRunTask G (task_name t) now g of
        (Inl err, g) \<Rightarrow> ([], dc, g)
      | (Inr False, g) \<Rightarrow> ([], dc, g)
      | (Inr True, g) \<Rightarrow>
          let r = run_tasker user t dc in
          if r = RunPanic then ([RanTask (task_name t), Recovered], dc, g)
          else case report_error (outcome_error r) (task_metadata t) dc of
            (ev, False) \<Rightarrow> (RanTask (task_name t) # ev, dc, g)
          | (ev, True) \<Rightarrow> (case post_actions G C t dc g of
              (ev2, dc, g) \<Rightarrow> (RanTask (task_name t) # ev @ ev2, dc, g)))"

definition executed :: "run_event list \<Rightarrow> bool" where
  "executed ev \<longleftrightarrow> (\<exists>n. RanTask n \<in> set ev)"

section \<open>The life of the service\<close>

text \<open>The goroutines \<open>asyncWork\<close> starts.\<close>

datatype worker = Heartbeat | WatchNodeEvent | WatchTaskEvent | WatchDeletedTaskEvent | Rebalanced

definition asyncWork :: "worker list" where
  "asyncWork = [Heartbeat, WatchNodeEvent, WatchTaskEvent, WatchDeletedTaskEvent, Rebalanced]"

text \<open>\<open>Start\<close> up to its blocking call: it has returned an error, or waits for the shutdown.\<close>

datatype start_result = StartErr error | Waiting

definition self_node :: "time \<Rightarrow> ('k, 'a) dcron \<Rightarrow> Node" where
  "self_node now dc = \<lparr>ID = dc_nodeID dc, IP = dc_nodeIP dc, Hostname = [], LastAlive = now,
     CreateTime = now, Status = NodeStatusStarting, Weight = dc_weight dc\<rparr>"

definition Start ::
  "'g registry_ops \<Rightarrow> 'k cron_ops \<Rightarrow> time \<Rightarrow> ('k, 'a) dcron \<Rightarrow> 'g \<Rightarrow>
   start_result \<times> worker list \<times> ('k, 'a) dcron \<times> 'g" where
  "Start G C now dc g =
     (if dc_running dc then (StartErr ErrDcronAlreadyRunning, [], dc, g)
      else let dc = dc\<lparr>dc_running := True\<rparr> in
        case reg_Register G (self_node now dc) g of
          (Some err, g) \<Rightarrow> (StartErr (ErrRegistration err), [], dc, g)
        | (None, g) \<Rightarrow>
            (case prepareWork G dc g of (dc, g) \<Rightarrow>
              let dc = dc\<lparr>dc_cr := cr_Start C (dc_cr dc)\<rparr> in
              case reg_UpdateStatus G (dc_nodeID dc) NodeStatusWorking g of
                (Some err, g) \<Rightarrow> (StartErr (ErrStatusUpdate (dc_nodeID dc) err), asyncWork, dc, g)
              | (None, g) \<Rightarrow> (Waiting, asyncWork, dc, g)))"

definition Stop :: "('k, 'a) dcron \<Rightarrow> (error option \<times> ('k, 'a) dcron) go" where
  "Stop dc =
     (if \<not> dc_running dc then Inr (Some ErrDcronAlreadyStopped, dc)
      else let dc = dc\<lparr>dc_running := False\<rparr> in
        if dc_shutdownChan dc then Inl CloseOfClosedChannel
        else Inr (None, dc\<lparr>dc_shutdownChan := True\<rparr>))"

text \<open>\<open>waitForShutdown\<close>: \<open>None\<close> while neither a signal has come nor the channel is closed. The
  errors of the registry are logged only.\<close>

definition waitForShutdown ::
  "'g registry_ops \<Rightarrow> 'k cron_ops \<Rightarrow> bool \<Rightarrow> ('k, 'a) dcron \<Rightarrow> 'g \<Rightarrow> (error list \<times> ('k, 'a) dcron \<times> 'g) option"
where
  "waitForShutdown G C sig dc g =
     (if sig \<or> dc_shutdownChan dc
      then case reg_UpdateStatus G (dc_nodeID dc) NodeStatusLeaving g of (e1, g) \<Rightarrow>
        let dc = dc\<lparr>dc_cr := cr_Stop C (dc_cr dc)\<rparr> in
        case reg_Unregister G (dc_nodeID dc) g of (e2, g) \<Rightarrow>
          Some (List.map_filter id [e1, e2], dc\<lparr>dc_done := True\<rparr>, g)
      else None)"

section \<open>At most one run per task and second\<close>

text \<open>A history of runs on any nodes of the cluster: \<open>G\<close> is the registry client of the node, \<open>env\<close>
  what the rest of the cluster does to the registry before the run. The result lists the runs that
  called the user's code.\<close>

primrec run_history :: "(time \<Rightarrow> int) \<Rightarrow> 'k cron_ops \<Rightarrow> (nat \<Rightarrow> outcome) \<Rightarrow>
    ('g registry_ops \<times> ('g \<Rightarrow> 'g) \<times> time \<times> addr \<times> ('k, 'a) dcron) list \<Rightarrow> 'g \<Rightarrow> (string \<times> int) list" where
  "run_history slot C user [] g = []"
| "run_history slot C user (x # xs) g =
     (case x of (G, env, now, a, dc) \<Rightarrow>
        case task_Run G C user now a dc (env g) of (ev, dc', g') \<Rightarrow>
          (if executed ev then [(task_name (dc_store dc ! a), slot now)] else []) @
          run_history slot C user xs g')"

text \<open>The lock a run asks for, and a history in which nobody releases a lock before the last run
  that asks for it.\<close>

definition run_lock_of ::
  "(time \<Rightarrow> int) \<Rightarrow> 'g registry_ops \<times> ('g \<Rightarrow> 'g) \<times> time \<times> addr \<times> ('k, 'a) dcron \<Rightarrow> string \<times> int" where
  "run_lock_of slot x = (case x of (G, env, now, a, dc) \<Rightarrow> (task_name (dc_store dc ! a), slot now))"

primrec locks_kept :: "('g \<Rightarrow> (string \<times> int) set) \<Rightarrow> (time \<Rightarrow> int) \<Rightarrow>
    ('g registry_ops \<times> ('g \<Rightarrow> 'g) \<times> time \<times> addr \<times> ('k, 'a) dcron) list \<Rightarrow> bool" where
  "locks_kept held slot [] \<longleftrightarrow> True"
| "locks_kept held slot (x # xs) \<longleftrightarrow>
     (\<forall>y \<in> set (x # xs). \<forall>g. run_lock_of slot y \<in> held g \<longrightarrow> run_lock_of slot y \<in> held (fst (snd x) g)) \<and>
     locks_kept held slot xs"

text \<open>
  A registry whose execution lock keeps its contract and whose other calls in a run release no
  lock, for the task names it can tell from lock keys.
\<close>

locale run_registry = exec_lock "reg_CanRunTask G" held slot ok_name
  for G :: "'g registry_ops" and held :: "'g \<Rightarrow> (string \<times> int) set" and slot :: "time \<Rightarrow> int"
    and ok_name :: "string \<Rightarrow> bool" +
  assumes mark_held: "ok_name n \<Longrightarrow> held g \<subseteq> held (snd (reg_MarkTaskDeleted G n g))"
    and cleanup_held: "ok_name n \<Longrightarrow> held g \<subseteq> held (snd (reg_ForceCleanupTask G n g))"
begin

lemma post_actions_held:
  "ok_name (task_name t) \<Longrightarrow> post_actions G C t dc g = (ev, dc', g') \<Longrightarrow> held g \<subseteq> held g'"
  using mark_held[of "task_name t" g] cleanup_held[of "task_name t" g]
  by (auto simp: post_actions_def MarkTaskDeleted_def CleanupTask_def Let_def
      split: prod.splits option.splits if_splits)

text \<open>A run executes only under a lock that was free, and leaves it taken.\<close>

lemma report_no_run: "RanTask n \<notin> set (fst (report_error err tm dc))"
  by (auto simp: report_error_def split: option.splits)

lemma post_no_run: "post_actions G C t dc g = (ev, dc', g') \<Longrightarrow> RanTask n \<notin> set ev"
  using report_no_run[of n] by (auto simp: post_actions_def Let_def split: prod.splits if_splits)

lemma run_lock:
  assumes "task_Run G C user now a dc g = (ev, dc', g')" and "ok_name (task_name (dc_store dc ! a))"
  shows "held g \<subseteq> held g' \<and>
    (executed ev \<longrightarrow> (task_name (dc_store dc ! a), slot now) \<in> held g' - held g)"
proof -
  let ?t = "dc_store dc ! a"
  obtain r g1 where c: "reg_CanRunTask G (task_name ?t) now g = (r, g1)" by fastforce
  have mono: "held g \<subseteq> held g1" using held_mono[OF assms(2), of g now] by (simp add: c)
  show ?thesis
  proof (cases "isDeletedTask (task_name ?t) dc \<or> r \<noteq> Inr True")
    case True
    then show ?thesis
      using assms(1) c mono by (auto simp: task_Run_def executed_def Let_def split: sum.splits bool.splits if_splits)
  next
    case False
    then have "(task_name ?t, slot now) \<in> held g1 - held g" using yes_free[OF assms(2), of now g] c by simp
    moreover have "held g1 \<subseteq> held g'"
      using False assms(1) c post_actions_held[OF assms(2), of C dc g1]
      by (auto simp: task_Run_def Let_def split: prod.splits bool.splits if_splits)
    ultimately show ?thesis using mono by blast
  qed
qed

end

interpretation mem_run: run_registry mem_registry "\<lambda>g. set (ms_execs g)" unix_second "\<lambda>n. True"
  by unfold_locales (auto simp: mem_registry_def)

lemma run_history_locks: "set (run_history slot C user xs g) \<subseteq> run_lock_of slot ` set xs"
  by (induction xs arbitrary: g) (auto simp: run_lock_of_def split: prod.splits)

lemma run_history_free:
  assumes "\<forall>x \<in> set xs. run_registry (fst x) held slot ok_name \<and> ok_name (fst (run_lock_of slot x))"
    and "locks_kept held slot xs"
  shows "set (run_history slot C user xs g) \<inter> held g = {} \<and> distinct (run_history slot C user xs g)"
  using assms
proof (induction xs arbitrary: g)
  case (Cons x xs)
  obtain G env now a dc where x: "x = (G, env, now, a, dc)" by (cases x)
  obtain ev dc' g' where r: "task_Run G C user now a dc (env g) = (ev, dc', g')"
    using prod_cases3 by blast
  let ?l = "(task_name (dc_store dc ! a), slot now)" and ?h = "run_history slot C user xs g'"
  have G: "run_registry G held slot ok_name" "ok_name (task_name (dc_store dc ! a))"
    using Cons.prems(1) x by (auto simp: run_lock_of_def)
  note lock = run_registry.run_lock[OF G(1) r G(2)]
  have kept: "\<forall>l \<in> insert ?l (set ?h). l \<in> held g \<longrightarrow> l \<in> held (env g)"
    using Cons.prems(2) x run_history_locks[of slot C user xs g'] by (fastforce simp: run_lock_of_def)
  have "set ?h \<inter> held g' = {} \<and> distinct ?h" using Cons.IH Cons.prems by auto
  then show ?case using x r lock kept by auto
qed simp

section \<open>Properties\<close>

text \<open>
  C4. Whatever runs of whatever tasks happen on whatever nodes, through any clients of the registry
  that keep the lock contract, and whatever else the cluster does to the registry in between as
  long as no lock is released before the last run that asks for it, the user's code of a task is
  called at most once for each second.
\<close>

theorem at_most_one_run_per_second:
  assumes "\<forall>x \<in> set xs. run_registry (fst x) held slot ok_name \<and> ok_name (fst (run_lock_of slot x))"
    and "locks_kept held slot xs"
  shows "distinct (run_history slot C user xs g)"
  using run_history_free[OF assms] by blast

theorem at_most_one_run_per_second_witness:
  "distinct (run_history unix_second mem_cron_ops (\<lambda>i. RunOk)
     [(mem_registry, id, 1000000000, 0, demo_balanced), (mem_registry, id, 1500000000, 0, demo_ready),
      (mem_registry, id, 2000000000, 0, demo_balanced)] mem_empty)"
  by (rule at_most_one_run_per_second[where held = "\<lambda>g. set (ms_execs g)" and ok_name = "\<lambda>n. True"])
    (simp_all add: mem_run.run_registry_axioms)

text \<open>
  C18. A run calls the user's code exactly when the task is not marked deleted on this node and
  the registry grants the lock; otherwise nothing is reported and the node does not change. A
  panic of the user's code is recovered and skips the actions after the run.
\<close>

theorem run_executes_iff:
  assumes "task_Run G C user now a dc g = (ev, dc', g')"
  shows "(executed ev \<longleftrightarrow> task_name (dc_store dc ! a) \<notin> dc_deletedTasks dc \<and>
      fst (reg_CanRunTask G (task_name (dc_store dc ! a)) now g) = Inr True) \<and>
    (\<not> executed ev \<longrightarrow> ev = [] \<and> dc' = dc) \<and>
    (executed ev \<longrightarrow> run_tasker user (dc_store dc ! a) dc = RunPanic \<longrightarrow>
       ev = [RanTask (task_name (dc_store dc ! a)), Recovered] \<and> dc' = dc)"
proof -
  let ?t = "dc_store dc ! a"
  obtain r g1 where c: "reg_CanRunTask G (task_name ?t) now g = (r, g1)" by fastforce
  show ?thesis
  proof (cases "task_name ?t \<in> dc_deletedTasks dc \<or> r \<noteq> Inr True")
    case True
    then have "ev = [] \<and> dc' = dc"
      using assms c by (auto simp: task_Run_def isDeletedTask_def Let_def split: sum.splits bool.splits if_splits)
    with True c show ?thesis by (auto simp: executed_def)
  next
    case False
    then have "RanTask (task_name ?t) \<in> set ev \<and> (run_tasker user ?t dc = RunPanic \<longrightarrow>
        ev = [RanTask (task_name ?t), Recovered] \<and> dc' = dc)"
      using assms c by (auto simp: task_Run_def isDeletedTask_def Let_def split: prod.splits bool.splits if_splits)
    with False c show ?thesis by (auto simp: executed_def)
  qed
qed

theorem run_executes_iff_witness:
  "executed (fst (task_Run mem_registry mem_cron_ops (\<lambda>i. RunPanic) 0 0 demo_balanced mem_empty))"
proof -
  let ?r = "task_Run mem_registry mem_cron_ops (\<lambda>i. RunPanic) 0 0 demo_balanced mem_empty"
  have "task_name (dc_store demo_balanced ! 0) = ''job''" "''job'' \<notin> dc_deletedTasks demo_balanced"
    by code_simp+
  moreover have "fst (reg_CanRunTask mem_registry ''job'' 0 mem_empty) = Inr True"
    by (simp add: mem_registry_def mem_CanRunTask_def mem_empty_def)
  ultimately show ?thesis
    using run_executes_iff[of mem_registry mem_cron_ops "\<lambda>i. RunPanic" 0 0 demo_balanced mem_empty
        "fst ?r" "fst (snd ?r)" "snd (snd ?r)"] by simp
qed


definition demo_once :: "(mem_cron, point_ring assigner) dcron" where
  "demo_once = snd (addJob ''once'' ''@hourly'' (StaticTasker 0) True demo_new)"



text \<open>
  The actions after a run: a task that is one-shot or has \<open>ExecutedAndMarkDeleted\<close> is marked
  deleted, and its \<open>ExecutedAndCleanup\<close> flag has no effect: its metadata stays in the registry.
  (The README gives the cleanup flag precedence over the mark.)
\<close>

theorem mark_takes_precedence:
  assumes "OneShot (task_metadata t) \<or> ExecutedAndMarkDeleted (task_metadata t)"
    and "dc_errHandler dc = None"
  shows "post_actions G C t dc g =
      post_actions G C (t\<lparr>task_metadata := (task_metadata t)\<lparr>ExecutedAndCleanup := False\<rparr>\<rparr>) dc g \<and>
    snd (post_actions G C t dc g) = snd (MarkTaskDeleted G C (task_name t) dc g)"
proof -
  have "dc_errHandler (fst (snd (MarkTaskDeleted G C n dc g))) = None" for n
    using assms(2) by (auto simp: MarkTaskDeleted_def MarkTaskDeleted_locked_def Let_def split: prod.splits option.splits)
  then have "fst (report_error err tm (fst (snd (MarkTaskDeleted G C n dc g)))) = []" for err tm n
    by (simp add: report_error_def split: option.splits)
  then show ?thesis
    using assms(1) by (auto simp: post_actions_def split: prod.splits) (metis fst_conv snd_conv)+
qed

theorem mark_takes_precedence_witness:
  "snd (post_actions mem_registry mem_cron_ops (dc_store demo_once ! 0) demo_once mem_empty) =
     snd (MarkTaskDeleted mem_registry mem_cron_ops ''once'' demo_once mem_empty)"
proof -
  have "OneShot (task_metadata (dc_store demo_once ! 0))" "task_name (dc_store demo_once ! 0) = ''once''"
    by code_simp+
  moreover have "dc_errHandler demo_once = None"
    by (simp add: demo_once_def demo_new_def NewDcron_def NewAssigner_def Strategy_defs Let_def addJob_def
        addJobLocked_def new_task_def empty_dcron_def)
  ultimately show ?thesis
    using mark_takes_precedence[of "dc_store demo_once ! 0" demo_once mem_registry mem_cron_ops mem_empty] by metis
qed

lemma put_task_frame [simp]:
  "dc_running (put_task n t dc) = dc_running dc" "dc_shutdownChan (put_task n t dc) = dc_shutdownChan dc"
  "dc_nodeID (put_task n t dc) = dc_nodeID dc"
  by (simp_all add: put_task_def new_task_def)

lemma reload_each_frame [simp]:
  "dc_running (reload_each ts dc) = dc_running dc" "dc_shutdownChan (reload_each ts dc) = dc_shutdownChan dc"
  "dc_nodeID (reload_each ts dc) = dc_nodeID dc"
  by (induction ts dc rule: reload_each.induct) auto

lemma prepareWork_frame:
  assumes "prepareWork G dc g = (dc', g')"
  shows "dc_running dc' = dc_running dc" "dc_shutdownChan dc' = dc_shutdownChan dc" "dc_nodeID dc' = dc_nodeID dc"
  using assms by (auto simp: prepareWork_def reloadNodes_def reloadNodes_locked_def reloadTasks_def
      reloadDeletedTasks_def split: prod.splits sum.splits if_splits)

lemma Start_runs:
  assumes "Start G C now dc g = (r, ws, dc1, g1)"
  shows "dc_running dc1 \<and> dc_shutdownChan dc1 = dc_shutdownChan dc \<and> dc_nodeID dc1 = dc_nodeID dc"
  using assms prepareWork_frame[of G "dc\<lparr>dc_running := True\<rparr>"]
  by (auto simp: Start_def Let_def split: if_splits prod.splits option.splits)

text \<open>
  C25. \<open>Start\<close> and \<open>Stop\<close> of a service that was never stopped before: a second \<open>Start\<close> is
  refused without touching the node or the registry; the waiting \<open>Start\<close> goes on exactly when
  \<open>Stop\<close> is called, and then reports the node as leaving, stops the cron engine, removes the
  node from the registry and cancels the context; a second \<open>Stop\<close> is refused.
\<close>

theorem start_stop_protocol:
  assumes "Start G C now dc g = (Waiting, ws, dc1, g1)" and "\<not> dc_shutdownChan dc"
  shows "Start G C now2 dc1 g2 = (StartErr ErrDcronAlreadyRunning, [], dc1, g2) \<and>
    waitForShutdown G C False dc1 g2 = None \<and>
    (\<exists>dc2. Stop dc1 = Inr (None, dc2) \<and> Stop dc2 = Inr (Some ErrDcronAlreadyStopped, dc2) \<and>
       (\<exists>es dc3 g3. waitForShutdown G C False dc2 g2 = Some (es, dc3, g3) \<and> dc_done dc3 \<and>
          dc_cr dc3 = cr_Stop C (dc_cr dc1) \<and>
          g3 = snd (reg_Unregister G (dc_nodeID dc) (snd (reg_UpdateStatus G (dc_nodeID dc) NodeStatusLeaving g2)))))"
  using Start_runs[OF assms(1)] assms(2)
  by (simp add: Start_def Stop_def waitForShutdown_def split: prod.splits)

lemma demo_started: "fst (Start mem_registry mem_cron_ops 0 demo_new mem_empty) = Waiting"
  by code_simp

theorem start_stop_protocol_witness:
  "\<exists>ws dc1 g1. Start mem_registry mem_cron_ops 0 demo_new mem_empty = (Waiting, ws, dc1, g1) \<and>
     (\<exists>dc2. Stop dc1 = Inr (None, dc2))"
proof -
  obtain ws dc1 g1 where s: "Start mem_registry mem_cron_ops 0 demo_new mem_empty = (Waiting, ws, dc1, g1)"
    using demo_started by (metis prod.collapse)
  moreover have "\<not> dc_shutdownChan demo_new" by code_simp
  ultimately show ?thesis using start_stop_protocol[OF s] by blast
qed

text \<open>
  C26. What the protocol lacks: a \<open>Start\<close> whose registration fails leaves the node running, so that
  every later \<open>Start\<close> is refused; and once a service has been stopped, a second \<open>Start\<close> does not
  wait (its shutdown channel is closed) and the \<open>Stop\<close> after it panics by closing that channel
  again.
\<close>

theorem restart_is_broken:
  "(Start G C now dc g = (StartErr (ErrRegistration e), ws, dc1, g1) \<longrightarrow>
      Start G C now2 dc1 g2 = (StartErr ErrDcronAlreadyRunning, [], dc1, g2)) \<and>
   (Stop dc = Inr (None, dc2) \<longrightarrow> Start G C now dc2 g = (r, ws, dc3, g3) \<longrightarrow>
      waitForShutdown G C False dc3 g3 \<noteq> None \<and> Stop dc3 = Inl CloseOfClosedChannel)"
proof (intro conjI impI)
  assume s: "Start G C now dc g = (StartErr (ErrRegistration e), ws, dc1, g1)"
  show "Start G C now2 dc1 g2 = (StartErr ErrDcronAlreadyRunning, [], dc1, g2)"
    using Start_runs[OF s] by (simp add: Start_def)
next
  assume "Stop dc = Inr (None, dc2)" and s: "Start G C now dc2 g = (r, ws, dc3, g3)"
  then have "dc_shutdownChan dc2" by (auto simp: Stop_def Let_def split: if_splits)
  with Start_runs[OF s] have "dc_shutdownChan dc3" "dc_running dc3" by simp_all
  then show "waitForShutdown G C False dc3 g3 \<noteq> None" and "Stop dc3 = Inl CloseOfClosedChannel"
    by (simp_all add: waitForShutdown_def Stop_def split: prod.splits)
qed

theorem restart_is_broken_witness:
  "\<exists>dc2 r ws dc3 g3. Stop (demo_new\<lparr>dc_running := True\<rparr>) = Inr (None, dc2) \<and>
     Start mem_registry mem_cron_ops 0 dc2 mem_empty = (r, ws, dc3, g3) \<and>
     Stop dc3 = Inl CloseOfClosedChannel"
proof -
  have "\<not> dc_shutdownChan demo_new" by code_simp
  then obtain dc2 where s: "Stop (demo_new\<lparr>dc_running := True\<rparr>) = Inr (None, dc2)" by (simp add: Stop_def)
  obtain r ws dc3 g3 where t: "Start mem_registry mem_cron_ops 0 dc2 mem_empty = (r, ws, dc3, g3)"
    by (metis prod.collapse)
  show ?thesis
    using restart_is_broken[of mem_registry mem_cron_ops 0 "demo_new\<lparr>dc_running := True\<rparr>" mem_empty] s t by blast
qed

end
