(* ===== verification/Cluster.thy ===== *)
theory Cluster
  imports Execution
begin

text \<open>
  Several nodes: when they agree on the node list, the tasks and the deleted names, one
  rebalance on each gives every task to exactly one of them.
\<close>

text \<open>The nodes \<open>ns\<close> run the schedulers \<open>dcs\<close>: each knows itself, all have the same node
  list, the same task names \<open>T\<close>, the same deleted names \<open>D\<close> and the same strategy.\<close>

definition cluster_agrees ::
  "'r assigner \<Rightarrow> Node list \<Rightarrow> string set \<Rightarrow> string set \<Rightarrow> (Node \<Rightarrow> ('k, 'r assigner) dcron) \<Rightarrow> bool" where
  "cluster_agrees a0 ns T D dcs \<longleftrightarrow> (\<forall>m \<in> set ns.
     dc_nodeID (dcs m) = ID m \<and> dc_nodes (dcs m) = ns \<and> set (map fst (dc_allTasks (dcs m))) = T \<and>
     dc_deletedTasks (dcs m) = D \<and> (\<exists>a. dc_assigner (dcs m) = Some a \<and> assigner_like a0 a))"

definition cluster_plan :: "'r ring_ops \<Rightarrow> 'r assigner \<Rightarrow> Node list \<Rightarrow> string set \<Rightarrow> string set \<Rightarrow> (string \<times> string) list" where
  "cluster_plan R a0 ns T D = plan (assigner_owner R a0 ns) D 0 (sorted_list_of_set T)"

lemma sort_distinct_keys: "distinct xs \<Longrightarrow> sort xs = sorted_list_of_set (set xs)"
  by (simp add: sorted_list_of_set_sort_remdups distinct_remdups_id)

context builtin_scheduler
begin

lemma cluster_node:
  assumes "cluster_agrees a0 ns T D dcs" and "m \<in> set ns" and "assigner_ok a0 ns"
    and "sched_reachable C (builtin_ops R) iface (dcs m)"
  shows "\<exists>dc' c. doRebalanced C (builtin_ops R) (dcs m) = Inr (dc', c) \<and>
    (\<forall>t. map_of (dc_assignedTasks dc') t \<noteq> None \<longleftrightarrow>
       map_of (cluster_plan R a0 ns T D) t = Some (ID m) \<and> valid (dc_cr (dcs m)) (task_fmt (dcs m) t))"
proof -
  obtain a where m: "dc_nodeID (dcs m) = ID m" "dc_nodes (dcs m) = ns" "set (map fst (dc_allTasks (dcs m))) = T"
     "dc_deletedTasks (dcs m) = D" "dc_assigner (dcs m) = Some a" "assigner_like a0 a"
    using assms(1,2) by (auto simp: cluster_agrees_def)
  have "distinct (map fst (dc_allTasks (dcs m)))"
    using reachable_inv[OF assms(4)] by (simp add: dc_inv_def)
  then have "sort (map fst (dc_allTasks (dcs m))) = sorted_list_of_set T"
    using sort_distinct_keys m(3) by metis
  with builtin_rebalance[OF assms(4) m(5,6)] assms(3) m(1,2,4) show ?thesis
    by (auto simp: cluster_plan_def)
qed

lemma cluster_plan_owner:
  assumes "assigner_ok a0 ns" and "distinct (map ID ns)" and "finite T" and "t \<in> T - D"
  shows "\<exists>!m. m \<in> set ns \<and> map_of (cluster_plan R a0 ns T D) t = Some (ID m)"
proof -
  obtain nid where nid: "map_of (cluster_plan R a0 ns T D) t = Some nid"
    using plan_dom[of "assigner_owner R a0 ns" D 0 "sorted_list_of_set T" t] assms(3,4)
    by (auto simp: cluster_plan_def)
  then have "nid \<in> ID ` set ns"
    using plan_owner_in builtin_owner_in[OF assms(1)] unfolding cluster_plan_def by metis
  then obtain m where "m \<in> set ns" "nid = ID m" by blast
  then show ?thesis
    using nid assms(2) by (auto simp: distinct_map inj_on_def)
qed

lemma cluster_balance:
  assumes "cluster_agrees a0 ns T D dcs" and "assigner_ok a0 ns" and "distinct (map ID ns)" and "finite T"
    and "\<forall>m \<in> set ns. sched_reachable C (builtin_ops R) iface (dcs m)"
  shows "\<exists>dcs'. (\<forall>m \<in> set ns. \<exists>c. doRebalanced C (builtin_ops R) (dcs m) = Inr (dcs' m, c)) \<and>
    (\<forall>t \<in> T - D. (\<forall>m \<in> set ns. valid (dc_cr (dcs m)) (task_fmt (dcs m) t)) \<longrightarrow>
       (\<exists>!m. m \<in> set ns \<and> map_of (dc_assignedTasks (dcs' m)) t \<noteq> None)) \<and>
    (\<forall>t. t \<notin> T - D \<longrightarrow> (\<forall>m \<in> set ns. map_of (dc_assignedTasks (dcs' m)) t = None))"
proof -
  have "\<forall>m \<in> set ns. \<exists>dc'. (\<exists>c. doRebalanced C (builtin_ops R) (dcs m) = Inr (dc', c)) \<and>
      (\<forall>t. map_of (dc_assignedTasks dc') t \<noteq> None \<longleftrightarrow>
       map_of (cluster_plan R a0 ns T D) t = Some (ID m) \<and> valid (dc_cr (dcs m)) (task_fmt (dcs m) t))"
    using cluster_node[OF assms(1) _ assms(2)] assms(5) by blast
  then obtain dcs' where run: "\<forall>m \<in> set ns. \<exists>c. doRebalanced C (builtin_ops R) (dcs m) = Inr (dcs' m, c)"
    and asg: "\<forall>m \<in> set ns. \<forall>t. map_of (dc_assignedTasks (dcs' m)) t \<noteq> None \<longleftrightarrow>
       map_of (cluster_plan R a0 ns T D) t = Some (ID m) \<and> valid (dc_cr (dcs m)) (task_fmt (dcs m) t)"
    by metis
  have "\<exists>!m. m \<in> set ns \<and> map_of (dc_assignedTasks (dcs' m)) t \<noteq> None"
    if "t \<in> T - D" "\<forall>m \<in> set ns. valid (dc_cr (dcs m)) (task_fmt (dcs m) t)" for t
    using cluster_plan_owner[OF assms(2-4) that(1)] asg that(2) by (metis (no_types, lifting))
  moreover have "map_of (dc_assignedTasks (dcs' m)) t = None" if "t \<notin> T - D" "m \<in> set ns" for t m
  proof -
    have "map_of (cluster_plan R a0 ns T D) t = None"
      using plan_dom[of "assigner_owner R a0 ns" D 0 "sorted_list_of_set T" t] that(1) assms(4)
      by (auto simp: cluster_plan_def)
    then show ?thesis using asg that(2) by (metis option.distinct(1))
  qed
  ultimately show ?thesis using run by blast
qed

end

section \<open>Properties\<close>

text \<open>
  C1. The main guarantee of the cluster: when the nodes agree on the node list, the task names,
  the deleted names and the strategy, a rebalance on every node returns, and afterwards every
  task that is not deleted and whose schedule the cron engines accept is scheduled on exactly one
  node, and a deleted or unknown task on none.
\<close>

theorem cluster_exactly_one_node:
  assumes "cron_engine C valid issued" and "consistent_ring R"
    and "cluster_agrees a0 ns T D dcs" and "assigner_ok a0 ns" and "distinct (map ID ns)" and "finite T"
    and "\<forall>m \<in> set ns. sched_reachable C (builtin_ops R) iface (dcs m)"
  shows "\<exists>dcs'. (\<forall>m \<in> set ns. \<exists>c. doRebalanced C (builtin_ops R) (dcs m) = Inr (dcs' m, c)) \<and>
    (\<forall>t \<in> T - D. (\<forall>m \<in> set ns. valid (dc_cr (dcs m)) (task_fmt (dcs m) t)) \<longrightarrow>
       (\<exists>!m. m \<in> set ns \<and> map_of (dc_assignedTasks (dcs' m)) t \<noteq> None)) \<and>
    (\<forall>t. t \<notin> T - D \<longrightarrow> (\<forall>m \<in> set ns. map_of (dc_assignedTasks (dcs' m)) t = None))"
proof -
  have "builtin_scheduler C valid issued R" using assms(1,2) by (rule builtin_schedulerI)
  from builtin_scheduler.cluster_balance[OF this assms(3-7)] show ?thesis .
qed

theorem cluster_exactly_one_node_witness:
  "\<exists>dcs' :: Node \<Rightarrow> (mem_cron, point_ring assigner) dcron. \<exists>c.
     doRebalanced mem_cron_ops (builtin_ops point_ring_ops) demo_ready = Inr (dcs' (demo_node ''h-5-0007'' 1), c) \<and>
     (\<exists>!m. m \<in> set demo_nodes \<and> map_of (dc_assignedTasks (dcs' m)) ''job'' \<noteq> None)"
proof -
  let ?a = "RoundRobin NewRoundRobinAssigner :: point_ring assigner"
  have "cluster_agrees ?a demo_nodes {''job''} {} (\<lambda>m. demo_ready)"
    using demo_ready_fields demo_ready_assigner by (simp add: cluster_agrees_def demo_nodes_def)
  moreover have "assigner_ok ?a demo_nodes" "distinct (map ID demo_nodes)" by (simp_all add: demo_nodes_def)
  ultimately obtain dcs' where d: "\<forall>m \<in> set demo_nodes. \<exists>c.
      doRebalanced mem_cron_ops (builtin_ops point_ring_ops) demo_ready = Inr (dcs' m, c)"
    and e: "\<forall>t \<in> {''job''} - {}. (\<forall>m \<in> set demo_nodes. mem_valid (dc_cr demo_ready) (task_fmt demo_ready t)) \<longrightarrow>
       (\<exists>!m. m \<in> set demo_nodes \<and> map_of (dc_assignedTasks (dcs' m)) t \<noteq> None)"
    using cluster_exactly_one_node[OF mem_cron.cron_engine_axioms point_ring.consistent_ring_axioms,
        of ?a demo_nodes "{''job''}" "{}" "\<lambda>m. demo_ready" id] demo_reachable(1) by blast
  have "\<exists>!m. m \<in> set demo_nodes \<and> map_of (dc_assignedTasks (dcs' m)) ''job'' \<noteq> None"
    using e demo_ready_fields(5) by (simp add: mem_valid_def)
  moreover obtain c where "doRebalanced mem_cron_ops (builtin_ops point_ring_ops) demo_ready =
      Inr (dcs' (demo_node ''h-5-0007'' 1), c)"
    using d by (auto simp: demo_nodes_def)
  ultimately show ?thesis by blast
qed

end
