(* ===== verification/Node_List.thy ===== *)
theory Node_List
  imports Dcron Registry
begin

text \<open>
  The node's identity (\<open>src/supporter.go\<close>) and its copy of the node list (\<open>reloadNodes\<close> of
  \<open>src/dcron_internal.go\<close>): IDs are unique, the list does not depend on the order in which
  the registry gives the nodes, and where the comparison by checksum misses a change.
\<close>

section \<open>Decimal numbers\<close>

lemma digit_chars: "set (digits n) \<subseteq> (\<lambda>d. char_of (48 + d)) ` {..<10 :: nat}"
proof (induction n rule: digits.induct)
  case (1 n)
  let ?D = "(\<lambda>d. char_of (48 + d) :: char) ` {..<10 :: nat}"
  have last: "char_of (48 + n mod 10) \<in> ?D" by (rule imageI) simp
  show ?case
  proof (cases "n < 10")
    case True
    with last show ?thesis by (subst digits.simps) simp
  next
    case False
    with last 1 show ?thesis by (subst digits.simps) simp
  qed
qed

lemma digits_nonempty: "digits n \<noteq> []"
  by (subst digits.simps) simp

lemma digit_char_inj: "a < 10 \<Longrightarrow> b < 10 \<Longrightarrow> (char_of (48 + a) :: char) = char_of (48 + b) \<longleftrightarrow> a = (b :: nat)"
  by (simp add: char_of_eq_iff of_char_of take_bit_nat_eq_self)

lemma digits_last: "last (digits n) = char_of (48 + n mod 10)" and digits_butlast:
  "butlast (digits n) = (if n < 10 then [] else digits (n div 10))"
  by (subst digits.simps, simp)+

lemma digits_inj: "digits n = digits m \<Longrightarrow> n = m"
proof (induction n arbitrary: m rule: digits.induct)
  case (1 n)
  have "char_of (48 + n mod 10) = (char_of (48 + m mod 10) :: char)"
    using digits_last[of n] digits_last[of m] "1.prems" by metis
  then have mod: "n mod 10 = m mod 10" by (simp add: digit_char_inj)
  have tail: "(if n < 10 then [] else digits (n div 10)) = (if m < 10 then [] else digits (m div 10))"
    using digits_butlast[of n] digits_butlast[of m] "1.prems" by metis
  show ?case
  proof (cases "n < 10")
    case True
    then have "m < 10" using tail digits_nonempty[of "m div 10"] by (auto split: if_splits)
    with True mod show ?thesis by simp
  next
    case False
    then have "\<not> m < 10" using tail digits_nonempty[of "n div 10"] by (auto split: if_splits)
    then have "n div 10 = m div 10" using False tail "1.IH"[of "m div 10"] by simp
    with mod show ?thesis by (metis div_mult_mod_eq)
  qed
qed

lemma digits_no_dash: "CHR ''-'' \<notin> set (digits n)"
proof
  assume "CHR ''-'' \<in> set (digits n)"
  then obtain d :: nat where d: "d < 10" "CHR ''-'' = char_of (48 + d)" using digit_chars by auto
  have "of_char CHR ''-'' = (of_char (char_of (48 + d) :: char) :: nat)" by (simp only: d(2))
  with d(1) show False by simp
qed

lemma pad4_length: "n < 10000 \<Longrightarrow> length (pad4 n) = 4"
proof -
  assume "n < 10000"
  then have "length (digits n) \<le> 4"
    by (subst digits.simps, simp, subst digits.simps, simp, subst digits.simps, simp, subst digits.simps, simp)
  then show ?thesis by (simp add: pad4_def)
qed

text \<open>Zeros in front do not change what a number reads as.\<close>

definition read_digits :: "string \<Rightarrow> nat" where
  "read_digits s = foldl (\<lambda>n c. 10 * n + (of_char c - 48)) 0 s"

lemma foldl_zeros: "foldl (\<lambda>n c. 10 * n + (of_char c - 48)) 0 (replicate k (CHR ''0'')) = (0 :: nat)"
  by (induction k) simp_all

lemma read_digits_digits: "read_digits (digits n) = n"
proof (induction n rule: digits.induct)
  case (1 n)
  then show ?case
    by (subst digits.simps) (auto simp: read_digits_def)
qed

lemma read_pad4: "read_digits (pad4 n) = n"
  using read_digits_digits[of n] by (simp add: pad4_def read_digits_def foldl_zeros)

lemma first_occurrence:
  assumes "xs @ c # ys = xs' @ c # ys'" and "c \<notin> set xs" and "c \<notin> set xs'"
  shows "xs = xs' \<and> ys = ys'"
proof -
  have "takeWhile (\<lambda>x. x \<noteq> c) (zs @ c # ys) = zs" if "c \<notin> set zs" for zs ys
    using that by (induction zs) auto
  then have "xs = xs'" using assms by metis
  with assms(1) show ?thesis by simp
qed

section \<open>Properties\<close>

text \<open>
  Node IDs are unique: two IDs generated from an address, a clock reading and a random number
  below 1000 are equal only when all three are, whatever characters the addresses have.
\<close>

theorem generateNodeID_unique:
  assumes "r < 1000" and "r' < 1000" and "generateNodeID ip nano r = generateNodeID ip' nano' r'"
  shows "ip = ip' \<and> nano = nano' \<and> r = r'"
proof -
  have len: "length (pad4 r) = length (pad4 r')" using assms(1,2) by (simp add: pad4_length)
  have eq: "(ip @ ''-'' @ digits nano @ ''-'') @ pad4 r = (ip' @ ''-'' @ digits nano' @ ''-'') @ pad4 r'"
    using assms(3) by (simp add: generateNodeID_def)
  have r: "r = r'" using append_eq_append_conv[OF disjI2[OF len], THEN iffD1, OF eq] read_pad4 by metis
  have "ip @ CHR ''-'' # digits nano = ip' @ CHR ''-'' # digits nano'"
    using append_eq_append_conv[OF disjI2[OF len], THEN iffD1, OF eq] by simp
  then have "rev (digits nano) @ CHR ''-'' # rev ip = rev (digits nano') @ CHR ''-'' # rev ip'"
    by (metis append.assoc append_Cons append_Nil rev.simps(2) rev_append)
  then have "rev (digits nano) = rev (digits nano') \<and> rev ip = rev ip'"
    using digits_no_dash by (intro first_occurrence[where c = "CHR ''-''"]) simp_all
  then show ?thesis using r digits_inj by simp
qed

theorem generateNodeID_unique_witness:
  "generateNodeID ''10.0.0.1'' 5 7 \<noteq> generateNodeID ''10.0.0.1'' 5 70"
  using generateNodeID_unique[of 7 70 "''10.0.0.1''" 5 "''10.0.0.1''" 5] by auto

text \<open>
  The node list does not depend on the order in which the registry lists the nodes: two nodes
  that read the same nodes with distinct IDs, in any two orders, end up with the same list, and
  reading the same nodes once more changes nothing and asks for no rebalance.
\<close>

theorem reloadNodes_order:
  assumes "reg_GetWorkingNodes G g = (Inr nodes, g1)" and "reg_GetWorkingNodes G g2 = (Inr nodes', g3)"
    and "mset nodes = mset nodes'" and "distinct (map ID nodes)"
  shows "fst (reloadNodes G dc g) = fst (reloadNodes G dc g2) \<and>
    fst (snd (reloadNodes G dc g)) = fst (snd (reloadNodes G dc g2)) \<and>
    (let dc' = fst (snd (reloadNodes G dc g)) in fst (reloadNodes G dc' g2) = False \<and>
       fst (snd (reloadNodes G dc' g2)) = dc')"
proof -
  have "sort_key ID nodes' = sort_key ID nodes"
    using sort_key_unique[of "sort_key ID nodes'" nodes ID] assms(3,4) by simp
  then show ?thesis
    using assms(1,2) by (auto simp: reloadNodes_def reloadNodes_locked_def Let_def split: prod.splits)
qed


definition comma_node :: "string \<Rightarrow> Node" where
  "comma_node i = \<lparr>ID = i, IP = [], Hostname = [], LastAlive = 0, CreateTime = 0,
     Status = NodeStatusWorking, Weight = 1\<rparr>"

theorem reloadNodes_order_witness:
  "fst (snd (reloadNodes mem_registry (empty_dcron () :: (unit, unit) dcron)
       (mem_empty\<lparr>ms_nodes := [comma_node ''a'', comma_node ''b'']\<rparr>))) =
   fst (snd (reloadNodes mem_registry (empty_dcron ())
       (mem_empty\<lparr>ms_nodes := [comma_node ''b'', comma_node ''a'']\<rparr>)))"
  using reloadNodes_order[of mem_registry "mem_empty\<lparr>ms_nodes := [comma_node ''a'', comma_node ''b'']\<rparr>"
      "[comma_node ''a'', comma_node ''b'']" _ "mem_empty\<lparr>ms_nodes := [comma_node ''b'', comma_node ''a'']\<rparr>"
      "[comma_node ''b'', comma_node ''a'']" _ "empty_dcron () :: (unit, unit) dcron"]
  by (simp add: mem_registry_def comma_node_def add_mset_commute)


end
