(* ===== verification/Event_Heap.thy ===== *)
theory Event_Heap
  imports Driver
begin

text \<open>
  The event heap of \<open>src/event_cleaner.go\<close>: a slice of events ordered by time that
  implements \<open>heap.Interface\<close>, with \<open>heap.Push\<close> and \<open>heap.Pop\<close> of Go's
  \<open>container/heap\<close> on top (their sift loops \<open>up\<close> and \<open>down\<close> included). What the
  cleaner relies on is the locale \<open>event_queue\<close>, interpreted on these definitions.
\<close>

section \<open>The slice and the standard library's loops\<close>

record Event =
  Key :: string
  Time :: time

type_synonym EventHeap = "Event list"

definition EventHeap_Len :: "EventHeap \<Rightarrow> nat" where
  [cleaner_defs]: "EventHeap_Len h = length h"

definition EventHeap_Less :: "EventHeap \<Rightarrow> nat \<Rightarrow> nat \<Rightarrow> bool" where
  [cleaner_defs]: "EventHeap_Less h i j \<longleftrightarrow> Time (h ! i) < Time (h ! j)"

definition EventHeap_Swap :: "EventHeap \<Rightarrow> nat \<Rightarrow> nat \<Rightarrow> EventHeap" where
  [cleaner_defs]: "EventHeap_Swap h i j = h[i := h ! j, j := h ! i]"

definition EventHeap_Push :: "EventHeap \<Rightarrow> Event \<Rightarrow> EventHeap" where
  [cleaner_defs]: "EventHeap_Push h x = h @ [x]"

definition EventHeap_Pop :: "EventHeap \<Rightarrow> (Event \<times> EventHeap) go" where
  [cleaner_defs]: "EventHeap_Pop h =
     (if h = [] then Inl IndexOutOfRange else Inr (last h, butlast h))"

text \<open>\<open>up(h, j)\<close>: swap with the parent while the parent is later.\<close>

function heap_up :: "EventHeap \<Rightarrow> nat \<Rightarrow> EventHeap" where
  "heap_up h j =
     (let i = (j - 1) div 2
      in if i = j \<or> \<not> EventHeap_Less h j i then h else heap_up (EventHeap_Swap h i j) i)"
  by pat_completeness auto
termination
  by (relation "measure snd") auto

text \<open>\<open>down(h, i, n)\<close>: swap with the earlier child while it is earlier than the parent.\<close>

definition down_child :: "EventHeap \<Rightarrow> nat \<Rightarrow> nat \<Rightarrow> nat" where
  "down_child h i n =
     (let j1 = 2 * i + 1
      in if j1 + 1 < n \<and> EventHeap_Less h (j1 + 1) j1 then j1 + 1 else j1)"

lemma down_child_cases: "down_child h i n = 2 * i + 1 \<or> down_child h i n = 2 * i + 2"
  by (simp add: down_child_def Let_def)

lemma down_child_less: "2 * i + 1 < n \<Longrightarrow> i < down_child h i n \<and> down_child h i n < n"
  by (simp add: down_child_def Let_def)

function heap_down :: "EventHeap \<Rightarrow> nat \<Rightarrow> nat \<Rightarrow> EventHeap" where
  "heap_down h i n =
     (if 2 * i + 1 \<ge> n then h
      else let j = down_child h i n
           in if \<not> EventHeap_Less h j i then h else heap_down (EventHeap_Swap h i j) j n)"
  by pat_completeness auto
termination
  by (relation "measure (\<lambda>(h, i, n). n - i)") (use down_child_less in \<open>auto simp: diff_less_mono2\<close>)

declare heap_up.simps [simp del] heap_down.simps [simp del]

definition heap_Push :: "EventHeap \<Rightarrow> Event \<Rightarrow> EventHeap" where
  [cleaner_defs]: "heap_Push h x =
     (let h' = EventHeap_Push h x in heap_up h' (EventHeap_Len h' - 1))"

definition heap_Pop :: "EventHeap \<Rightarrow> (Event \<times> EventHeap) go" where
  [cleaner_defs]: "heap_Pop h =
     (if h = [] then Inl IndexOutOfRange
      else let n = EventHeap_Len h - 1
           in EventHeap_Pop (heap_down (EventHeap_Swap h 0 n) 0 n))"

section \<open>Lengths and contents\<close>

lemma length_Swap [simp]: "length (EventHeap_Swap h i j) = length h"
  by (simp add: EventHeap_Swap_def)

lemma mset_Swap [simp]:
  "i < length h \<Longrightarrow> j < length h \<Longrightarrow> mset (EventHeap_Swap h i j) = mset h"
  using mset_swap[of j h i] by (simp add: EventHeap_Swap_def)

lemma nth_Swap:
  "i < length h \<Longrightarrow> j < length h \<Longrightarrow> EventHeap_Swap h i j ! k =
     (if k = j then h ! i else if k = i then h ! j else h ! k)"
  by (simp add: EventHeap_Swap_def nth_list_update)

lemma heap_up_frame:
  "j < length h \<Longrightarrow> length (heap_up h j) = length h \<and> mset (heap_up h j) = mset h"
proof (induction h j rule: heap_up.induct)
  case (1 h j)
  have "(j - 1) div 2 < length h" using "1.prems" by simp
  with 1 show ?case
    by (subst (1 2) heap_up.simps) (auto simp: Let_def)
qed

lemma heap_down_frame:
  "i < n \<Longrightarrow> n \<le> length h \<Longrightarrow>
   length (heap_down h i n) = length h \<and> mset (heap_down h i n) = mset h \<and>
   (\<forall>k. n \<le> k \<longrightarrow> heap_down h i n ! k = h ! k)"
proof (induction h i n rule: heap_down.induct)
  case (1 h i n)
  let ?j = "down_child h i n"
  show ?case
  proof (cases "2 * i + 1 < n \<and> EventHeap_Less h ?j i")
    case False
    then have "heap_down h i n = h"
      by (subst heap_down.simps) (auto simp: Let_def)
    then show ?thesis by simp
  next
    case True
    then have eq: "heap_down h i n = heap_down (EventHeap_Swap h i ?j) ?j n"
      by (subst heap_down.simps) (simp add: Let_def)
    have j: "?j < n" using True down_child_less by blast
    show ?thesis
      unfolding eq using "1.IH"[OF _ refl] True j "1.prems" by (simp add: nth_Swap)
  qed
qed

section \<open>The heap order\<close>

definition parent :: "nat \<Rightarrow> nat" where
  "parent k = (k - 1) div 2"

lemma parent_eq: "0 < k \<Longrightarrow> parent k = i \<longleftrightarrow> k = 2 * i + 1 \<or> k = 2 * i + 2"
  unfolding parent_def by presburger

lemma parent_less: "0 < k \<Longrightarrow> parent k < k"
  unfolding parent_def by presburger

text \<open>The first \<open>n\<close> places are in heap order: no event is earlier than its parent.\<close>

definition heap_inv :: "nat \<Rightarrow> EventHeap \<Rightarrow> bool" where
  "heap_inv n h \<longleftrightarrow> (\<forall>k. 0 < k \<longrightarrow> k < n \<longrightarrow> Time (h ! parent k) \<le> Time (h ! k))"

text \<open>One defect at \<open>j\<close> towards the root, or at \<open>i\<close> towards the leaves.\<close>

definition up_inv :: "EventHeap \<Rightarrow> nat \<Rightarrow> bool" where
  "up_inv h j \<longleftrightarrow>
     (\<forall>k. 0 < k \<longrightarrow> k < length h \<longrightarrow> k \<noteq> j \<longrightarrow> Time (h ! parent k) \<le> Time (h ! k)) \<and>
     (\<forall>k. 0 < k \<longrightarrow> k < length h \<longrightarrow> parent k = j \<longrightarrow> 0 < j \<longrightarrow>
        Time (h ! parent j) \<le> Time (h ! k))"

definition down_inv :: "nat \<Rightarrow> EventHeap \<Rightarrow> nat \<Rightarrow> bool" where
  "down_inv n h i \<longleftrightarrow>
     (\<forall>k. 0 < k \<longrightarrow> k < n \<longrightarrow> parent k \<noteq> i \<longrightarrow> Time (h ! parent k) \<le> Time (h ! k)) \<and>
     (\<forall>k. 0 < k \<longrightarrow> k < n \<longrightarrow> parent k = i \<longrightarrow> 0 < i \<longrightarrow>
        Time (h ! parent i) \<le> Time (h ! k))"

lemma up_inv_init:
  assumes "heap_inv (length h) h"
  shows "up_inv (EventHeap_Push h x) (length h)"
  unfolding up_inv_def EventHeap_Push_def
proof (intro conjI allI impI)
  fix k
  assume k: "0 < k" "k < length (h @ [x])" "k \<noteq> length h"
  then have "parent k < length h" "k < length h" using parent_less[of k] by auto
  with assms k show "Time ((h @ [x]) ! parent k) \<le> Time ((h @ [x]) ! k)"
    by (simp add: heap_inv_def nth_append)
next
  fix k
  assume "0 < k" "k < length (h @ [x])" "parent k = length h"
  then show "Time ((h @ [x]) ! parent (length h)) \<le> Time ((h @ [x]) ! k)"
    using parent_less[of k] by simp
qed

lemma up_inv_exit:
  "up_inv h j \<Longrightarrow> j = 0 \<or> \<not> EventHeap_Less h j (parent j) \<Longrightarrow> heap_inv (length h) h"
  unfolding up_inv_def heap_inv_def EventHeap_Less_def by (metis leI not_gr_zero)

lemma up_inv_step:
  assumes "up_inv h j" and "0 < j" and "j < length h" and "EventHeap_Less h j (parent j)"
  shows "up_inv (EventHeap_Swap h (parent j) j) (parent j)"
proof -
  have p: "parent j < length h" "parent j < j"
    using assms(2,3) parent_less[of j] by auto
  have order: "Time (h ! parent k) \<le> Time (h ! k)" if "0 < k" "k < length h" "k \<noteq> j" for k
    using assms(1) that unfolding up_inv_def by blast
  have grand: "Time (h ! parent j) \<le> Time (h ! k)" if "0 < k" "k < length h" "parent k = j" for k
    using assms(1,2) that unfolding up_inv_def by blast
  show ?thesis
    unfolding up_inv_def
  proof (intro conjI allI impI)
    fix k
    assume k: "0 < k" "k < length (EventHeap_Swap h (parent j) j)" "k \<noteq> parent j"
    then show "Time (EventHeap_Swap h (parent j) j ! parent k) \<le> Time (EventHeap_Swap h (parent j) j ! k)"
      using order[of k] grand[of k] assms(3,4) p parent_less[of k]
      by (auto simp: nth_Swap EventHeap_Less_def)
  next
    fix k
    assume k: "0 < k" "k < length (EventHeap_Swap h (parent j) j)" "parent k = parent j"
      and "0 < parent j"
    then show "Time (EventHeap_Swap h (parent j) j ! parent (parent j))
        \<le> Time (EventHeap_Swap h (parent j) j ! k)"
      using order[of k] order[of "parent j"] assms(3,4) p parent_less[of "parent j"] parent_less[of k]
      by (auto simp: nth_Swap EventHeap_Less_def)
  qed
qed

lemma heap_up_inv: "up_inv h j \<Longrightarrow> j < length h \<Longrightarrow> heap_inv (length h) (heap_up h j)"
proof (induction h j rule: heap_up.induct)
  case (1 h j)
  show ?case
  proof (cases "parent j = j \<or> \<not> EventHeap_Less h j (parent j)")
    case True
    then have "heap_up h j = h"
      by (subst heap_up.simps) (simp add: Let_def parent_def)
    with True 1 show ?thesis
      using up_inv_exit[of h j] parent_less[of j] by (cases "j = 0") auto
  next
    case False
    then have "0 < j" by (auto simp: parent_def EventHeap_Less_def)
    have eq: "heap_up h j = heap_up (EventHeap_Swap h (parent j) j) (parent j)"
      using False by (subst heap_up.simps) (simp add: Let_def parent_def)
    have "up_inv (EventHeap_Swap h (parent j) j) (parent j)"
      using 1 False \<open>0 < j\<close> by (intro up_inv_step) auto
    then have "heap_inv (length (EventHeap_Swap h (parent j) j))
        (heap_up (EventHeap_Swap h (parent j) j) (parent j))"
      using 1 False \<open>0 < j\<close> parent_less[of j] unfolding parent_def
      by (intro "1.IH"[OF refl]) (auto simp: parent_def)
    then show ?thesis unfolding eq by simp
  qed
qed

lemma down_inv_exit:
  assumes "down_inv n h i" and "n \<le> 2 * i + 1 \<or> \<not> EventHeap_Less h (down_child h i n) i"
  shows "heap_inv n h"
  unfolding heap_inv_def
proof (intro allI impI)
  fix k
  assume k: "0 < k" "k < n"
  show "Time (h ! parent k) \<le> Time (h ! k)"
  proof (cases "parent k = i")
    case False
    with assms(1) k show ?thesis unfolding down_inv_def by blast
  next
    case True
    then have "k = 2 * i + 1 \<or> k = 2 * i + 2" using k parent_eq by blast
    with True assms(2) k show ?thesis
      by (auto simp: down_child_def EventHeap_Less_def Let_def split: if_splits)
  qed
qed

lemma down_inv_step:
  assumes "down_inv n h i" and "2 * i + 1 < n" and "n \<le> length h"
    and "EventHeap_Less h (down_child h i n) i"
  shows "down_inv n (EventHeap_Swap h i (down_child h i n)) (down_child h i n)"
proof -
  define j where "j = down_child h i n"
  have j: "i < j" "j < n" "parent j = i" "0 < j"
    using down_child_less[OF assms(2), of h] down_child_cases[of h i n] parent_eq[of j i]
    unfolding j_def by auto
  have small: "Time (h ! j) \<le> Time (h ! k)" if "0 < k" "k < n" "parent k = i" for k
    using that parent_eq[of k i] unfolding j_def
    by (auto simp: down_child_def EventHeap_Less_def Let_def)
  have order: "Time (h ! parent k) \<le> Time (h ! k)" if "0 < k" "k < n" "parent k \<noteq> i" for k
    using assms(1) that unfolding down_inv_def by blast
  have grand: "Time (h ! parent i) \<le> Time (h ! j)" if "0 < i"
    using assms(1) that j unfolding down_inv_def by blast
  show ?thesis
    unfolding down_inv_def j_def[symmetric]
  proof (intro conjI allI impI)
    fix k
    assume k: "0 < k" "k < n" "parent k \<noteq> j"
    then show "Time (EventHeap_Swap h i j ! parent k) \<le> Time (EventHeap_Swap h i j ! k)"
      using order[of k] small[of k] grand assms(3,4) j parent_less[of k]
      by (auto simp: nth_Swap EventHeap_Less_def j_def[symmetric])
  next
    fix k
    assume k: "0 < k" "k < n" "parent k = j" "0 < j"
    then show "Time (EventHeap_Swap h i j ! parent j) \<le> Time (EventHeap_Swap h i j ! k)"
      using order[of k] assms(3) j parent_less[of k] by (auto simp: nth_Swap)
  qed
qed

lemma heap_down_inv: "down_inv n h i \<Longrightarrow> n \<le> length h \<Longrightarrow> heap_inv n (heap_down h i n)"
proof (induction h i n rule: heap_down.induct)
  case (1 h i n)
  let ?j = "down_child h i n"
  show ?case
  proof (cases "2 * i + 1 < n \<and> EventHeap_Less h ?j i")
    case False
    then have "heap_down h i n = h"
      by (subst heap_down.simps) (auto simp: Let_def)
    moreover have "heap_inv n h"
      using False by (intro down_inv_exit[OF "1.prems"(1)]) auto
    ultimately show ?thesis by simp
  next
    case True
    then have eq: "heap_down h i n = heap_down (EventHeap_Swap h i ?j) ?j n"
      by (subst heap_down.simps) (simp add: Let_def)
    show ?thesis
      unfolding eq using True "1.prems" down_inv_step[of n h i] by (intro "1.IH"[OF _ refl]) auto
  qed
qed

text \<open>The root is the earliest event.\<close>

lemma heap_inv_root: "heap_inv n h \<Longrightarrow> k < n \<Longrightarrow> Time (h ! 0) \<le> Time (h ! k)"
proof (induction k rule: less_induct)
  case (less k)
  show ?case
  proof (cases "k = 0")
    case False
    then have "Time (h ! 0) \<le> Time (h ! parent k)"
      using less parent_less[of k] by simp
    also have "\<dots> \<le> Time (h ! k)"
      using less.prems False unfolding heap_inv_def by simp
    finally show ?thesis .
  qed simp
qed

section \<open>The queue contract\<close>

text \<open>
  What the cleaner relies on: \<open>push\<close> adds an event, \<open>pop\<close> removes an earliest one and
  fails only on an empty queue, the first element is the one \<open>pop\<close> will return.
\<close>

locale event_queue =
  fixes push :: "'q \<Rightarrow> Event \<Rightarrow> 'q"
    and pop :: "'q \<Rightarrow> (Event \<times> 'q) go"
    and first :: "'q \<Rightarrow> Event"
    and elems :: "'q \<Rightarrow> Event multiset"
    and invar :: "'q \<Rightarrow> bool"
  assumes push_elems: "elems (push q e) = add_mset e (elems q)"
    and push_invar: "invar q \<Longrightarrow> invar (push q e)"
    and pop_nonempty: "elems q \<noteq> {#} \<Longrightarrow> \<exists>q'. pop q = Inr (first q, q')"
    and pop_elems: "pop q = Inr (e, q') \<Longrightarrow> elems q = add_mset e (elems q')"
    and pop_invar: "invar q \<Longrightarrow> pop q = Inr (e, q') \<Longrightarrow> invar q'"
    and pop_earliest: "invar q \<Longrightarrow> pop q = Inr (e, q') \<Longrightarrow> x \<in># elems q' \<Longrightarrow> Time e \<le> Time x"
begin

lemma pop_size: "pop q = Inr (e, q') \<Longrightarrow> size (elems q) = Suc (size (elems q'))"
  by (simp add: pop_elems)

lemma pop_first: "elems q \<noteq> {#} \<Longrightarrow> pop q = Inr (e, q') \<Longrightarrow> e = first q"
  using pop_nonempty by fastforce

lemma first_earliest: "invar q \<Longrightarrow> x \<in># elems q \<Longrightarrow> Time (first q) \<le> Time x"
proof -
  assume "invar q" and x: "x \<in># elems q"
  then have "elems q \<noteq> {#}" by auto
  then obtain q' where q': "pop q = Inr (first q, q')"
    using pop_nonempty[of q] by blast
  then show ?thesis
    using pop_earliest[OF \<open>invar q\<close> q', of x] pop_elems[OF q'] x by auto
qed

end

lemma heap_Push_frame: "mset (heap_Push h x) = add_mset x (mset h)"
  using heap_up_frame[of "length h" "h @ [x]"] by (simp add: cleaner_defs Let_def)

lemma heap_Push_inv: "heap_inv (length h) h \<Longrightarrow> heap_inv (length (heap_Push h x)) (heap_Push h x)"
  using heap_up_inv[OF up_inv_init] heap_up_frame[of "length h" "h @ [x]"]
  by (simp add: cleaner_defs Let_def)

text \<open>\<open>heap.Pop\<close> returns the old root; what is left has the other events, in heap order.\<close>

definition pop_sift :: "EventHeap \<Rightarrow> EventHeap" where
  "pop_sift h = heap_down (EventHeap_Swap h 0 (length h - 1)) 0 (length h - 1)"

lemma pop_sift_frame:
  assumes "h \<noteq> []"
  shows "length (pop_sift h) = length h" and "mset (pop_sift h) = mset h"
    and "last (pop_sift h) = h ! 0" and "heap_Pop h = Inr (h ! 0, butlast (pop_sift h))"
proof -
  define n where "n = length h - 1"
  have n: "n < length h" "length h = Suc n"
    using assms by (auto simp: n_def)
  have "length (pop_sift h) = length h \<and> mset (pop_sift h) = mset h \<and> pop_sift h ! n = h ! 0"
  proof (cases "n = 0")
    case True
    then have "pop_sift h = h"
      by (simp add: pop_sift_def n_def heap_down.simps[of _ 0 0] EventHeap_Swap_def)
    with True show ?thesis by simp
  next
    case False
    then show ?thesis
      using heap_down_frame[of 0 n "EventHeap_Swap h 0 n"] n
      by (simp add: pop_sift_def nth_Swap)
  qed
  then show len: "length (pop_sift h) = length h" and "mset (pop_sift h) = mset h"
    and last: "last (pop_sift h) = h ! 0"
    using n by (auto simp: last_conv_nth[of "pop_sift h"] simp flip: length_greater_0_conv)
  have "pop_sift h \<noteq> []" using len assms by auto
  with assms last show "heap_Pop h = Inr (h ! 0, butlast (pop_sift h))"
    by (simp add: heap_Pop_def EventHeap_Pop_def EventHeap_Len_def Let_def pop_sift_def)
qed

lemma pop_sift_inv:
  assumes "h \<noteq> []" and "heap_inv (length h) h"
  shows "heap_inv (length h - 1) (butlast (pop_sift h))"
proof -
  have n: "length h - 1 < length h" using assms(1) by simp
  have "down_inv (length h - 1) (EventHeap_Swap h 0 (length h - 1)) 0"
    unfolding down_inv_def
  proof (intro conjI allI impI)
    fix k
    assume k: "0 < k" "k < length h - 1" "parent k \<noteq> 0"
    then show "Time (EventHeap_Swap h 0 (length h - 1) ! parent k)
        \<le> Time (EventHeap_Swap h 0 (length h - 1) ! k)"
      using assms n parent_less[of k] by (simp add: nth_Swap heap_inv_def)
  qed simp
  then have inv: "heap_inv (length h - 1) (pop_sift h)"
    unfolding pop_sift_def by (intro heap_down_inv) auto
  show ?thesis
    unfolding heap_inv_def
  proof (intro allI impI)
    fix k
    assume k: "0 < k" "k < length h - 1"
    with parent_less[of k] have "parent k < length h - 1" by linarith
    with k inv pop_sift_frame(1)[OF assms(1)]
    show "Time (butlast (pop_sift h) ! parent k) \<le> Time (butlast (pop_sift h) ! k)"
      by (simp add: heap_inv_def nth_butlast)
  qed
qed

lemma heap_Pop_root:
  assumes "h \<noteq> []"
  shows "\<exists>h'. heap_Pop h = Inr (h ! 0, h') \<and> mset h = add_mset (h ! 0) (mset h') \<and>
    (heap_inv (length h) h \<longrightarrow> heap_inv (length h') h')"
proof (intro exI conjI impI)
  note frame = pop_sift_frame[OF assms]
  have ne: "pop_sift h \<noteq> []" using frame(1) assms by auto
  show "heap_Pop h = Inr (h ! 0, butlast (pop_sift h))" by (rule frame(4))
  have "mset (butlast (pop_sift h) @ [last (pop_sift h)]) = mset h"
    using ne frame(2) by simp
  then show "mset h = add_mset (h ! 0) (mset (butlast (pop_sift h)))"
    unfolding frame(3) by simp
  show "heap_inv (length (butlast (pop_sift h))) (butlast (pop_sift h))" if "heap_inv (length h) h"
    using pop_sift_inv[OF assms that] frame(1) by simp
qed

interpretation eheap: event_queue heap_Push heap_Pop "\<lambda>h. h ! 0" mset "\<lambda>h. heap_inv (length h) h"
proof unfold_locales
  fix h :: EventHeap and e h' x
  show "mset h \<noteq> {#} \<Longrightarrow> \<exists>h'. heap_Pop h = Inr (h ! 0, h')"
    using heap_Pop_root[of h] by auto
  assume pop: "heap_Pop h = Inr (e, h')"
  then have "h \<noteq> []" by (auto simp: heap_Pop_def)
  then show "mset h = add_mset e (mset h')"
    using heap_Pop_root[of h] pop by auto
  assume inv: "heap_inv (length h) h"
  then show "heap_inv (length h') h'"
    using heap_Pop_root[OF \<open>h \<noteq> []\<close>] pop by auto
  assume "x \<in># mset h'"
  then have "x \<in> set h" and "e = h ! 0"
    using heap_Pop_root[OF \<open>h \<noteq> []\<close>] pop
    by (auto simp: \<open>mset h = add_mset e (mset h')\<close> simp flip: set_mset_mset)
  then show "Time e \<le> Time x"
    using heap_inv_root[OF inv] by (auto simp: in_set_conv_nth)
qed (auto intro: heap_Push_inv simp: heap_Push_frame)

end
