(* ===== verification/Event_Cleaner.thy ===== *)
theory Event_Cleaner
  imports Event_Heap
begin

text \<open>
  The event cleaner of \<open>src/event_cleaner.go\<close>: the etcd, Consul and ZooKeeper registries
  hand it the execution marks they create, and it deletes them in batches some seconds
  later. Its goroutines (\<open>receiveEvents\<close>, \<open>processHeap\<close>, \<open>processBatch\<close>) are step
  functions on the struct; the channels are bounded queues inside it. A \<open>select\<close> with
  several ready cases returns the list of its possible outcomes; the empty list is a block.
  The interleavings are the relation \<open>cleaner_step\<close>.
\<close>

section \<open>The struct and its options\<close>

type_synonym EventHandler = "string list \<Rightarrow> error option"

record EventCleaner =
  ec_eventCap :: "nat option"
  ec_eventCh :: "Event list"
  ec_heap :: EventHeap
  ec_batchCh :: "Event list list"
  ec_done :: bool
  ec_batchSize :: int
  ec_eventDelay :: duration
  ec_handler :: "EventHandler option"
  ec_tasks :: "nat list"

text \<open>An injected task is a Go function, known here by a number.\<close>

datatype CleanerOption =
    WithEventHandler EventHandler
  | WithEventDelay duration
  | WithEventBufferSize nat
  | WithBatchSize int
  | WithInjectedTask "nat list"

fun apply_cleaner_option :: "CleanerOption \<Rightarrow> EventCleaner \<Rightarrow> EventCleaner" where
  "apply_cleaner_option (WithEventHandler handler) ec = ec\<lparr>ec_handler := Some handler\<rparr>"
| "apply_cleaner_option (WithEventDelay delay) ec = ec\<lparr>ec_eventDelay := delay\<rparr>"
| "apply_cleaner_option (WithEventBufferSize bsize) ec =
     ec\<lparr>ec_eventCap := Some bsize, ec_eventCh := []\<rparr>"
| "apply_cleaner_option (WithBatchSize bsize) ec = ec\<lparr>ec_batchSize := bsize\<rparr>"
| "apply_cleaner_option (WithInjectedTask tasks) ec = ec\<lparr>ec_tasks := ec_tasks ec @ tasks\<rparr>"

definition batchChCap :: nat where
  "batchChCap = 64"

definition NewEventCleaner :: "CleanerOption list \<Rightarrow> EventCleaner" where
  "NewEventCleaner ops =
     (let ec = fold apply_cleaner_option ops
           \<lparr>ec_eventCap = None, ec_eventCh = [], ec_heap = [], ec_batchCh = [], ec_done = False,
            ec_batchSize = 0, ec_eventDelay = 0, ec_handler = None, ec_tasks = []\<rparr>;
          ec = (if ec_eventCap ec = None then ec\<lparr>ec_eventCap := Some CleanerBufferSize\<rparr> else ec);
          ec = (if ec_batchSize ec = 0 then ec\<lparr>ec_batchSize := CleanerBatchSize\<rparr> else ec);
          ec = (if ec_eventDelay ec = 0 then ec\<lparr>ec_eventDelay := CleanerDelay\<rparr> else ec)
      in ec)"

section \<open>The goroutines\<close>

definition SendEvent :: "Event \<Rightarrow> EventCleaner \<Rightarrow> (error option \<times> EventCleaner) list" where
  "SendEvent event p =
     (case ec_eventCap p of
        Some cap \<Rightarrow> if length (ec_eventCh p) < cap
                    then [(None, p\<lparr>ec_eventCh := ec_eventCh p @ [event]\<rparr>)] else []
      | None \<Rightarrow> []) @
     (if ec_done p then [(Some ErrShuttingDown, p)] else [])"

text \<open>One iteration of \<open>receiveEvents\<close>; \<open>None\<close> when the channel has nothing.\<close>

definition receiveEvents_step :: "EventCleaner \<Rightarrow> EventCleaner option" where
  "receiveEvents_step p =
     (case ec_eventCh p of
        [] \<Rightarrow> None
      | event # rest \<Rightarrow> Some (p\<lparr>ec_eventCh := rest, ec_heap := heap_Push (ec_heap p) event\<rparr>))"

text \<open>
  The loop of \<open>processHeap\<close> on a tick: pop the events that are old enough, cut them into
  batches. The result is the full batches in the order they are sent, the batch left at the
  end, and the heap.
\<close>

function processHeap_collect ::
  "time \<Rightarrow> duration \<Rightarrow> int \<Rightarrow> EventHeap \<Rightarrow> Event list \<Rightarrow> Event list list \<times> Event list \<times> EventHeap"
where
  "processHeap_collect now delay bsize heap batch =
     (if EventHeap_Len heap > 0 \<and> now - Time (heap ! 0) \<ge> delay
      then case heap_Pop heap of
             Inl p \<Rightarrow> ([], batch, heap)
           | Inr (event, heap') \<Rightarrow>
               if int (length (batch @ [event])) \<ge> bsize
               then (case processHeap_collect now delay bsize heap' [] of
                       (bs, rest, h) \<Rightarrow> ((batch @ [event]) # bs, rest, h))
               else processHeap_collect now delay bsize heap' (batch @ [event])
      else ([], batch, heap))"
  by pat_completeness auto
termination
proof (relation "measure (\<lambda>(now, delay, bsize, heap, batch). length heap)")
  fix now delay bsize heap batch x event heap'
  assume "heap_Pop heap = Inr x" and "(event, heap') = x"
  then have "length heap = Suc (length heap')"
    using eheap.pop_size[of heap event heap'] by simp
  then show "((now, delay, bsize, heap', []), now, delay, bsize, heap, batch)
        \<in> measure (\<lambda>(now, delay, bsize, heap, batch). length heap)"
    and "((now, delay, bsize, heap', batch @ [event]), now, delay, bsize, heap, batch)
        \<in> measure (\<lambda>(now, delay, bsize, heap, batch). length heap)"
    by simp_all
qed simp

declare processHeap_collect.simps [simp del]

text \<open>A whole tick: the full batches to send with \<open>heapMu\<close> held, in order, the batch to
  send after the unlock (none when it is empty), and the struct with the smaller heap.\<close>

definition processHeap_tick ::
  "time \<Rightarrow> EventCleaner \<Rightarrow> Event list list \<times> Event list \<times> EventCleaner" where
  "processHeap_tick now p =
     (case processHeap_collect now (ec_eventDelay p) (ec_batchSize p) (ec_heap p) [] of
        (bs, rest, h) \<Rightarrow> (bs, rest, p\<lparr>ec_heap := h\<rparr>))"

text \<open>The cancellation case of \<open>processHeap\<close>: pop everything, offer it once.\<close>

function pop_all :: "EventHeap \<Rightarrow> Event list" where
  "pop_all heap =
     (if EventHeap_Len heap > 0
      then case heap_Pop heap of Inl p \<Rightarrow> [] | Inr (event, heap') \<Rightarrow> event # pop_all heap'
      else [])"
  by pat_completeness auto
termination
proof (relation "measure length")
  fix heap x event heap'
  assume "heap_Pop heap = Inr x" and "(event, heap') = x"
  then show "(heap', heap) \<in> measure length"
    using eheap.pop_size[of heap event heap'] by simp
qed simp

declare pop_all.simps [simp del]

definition processHeap_cancel :: "EventCleaner \<Rightarrow> Event list \<times> EventCleaner" where
  "processHeap_cancel p =
     (if EventHeap_Len (ec_heap p) > 0
      then let remaining = pop_all (ec_heap p)
           in if length (ec_batchCh p) < batchChCap
              then ([], p\<lparr>ec_heap := [], ec_batchCh := ec_batchCh p @ [remaining]\<rparr>)
              else (remaining, p\<lparr>ec_heap := []\<rparr>)
      else ([], p))"

text \<open>\<open>tryHandle\<close>: the handler runs in a goroutine of its own; the second result is the
  argument of the call that is started.\<close>

definition tryHandle :: "EventCleaner \<Rightarrow> string list \<Rightarrow> error option \<times> string list option" where
  "tryHandle p keys =
     (case ec_handler p of
        None \<Rightarrow> (Some ErrNoHandler, None)
      | Some handler \<Rightarrow> (None, Some keys))"

definition processBatch_step ::
  "EventCleaner \<Rightarrow> ((error option \<times> string list option) \<times> EventCleaner) option" where
  "processBatch_step p =
     (case ec_batchCh p of
        [] \<Rightarrow> None
      | batch # rest \<Rightarrow> Some (tryHandle p (map Key batch), p\<lparr>ec_batchCh := rest\<rparr>))"

text \<open>The cancellation case of \<open>processBatch\<close>: handle what the channel still has.\<close>

fun processBatch_drain ::
  "EventCleaner \<Rightarrow> Event list list \<Rightarrow> (error option \<times> string list option) list" where
  "processBatch_drain p [] = []"
| "processBatch_drain p (batch # rest) = tryHandle p (map Key batch) # processBatch_drain p rest"

text \<open>\<open>processTasks\<close>: one goroutine per injected function, none when there is none.\<close>

definition processTasks :: "EventCleaner \<Rightarrow> nat list" where
  "processTasks p = (if length (ec_tasks p) = 0 then [] else ec_tasks p)"

section \<open>A tick of the heap goroutine\<close>

lemma collect_stop:
  "heap = [] \<or> now - Time (heap ! 0) < delay \<Longrightarrow>
   processHeap_collect now delay bsize heap batch = ([], batch, heap)"
  by (subst processHeap_collect.simps) (auto simp: EventHeap_Len_def)

lemma collect_pop:
  assumes "heap \<noteq> []" and "delay \<le> now - Time (heap ! 0)"
  obtains heap' where "heap_Pop heap = Inr (heap ! 0, heap')"
    and "processHeap_collect now delay bsize heap batch =
      (if bsize \<le> int (Suc (length batch))
       then (case processHeap_collect now delay bsize heap' [] of
               (bs, rest, h) \<Rightarrow> ((batch @ [heap ! 0]) # bs, rest, h))
       else processHeap_collect now delay bsize heap' (batch @ [heap ! 0]))"
proof -
  obtain heap' where "heap_Pop heap = Inr (heap ! 0, heap')"
    using eheap.pop_nonempty[of heap] assms(1) by auto
  with assms that show thesis
    by (subst (asm) processHeap_collect.simps) (simp add: EventHeap_Len_def)
qed

text \<open>The events a tick takes out, and what it leaves.\<close>

definition expired_prefix :: "time \<Rightarrow> duration \<Rightarrow> EventHeap \<Rightarrow> Event list \<Rightarrow> EventHeap \<Rightarrow> bool" where
  "expired_prefix now delay heap xs h \<longleftrightarrow>
     mset heap = mset xs + mset h \<and> heap_inv (length h) h \<and> sorted (map Time xs) \<and>
     (\<forall>x \<in> set xs. delay \<le> now - Time x) \<and> (\<forall>y \<in> set h. now - Time y < delay)"

lemma expired_prefix_stop:
  assumes "heap_inv (length heap) heap" and "heap = [] \<or> now - Time (heap ! 0) < delay"
  shows "expired_prefix now delay heap [] heap"
  using assms eheap.first_earliest[of heap] by (fastforce simp: expired_prefix_def)

lemma expired_prefix_pop:
  assumes "heap_inv (length heap) heap" and "heap_Pop heap = Inr (e, heap')"
    and "delay \<le> now - Time e" and "expired_prefix now delay heap' xs h"
  shows "expired_prefix now delay heap (e # xs) h"
proof -
  have "\<forall>x \<in> set xs. Time e \<le> Time x"
  proof
    fix x assume "x \<in> set xs"
    then have "x \<in># mset heap'" using assms(4) by (simp add: expired_prefix_def)
    then show "Time e \<le> Time x" using eheap.pop_earliest[OF assms(1,2)] by blast
  qed
  then show ?thesis
    using assms(3,4) eheap.pop_elems[OF assms(2)] by (simp add: expired_prefix_def)
qed

text \<open>A cut into batches: full ones first, then an incomplete one. A configured size below
  one makes every event a batch of its own.\<close>

definition batched :: "int \<Rightarrow> Event list list \<Rightarrow> Event list \<Rightarrow> bool" where
  "batched bsize bs rest \<longleftrightarrow> (\<forall>b \<in> set bs. int (length b) = max 1 bsize) \<and>
     int (length rest) < max 1 bsize"

lemma collect_spec:
  assumes "heap_inv (length heap) heap" and "int (length batch) < max 1 bsize"
    and "processHeap_collect now delay bsize heap batch = (bs, rest, h)"
  shows "\<exists>xs. concat bs @ rest = batch @ xs \<and> expired_prefix now delay heap xs h \<and>
    batched bsize bs rest"
  using assms
proof (induction "length heap" arbitrary: heap batch bs rest rule: less_induct)
  case less
  show ?case
  proof (cases "heap = [] \<or> now - Time (heap ! 0) < delay")
    case True
    then have "bs = [] \<and> rest = batch \<and> h = heap"
      using less.prems(3) by (simp add: collect_stop)
    with True less.prems show ?thesis
      by (auto intro!: exI[of _ "[]"] expired_prefix_stop simp: batched_def)
  next
    case False
    then have "heap \<noteq> []" and old: "delay \<le> now - Time (heap ! 0)" by auto
    then obtain heap' where pop: "heap_Pop heap = Inr (heap ! 0, heap')" and
      eq: "processHeap_collect now delay bsize heap batch =
        (if bsize \<le> int (Suc (length batch))
         then (case processHeap_collect now delay bsize heap' [] of
                 (bs, rest, h) \<Rightarrow> ((batch @ [heap ! 0]) # bs, rest, h))
         else processHeap_collect now delay bsize heap' (batch @ [heap ! 0]))"
      by (rule collect_pop)
    have small: "length heap' < length heap" and inv: "heap_inv (length heap') heap'"
      using eheap.pop_size[OF pop] eheap.pop_invar[OF less.prems(1) pop] by auto
    show ?thesis
    proof (cases "bsize \<le> int (Suc (length batch))")
      case full: True
      obtain bs' where bs': "processHeap_collect now delay bsize heap' [] = (bs', rest, h)"
        and "bs = (batch @ [heap ! 0]) # bs'"
        using less.prems(3) full unfolding eq by (auto split: prod.splits)
      obtain xs where "concat bs' @ rest = xs" "expired_prefix now delay heap' xs h"
        "batched bsize bs' rest"
        using less.hyps[OF small inv _ bs'] less.prems(2) by auto
      then show ?thesis
        using full less.prems(1,2) pop old \<open>bs = _\<close>
        by (auto intro!: exI[of _ "heap ! 0 # xs"] expired_prefix_pop simp: batched_def)
    next
      case more: False
      obtain xs where "concat bs @ rest = batch @ [heap ! 0] @ xs"
        "expired_prefix now delay heap' xs h" "batched bsize bs rest"
        using less.hyps[OF small inv, of "batch @ [heap ! 0]"] more less.prems(3) unfolding eq by auto
      then show ?thesis
        using less.prems(1) pop old
        by (auto intro!: exI[of _ "heap ! 0 # xs"] expired_prefix_pop)
    qed
  qed
qed


lemma tick_spec:
  assumes "heap_inv (length (ec_heap p)) (ec_heap p)" and "processHeap_tick now p = (bs, rest, p')"
  shows "expired_prefix now (ec_eventDelay p) (ec_heap p) (concat bs @ rest) (ec_heap p')"
    and "batched (ec_batchSize p) bs rest" and "p' = p\<lparr>ec_heap := ec_heap p'\<rparr>"
  using assms collect_spec[of "ec_heap p" "[]" "ec_batchSize p" now "ec_eventDelay p" bs rest "ec_heap p'"]
  by (auto simp: processHeap_tick_def split: prod.splits)

lemma pop_all_spec:
  assumes "heap_inv (length heap) heap"
  shows "mset (pop_all heap) = mset heap \<and> sorted (map Time (pop_all heap))"
  using assms
proof (induction "length heap" arbitrary: heap rule: less_induct)
  case less
  show ?case
  proof (cases "heap = []")
    case True
    then show ?thesis by (simp add: pop_all.simps EventHeap_Len_def)
  next
    case False
    then obtain e heap' where pop: "heap_Pop heap = Inr (e, heap')"
      using eheap.pop_nonempty[of heap] by auto
    have "length heap' < length heap" and "heap_inv (length heap') heap'"
      using eheap.pop_size[OF pop] eheap.pop_invar[OF less.prems pop] by auto
    note IH = less.hyps[OF this]
    have "pop_all heap = e # pop_all heap'"
      using False pop by (subst pop_all.simps) (simp add: EventHeap_Len_def)
    moreover have "\<forall>x \<in> set (pop_all heap'). Time e \<le> Time x"
      using eheap.pop_earliest[OF less.prems pop] IH by (metis set_mset_mset)
    ultimately show ?thesis
      using IH eheap.pop_elems[OF pop] by simp
  qed
qed

section \<open>The goroutines together\<close>

text \<open>
  The running cleaner: the struct, the batches \<open>processHeap\<close> still has to send
  (\<open>cs_full\<close> with \<open>heapMu\<close> held, \<open>cs_rest\<close> after the unlock), which goroutines are
  alive, the clock of the last tick, and three records of what happened: the events
  \<open>SendEvent\<close> accepted, the calls of the handler, and the keys no handler will see.
\<close>

record cleaner_sys =
  cs_ec :: EventCleaner
  cs_full :: "Event list list"
  cs_rest :: "Event list"
  cs_recv :: bool
  cs_heapg :: bool
  cs_batchg :: bool
  cs_clock :: time
  cs_sent :: "Event list"
  cs_calls :: "string list list"
  cs_lost :: "string list"

text \<open>\<open>Start\<close>: the three goroutines run; the fourth runs the injected tasks.\<close>

definition EventCleaner_Start :: "time \<Rightarrow> EventCleaner \<Rightarrow> nat list \<times> cleaner_sys" where
  "EventCleaner_Start now p =
     (processTasks p,
      \<lparr>cs_ec = p, cs_full = [], cs_rest = [], cs_recv = True, cs_heapg = True, cs_batchg = True,
       cs_clock = now, cs_sent = [], cs_calls = [], cs_lost = []\<rparr>)"

fun record_call :: "string list \<Rightarrow> error option \<times> string list option \<Rightarrow> cleaner_sys \<Rightarrow> cleaner_sys" where
  "record_call keys (_, Some ks) s = s\<lparr>cs_calls := cs_calls s @ [ks]\<rparr>"
| "record_call keys (_, None) s = s\<lparr>cs_lost := cs_lost s @ keys\<rparr>"

inductive cleaner_step :: "cleaner_sys \<Rightarrow> cleaner_sys \<Rightarrow> bool" where
  send: "(None, p') \<in> set (SendEvent e (cs_ec s)) \<Longrightarrow>
    cleaner_step s (s\<lparr>cs_ec := p', cs_sent := cs_sent s @ [e]\<rparr>)"
| receive: "cs_recv s \<Longrightarrow> cs_full s = [] \<Longrightarrow> receiveEvents_step (cs_ec s) = Some p' \<Longrightarrow>
    cleaner_step s (s\<lparr>cs_ec := p'\<rparr>)"
| receive_stop: "cs_recv s \<Longrightarrow> ec_done (cs_ec s) \<Longrightarrow> cleaner_step s (s\<lparr>cs_recv := False\<rparr>)"
| tick: "cs_heapg s \<Longrightarrow> cs_full s = [] \<Longrightarrow> cs_rest s = [] \<Longrightarrow> cs_clock s \<le> now \<Longrightarrow>
    processHeap_tick now (cs_ec s) = (bs, rest, p') \<Longrightarrow>
    cleaner_step s (s\<lparr>cs_ec := p', cs_full := bs, cs_rest := rest, cs_clock := now\<rparr>)"
| send_full: "cs_full s = b # bs \<Longrightarrow> length (ec_batchCh (cs_ec s)) < batchChCap \<Longrightarrow>
    cleaner_step s (s\<lparr>cs_ec := (cs_ec s)\<lparr>ec_batchCh := ec_batchCh (cs_ec s) @ [b]\<rparr>, cs_full := bs\<rparr>)"
| send_rest: "cs_full s = [] \<Longrightarrow> cs_rest s \<noteq> [] \<Longrightarrow> length (ec_batchCh (cs_ec s)) < batchChCap \<Longrightarrow>
    cleaner_step s (s\<lparr>cs_ec := (cs_ec s)\<lparr>ec_batchCh := ec_batchCh (cs_ec s) @ [cs_rest s]\<rparr>, cs_rest := []\<rparr>)"
| abandon: "ec_done (cs_ec s) \<Longrightarrow> cs_full s \<noteq> [] \<or> cs_rest s \<noteq> [] \<Longrightarrow>
    cleaner_step s (s\<lparr>cs_heapg := False, cs_full := [], cs_rest := [],
      cs_lost := cs_lost s @ map Key (concat (cs_full s) @ cs_rest s)\<rparr>)"
| flush: "cs_heapg s \<Longrightarrow> ec_done (cs_ec s) \<Longrightarrow> cs_full s = [] \<Longrightarrow> cs_rest s = [] \<Longrightarrow>
    processHeap_cancel (cs_ec s) = (dropped, p') \<Longrightarrow>
    cleaner_step s (s\<lparr>cs_ec := p', cs_heapg := False, cs_lost := cs_lost s @ map Key dropped\<rparr>)"
| handle: "cs_batchg s \<Longrightarrow> ec_batchCh (cs_ec s) = batch # rest \<Longrightarrow>
    processBatch_step (cs_ec s) = Some (r, p') \<Longrightarrow>
    cleaner_step s (record_call (map Key batch) r (s\<lparr>cs_ec := p'\<rparr>))"
| handle_stop: "cs_batchg s \<Longrightarrow> ec_done (cs_ec s) \<Longrightarrow>
    cleaner_step s (fold (\<lambda>(batch, r). record_call (map Key batch) r)
      (zip (ec_batchCh (cs_ec s)) (processBatch_drain (cs_ec s) (ec_batchCh (cs_ec s))))
      (s\<lparr>cs_ec := (cs_ec s)\<lparr>ec_batchCh := []\<rparr>, cs_batchg := False\<rparr>))"
| cancel: "cleaner_step s (s\<lparr>cs_ec := (cs_ec s)\<lparr>ec_done := True\<rparr>\<rparr>)"

definition cleaner_reachable :: "time \<Rightarrow> CleanerOption list \<Rightarrow> cleaner_sys \<Rightarrow> bool" where
  "cleaner_reachable now ops =
     cleaner_step\<^sup>*\<^sup>* (snd (EventCleaner_Start now (NewEventCleaner ops)))"

text \<open>The invariant: every accepted key is in exactly one place; the channels respect their
  capacities; nothing is lost and nothing is early while the context lives.\<close>

definition keys_in_flight :: "cleaner_sys \<Rightarrow> string multiset" where
  "keys_in_flight s =
     mset (map Key (ec_eventCh (cs_ec s) @ ec_heap (cs_ec s) @ concat (ec_batchCh (cs_ec s)) @
       concat (cs_full s) @ cs_rest s))"

definition aged :: "cleaner_sys \<Rightarrow> Event list \<Rightarrow> bool" where
  "aged s b \<longleftrightarrow> (\<forall>e \<in> set b. ec_eventDelay (cs_ec s) \<le> cs_clock s - Time e)"

definition aged_call :: "cleaner_sys \<Rightarrow> string list \<Rightarrow> bool" where
  "aged_call s ks \<longleftrightarrow> (\<exists>b. ks = map Key b \<and> aged s b \<and> int (length b) \<le> max 1 (ec_batchSize (cs_ec s)))"

definition aged_batch :: "cleaner_sys \<Rightarrow> Event list \<Rightarrow> bool" where
  "aged_batch s b \<longleftrightarrow> aged s b \<and> int (length b) \<le> max 1 (ec_batchSize (cs_ec s))"

definition cleaner_conserves :: "cleaner_sys \<Rightarrow> bool" where
  "cleaner_conserves s \<longleftrightarrow>
     mset (map Key (cs_sent s)) = keys_in_flight s + mset (concat (cs_calls s)) + mset (cs_lost s)"

definition cleaner_bounded :: "cleaner_sys \<Rightarrow> bool" where
  "cleaner_bounded s \<longleftrightarrow>
     heap_inv (length (ec_heap (cs_ec s))) (ec_heap (cs_ec s)) \<and>
     length (ec_batchCh (cs_ec s)) \<le> batchChCap \<and>
     (\<exists>cap. ec_eventCap (cs_ec s) = Some cap \<and> length (ec_eventCh (cs_ec s)) \<le> cap)"

definition cleaner_timely :: "cleaner_sys \<Rightarrow> bool" where
  "cleaner_timely s \<longleftrightarrow>
     (\<not> ec_done (cs_ec s) \<longrightarrow>
        (\<forall>b \<in> set (ec_batchCh (cs_ec s)) \<union> set (cs_full s) \<union> {cs_rest s}. aged_batch s b) \<and>
        (\<forall>ks \<in> set (cs_calls s). aged_call s ks) \<and>
        cs_recv s \<and> cs_heapg s \<and> cs_batchg s \<and>
        (ec_handler (cs_ec s) \<noteq> None \<longrightarrow> cs_lost s = []))"

lemmas cleaner_inv_defs = cleaner_conserves_def cleaner_bounded_def cleaner_timely_def
  keys_in_flight_def aged_call_def aged_batch_def aged_def

lemma drain_record:
  "fold (\<lambda>(batch, r). record_call (map Key batch) r) (zip bs (processBatch_drain p bs)) s =
     (case ec_handler p of
        None \<Rightarrow> s\<lparr>cs_lost := cs_lost s @ map Key (concat bs)\<rparr>
      | Some _ \<Rightarrow> s\<lparr>cs_calls := cs_calls s @ map (map Key) bs\<rparr>)"
  by (induction bs arbitrary: s) (auto simp: tryHandle_def split: option.splits)

lemma step_conserves:
  "cleaner_step s s' \<Longrightarrow> cleaner_bounded s \<Longrightarrow> cleaner_conserves s \<Longrightarrow> cleaner_conserves s'"
proof (induction rule: cleaner_step.induct)
  case (tick s now bs rest p')
  then have "mset (ec_heap (cs_ec s)) = mset (concat bs @ rest) + mset (ec_heap p')"
    and "p' = (cs_ec s)\<lparr>ec_heap := ec_heap p'\<rparr>"
    using tick_spec[OF _ tick.hyps(5)] by (auto simp: cleaner_bounded_def expired_prefix_def)
  moreover from this(2) have "ec_eventCh p' = ec_eventCh (cs_ec s)" "ec_batchCh p' = ec_batchCh (cs_ec s)"
    by (metis EventCleaner.ext_inject EventCleaner.surjective EventCleaner.update_convs(3))+
  ultimately show ?case
    using tick by (simp add: cleaner_conserves_def keys_in_flight_def)
next
  case (flush s dropped p')
  then show ?case
    using pop_all_spec[of "ec_heap (cs_ec s)"]
    by (auto simp: cleaner_inv_defs processHeap_cancel_def EventHeap_Len_def Let_def split: if_splits)
next
  case (handle_stop s)
  then show ?case
    by (auto simp: cleaner_inv_defs drain_record mset_concat[symmetric] map_concat split: option.splits)
qed (auto simp: cleaner_inv_defs SendEvent_def receiveEvents_step_def processBatch_step_def tryHandle_def
    heap_Push_frame split: option.splits list.splits if_splits)

lemma step_bounded: "cleaner_step s s' \<Longrightarrow> cleaner_bounded s \<Longrightarrow> cleaner_bounded s'"
proof (induction rule: cleaner_step.induct)
  case (tick s now bs rest p')
  then show ?case
    using tick_spec[OF _ tick.hyps(5)]
    by (auto simp: cleaner_bounded_def expired_prefix_def processHeap_tick_def split: prod.splits)
next
  case (receive s p')
  then show ?case
    by (auto simp: cleaner_bounded_def receiveEvents_step_def intro: heap_Push_inv split: list.splits)
next
  case (handle s batch rest r p')
  then show ?case
    by (auto simp: cleaner_bounded_def processBatch_step_def tryHandle_def split: option.splits)
next
  case (handle_stop s)
  then show ?case
    by (auto simp: cleaner_bounded_def drain_record split: option.splits)
qed (auto simp: cleaner_bounded_def SendEvent_def processHeap_cancel_def Let_def heap_inv_def
    split: if_splits option.splits)

lemma aged_later: "aged s b \<Longrightarrow> cs_clock s \<le> cs_clock s' \<Longrightarrow>
    ec_eventDelay (cs_ec s') = ec_eventDelay (cs_ec s) \<Longrightarrow> aged s' b"
  by (fastforce simp: aged_def)

text \<open>A step keeps \<open>cleaner_timely\<close> when it only moves batches that are already old enough.\<close>

lemma timely_frame:
  assumes "cleaner_timely s" and "cs_clock s \<le> cs_clock s'"
    and "ec_eventDelay (cs_ec s') = ec_eventDelay (cs_ec s)" and "ec_batchSize (cs_ec s') = ec_batchSize (cs_ec s)"
    and "ec_handler (cs_ec s') = ec_handler (cs_ec s)" and "ec_done (cs_ec s') = ec_done (cs_ec s)"
    and "cs_recv s' = cs_recv s" "cs_heapg s' = cs_heapg s" "cs_batchg s' = cs_batchg s"
    and "\<forall>b \<in> set (ec_batchCh (cs_ec s')) \<union> set (cs_full s') \<union> {cs_rest s'}.
      b \<in> set (ec_batchCh (cs_ec s)) \<union> set (cs_full s) \<union> {cs_rest s} \<or> aged_batch s' b"
    and "\<forall>ks \<in> set (cs_calls s'). ks \<in> set (cs_calls s) \<or> (\<exists>b \<in> set (ec_batchCh (cs_ec s)). ks = map Key b)"
    and "ec_handler (cs_ec s) \<noteq> None \<longrightarrow> cs_lost s' = cs_lost s"
  shows "cleaner_timely s'"
proof -
  have later: "aged s b \<Longrightarrow> aged s' b" for b
    using aged_later[of s b s'] assms(2,3) by simp
  then have "aged_call s ks \<Longrightarrow> aged_call s' ks" and b: "aged_batch s b \<Longrightarrow> aged_batch s' b" for ks b
    using assms(4) by (auto simp: aged_call_def aged_batch_def)
  moreover have "aged_batch s' b \<Longrightarrow> aged_call s' (map Key b)" for b
    by (auto simp: aged_call_def aged_batch_def)
  ultimately show ?thesis
    using assms(1,5-) unfolding cleaner_timely_def by (metis UnI1)
qed

lemma timely_done: "ec_done (cs_ec s) \<Longrightarrow> cleaner_timely s"
  by (simp add: cleaner_timely_def)

lemma step_timely:
  "cleaner_step s s' \<Longrightarrow> cleaner_bounded s \<Longrightarrow> cleaner_timely s \<Longrightarrow> cleaner_timely s'"
proof (induction rule: cleaner_step.induct)
  case (send p' e s)
  then have "p' = (cs_ec s)\<lparr>ec_eventCh := ec_eventCh (cs_ec s) @ [e]\<rparr>"
    by (auto simp: SendEvent_def split: option.splits if_splits)
  then show ?case
    using send.prems by - (rule timely_frame[of s]; simp_all)
next
  case (receive s p')
  then obtain ch h where "p' = (cs_ec s)\<lparr>ec_eventCh := ch, ec_heap := h\<rparr>"
    by (auto simp: receiveEvents_step_def split: list.splits)
  then show ?case
    using receive.prems by - (rule timely_frame[of s]; simp_all)
next
  case (tick s now bs rest p')
  have p': "ec_done p' = ec_done (cs_ec s)" "ec_eventDelay p' = ec_eventDelay (cs_ec s)"
    "ec_batchSize p' = ec_batchSize (cs_ec s)" "ec_handler p' = ec_handler (cs_ec s)"
    "ec_batchCh p' = ec_batchCh (cs_ec s)"
    using tick.hyps(5) by (auto simp: processHeap_tick_def split: prod.splits)
  have new: "expired_prefix now (ec_eventDelay (cs_ec s)) (ec_heap (cs_ec s)) (concat bs @ rest) (ec_heap p')"
    "batched (ec_batchSize (cs_ec s)) bs rest"
    using tick_spec[OF _ tick.hyps(5)] tick.prems(1) by (auto simp: cleaner_bounded_def)
  have "aged_batch (s\<lparr>cs_ec := p', cs_full := bs, cs_rest := rest, cs_clock := now\<rparr>) b"
    if "b \<in> set bs \<union> {rest}" for b
    using new that p' by (auto simp: aged_batch_def aged_def expired_prefix_def batched_def)
  then show ?case
    using tick.prems(2) tick.hyps(4) p' by - (rule timely_frame[of s]; auto)
next
  case (send_full s b bs)
  then show ?case by - (rule timely_frame[of s]; auto)
next
  case (send_rest s)
  then show ?case
    by - (rule timely_frame[of s]; auto simp: aged_batch_def aged_def)
next
  case (handle s batch rest r p')
  then have p': "p' = (cs_ec s)\<lparr>ec_batchCh := rest\<rparr>" "r = tryHandle (cs_ec s) (map Key batch)"
    by (simp_all add: processBatch_step_def)
  show ?case
  proof (cases "ec_handler (cs_ec s)")
    case None
    with handle.hyps handle.prems p' show ?thesis
      by - (rule timely_frame[of s]; auto simp: tryHandle_def)
  next
    case (Some h)
    with handle.hyps handle.prems p' show ?thesis
      by - (rule timely_frame[of s]; auto simp: tryHandle_def)
  qed
next
  case (handle_stop s)
  then show ?case
    by (auto simp: drain_record intro!: timely_done split: option.splits)
qed (auto intro!: timely_done simp: processHeap_cancel_def Let_def split: if_splits)

lemma NewEventCleaner_fields:
  "ec_eventCh (NewEventCleaner ops) = [] \<and> ec_heap (NewEventCleaner ops) = [] \<and>
   ec_batchCh (NewEventCleaner ops) = [] \<and> \<not> ec_done (NewEventCleaner ops) \<and>
   ec_eventCap (NewEventCleaner ops) \<noteq> None"
proof -
  have "ec_eventCh ec = [] \<and> ec_heap ec = [] \<and> ec_batchCh ec = [] \<and> \<not> ec_done ec \<Longrightarrow>
      ec_eventCh (fold apply_cleaner_option ops ec) = [] \<and>
      ec_heap (fold apply_cleaner_option ops ec) = [] \<and>
      ec_batchCh (fold apply_cleaner_option ops ec) = [] \<and>
      \<not> ec_done (fold apply_cleaner_option ops ec)" for ec
  proof (induction ops arbitrary: ec)
    case (Cons opt ops)
    then show ?case by (cases opt) simp_all
  qed simp
  then show ?thesis by (simp add: NewEventCleaner_def Let_def)
qed

lemma cleaner_reachable_inv:
  assumes "cleaner_reachable now ops s"
  shows "cleaner_bounded s \<and> cleaner_conserves s \<and> cleaner_timely s"
  using assms unfolding cleaner_reachable_def
proof (induction rule: rtranclp_induct)
  case base
  then show ?case
    using NewEventCleaner_fields[of ops]
    by (auto simp: cleaner_inv_defs EventCleaner_Start_def heap_inv_def)
next
  case (step s s')
  then show ?case
    using step_bounded step_conserves step_timely by blast
qed

section \<open>Draining\<close>

text \<open>A cleaner whose goroutines run and have a handler can always empty its queues.\<close>

definition live :: "cleaner_sys \<Rightarrow> bool" where
  "live s \<longleftrightarrow> \<not> ec_done (cs_ec s) \<and> cs_recv s \<and> cs_heapg s \<and> cs_batchg s \<and> ec_handler (cs_ec s) \<noteq> None"

definition drains_to :: "cleaner_sys \<Rightarrow> cleaner_sys \<Rightarrow> bool" where
  "drains_to s s' \<longleftrightarrow> cleaner_step\<^sup>*\<^sup>* s s' \<and> live s' \<and> cs_sent s' = cs_sent s"

lemma drains_to_trans: "drains_to s s' \<Longrightarrow> drains_to s' s'' \<Longrightarrow> drains_to s s''"
  by (auto simp: drains_to_def)

lemma drains_to_step: "cleaner_step s s' \<Longrightarrow> live s' \<Longrightarrow> cs_sent s' = cs_sent s \<Longrightarrow> drains_to s s'"
  by (auto simp: drains_to_def)

lemma drain_batches:
  assumes "live s"
  shows "\<exists>s'. drains_to s s' \<and> ec_batchCh (cs_ec s') = [] \<and> cs_full s' = [] \<and> cs_rest s' = [] \<and>
    ec_eventCh (cs_ec s') = ec_eventCh (cs_ec s) \<and> ec_heap (cs_ec s') = ec_heap (cs_ec s)"
  using assms
proof (induction "2 * length (cs_full s) + 2 * length (cs_rest s) + length (ec_batchCh (cs_ec s))"
    arbitrary: s rule: less_induct)
  case less
  have "\<exists>s1. cleaner_step s s1 \<and> live s1 \<and> cs_sent s1 = cs_sent s \<and>
      2 * length (cs_full s1) + 2 * length (cs_rest s1) + length (ec_batchCh (cs_ec s1))
        < 2 * length (cs_full s) + 2 * length (cs_rest s) + length (ec_batchCh (cs_ec s)) \<and>
      ec_eventCh (cs_ec s1) = ec_eventCh (cs_ec s) \<and> ec_heap (cs_ec s1) = ec_heap (cs_ec s)"
    if "\<not> (ec_batchCh (cs_ec s) = [] \<and> cs_full s = [] \<and> cs_rest s = [])"
  proof (cases "ec_batchCh (cs_ec s)")
    case (Cons batch rest)
    then show ?thesis
      using less.prems cleaner_step.handle[of s batch rest]
      by (fastforce simp: processBatch_step_def tryHandle_def live_def)
  next
    case Nil
    show ?thesis
    proof (cases "cs_full s")
      case (Cons b bs)
      then show ?thesis
        using less.prems Nil cleaner_step.send_full[of s b bs]
        by (fastforce simp: live_def batchChCap_def)
    next
      case full: Nil
      then have "cs_rest s \<noteq> []" using that Nil by simp
      then show ?thesis
        using less.prems Nil full cleaner_step.send_rest[of s]
        by (intro exI[of _ "s\<lparr>cs_ec := (cs_ec s)\<lparr>ec_batchCh := [cs_rest s]\<rparr>, cs_rest := []\<rparr>"])
          (cases "cs_rest s"; simp add: live_def batchChCap_def)
    qed
  qed
  note one = this
  show ?case
  proof (cases "ec_batchCh (cs_ec s) = [] \<and> cs_full s = [] \<and> cs_rest s = []")
    case True
    then show ?thesis using less.prems by (auto simp: drains_to_def)
  next
    case False
    then obtain s1 where s1: "drains_to s s1" "live s1"
        "2 * length (cs_full s1) + 2 * length (cs_rest s1) + length (ec_batchCh (cs_ec s1))
          < 2 * length (cs_full s) + 2 * length (cs_rest s) + length (ec_batchCh (cs_ec s))"
        "ec_eventCh (cs_ec s1) = ec_eventCh (cs_ec s)" "ec_heap (cs_ec s1) = ec_heap (cs_ec s)"
      using one drains_to_step by blast
    then show ?thesis
      using less.hyps[OF s1(3,2)] drains_to_trans[OF s1(1)] by auto
  qed
qed

lemma drain_channel:
  assumes "live s" and "cs_full s = []"
  shows "\<exists>s'. drains_to s s' \<and> ec_eventCh (cs_ec s') = [] \<and> cs_full s' = [] \<and>
    cs_rest s' = cs_rest s \<and> ec_batchCh (cs_ec s') = ec_batchCh (cs_ec s)"
  using assms
proof (induction "ec_eventCh (cs_ec s)" arbitrary: s)
  case Nil
  then show ?case by (auto simp: drains_to_def)
next
  case (Cons e es)
  let ?p = "(cs_ec s)\<lparr>ec_eventCh := es, ec_heap := heap_Push (ec_heap (cs_ec s)) e\<rparr>"
  have "receiveEvents_step (cs_ec s) = Some ?p"
    using Cons.hyps(2)[symmetric] by (simp add: receiveEvents_step_def)
  then have "cleaner_step s (s\<lparr>cs_ec := ?p\<rparr>)"
    using Cons.prems by (intro cleaner_step.receive) (auto simp: live_def)
  then have "drains_to s (s\<lparr>cs_ec := ?p\<rparr>)"
    using Cons.prems by (intro drains_to_step) (auto simp: live_def)
  moreover have "es = ec_eventCh (cs_ec (s\<lparr>cs_ec := ?p\<rparr>))" by simp
  note Cons.hyps(1)[OF this]
  ultimately show ?case
    using Cons.prems drains_to_trans by (fastforce simp: live_def)
qed

lemma drain_heap:
  assumes "live s" and "cleaner_bounded s" and "cs_full s = []" and "cs_rest s = []"
  shows "\<exists>s'. drains_to s s' \<and> ec_heap (cs_ec s') = [] \<and>
    ec_eventCh (cs_ec s') = ec_eventCh (cs_ec s)"
proof -
  define now where "now = Max (insert (cs_clock s)
    ((\<lambda>e. Time e + ec_eventDelay (cs_ec s)) ` set (ec_heap (cs_ec s))))"
  have clock: "cs_clock s \<le> now" and old: "e \<in> set (ec_heap (cs_ec s)) \<Longrightarrow>
      ec_eventDelay (cs_ec s) \<le> now - Time e" for e
    by (auto simp: now_def le_diff_eq add.commute intro!: Max_ge)
  obtain bs rest p' where t: "processHeap_tick now (cs_ec s) = (bs, rest, p')"
    using prod_cases3 by blast
  have x: "expired_prefix now (ec_eventDelay (cs_ec s)) (ec_heap (cs_ec s)) (concat bs @ rest) (ec_heap p')"
    using tick_spec(1)[OF _ t] assms(2) by (simp add: cleaner_bounded_def)
  have "set (ec_heap p') \<subseteq> set (ec_heap (cs_ec s))"
    using x by (metis expired_prefix_def mset_subset_eq_add_right set_mset_mono set_mset_mset)
  moreover have "e \<in> set (ec_heap p') \<Longrightarrow> now - Time e < ec_eventDelay (cs_ec s)" for e
    using x by (simp add: expired_prefix_def)
  ultimately have "ec_heap p' = []"
    using old by (metis list.set_intros(1) list.exhaust not_le subsetD)
  moreover have "cleaner_step s (s\<lparr>cs_ec := p', cs_full := bs, cs_rest := rest, cs_clock := now\<rparr>)"
    using assms clock t by (intro cleaner_step.tick) (auto simp: live_def)
  moreover have "p' = (cs_ec s)\<lparr>ec_heap := ec_heap p'\<rparr>"
    using t by (auto simp: processHeap_tick_def split: prod.splits)
  moreover from this have "live (s\<lparr>cs_ec := p', cs_full := bs, cs_rest := rest, cs_clock := now\<rparr>)"
    "ec_eventCh p' = ec_eventCh (cs_ec s)"
    using assms(1) t by (auto simp: live_def processHeap_tick_def split: prod.splits)
  ultimately show ?thesis
    by (intro exI[of _ "s\<lparr>cs_ec := p', cs_full := bs, cs_rest := rest, cs_clock := now\<rparr>"] conjI
        drains_to_step) simp_all
qed

lemma steps_bounded: "cleaner_step\<^sup>*\<^sup>* s s' \<Longrightarrow> cleaner_bounded s \<Longrightarrow> cleaner_bounded s'"
  by (induction rule: rtranclp_induct) (auto intro: step_bounded)

lemma drain_all:
  assumes "live s" and "cleaner_bounded s"
  shows "\<exists>s'. drains_to s s' \<and> keys_in_flight s' = {#}"
proof -
  obtain s1 where s1: "drains_to s s1" "cs_full s1 = []" "cs_rest s1 = []"
    using drain_batches[OF assms(1)] by blast
  obtain s2 where s2: "drains_to s1 s2" "ec_eventCh (cs_ec s2) = []" "cs_full s2 = []" "cs_rest s2 = []"
    using drain_channel[of s1] s1 by (auto simp: drains_to_def)
  have "drains_to s s2" using s1 s2 drains_to_trans by blast
  then obtain s3 where s3: "drains_to s2 s3" "ec_heap (cs_ec s3) = []" "ec_eventCh (cs_ec s3) = []"
    using drain_heap[of s2] s2 steps_bounded assms(2) by (fastforce simp: drains_to_def)
  then obtain s4 where "drains_to s3 s4" "keys_in_flight s4 = {#}"
    using drain_batches[of s3] by (fastforce simp: drains_to_def keys_in_flight_def)
  then show ?thesis
    using \<open>drains_to s s2\<close> s3(1) drains_to_trans by blast
qed

section \<open>Properties\<close>

definition demo_cleaner :: EventCleaner where
  "demo_cleaner = (NewEventCleaner [WithEventHandler (\<lambda>ks. None), WithBatchSize 2])
     \<lparr>ec_heap := heap_Push (heap_Push (heap_Push [] \<lparr>Key = ''c'', Time = 9000000000\<rparr>)
        \<lparr>Key = ''b'', Time = 2\<rparr>) \<lparr>Key = ''a'', Time = 1\<rparr>\<rparr>"

lemma demo_cleaner_heap: "heap_inv (length (ec_heap demo_cleaner)) (ec_heap demo_cleaner)"
proof -
  have "heap_inv (length h) h" if "ec_heap demo_cleaner = h" for h
    using that by (auto simp: demo_cleaner_def heap_inv_def[of 0] intro!: heap_Push_inv)
  then show ?thesis by blast
qed

text \<open>A run with one event: it is sent, received, waits out the delay, is batched and handled.\<close>

definition demo_ops :: "CleanerOption list" where
  "demo_ops = [WithEventHandler (\<lambda>ks. None), WithBatchSize 2]"

definition demo_event :: Event where
  "demo_event = \<lparr>Key = ''lock'', Time = 1\<rparr>"

definition demo_start :: cleaner_sys where
  "demo_start = snd (EventCleaner_Start 0 (NewEventCleaner demo_ops))"

definition demo_handled :: cleaner_sys where
  "demo_handled = demo_start
     \<lparr>cs_clock := 6000000000, cs_sent := [demo_event], cs_calls := [[''lock'']]\<rparr>"

lemmas demo_run_defs = demo_start_def demo_ops_def demo_event_def EventCleaner_Start_def
  NewEventCleaner_def CleanerBufferSize_def CleanerDelay_def Second_def CleanerBatchSize_def

lemma demo_pop: "heap_Pop [e] = Inr (e, [])"
  by (simp add: heap_Pop_def EventHeap_Len_def EventHeap_Swap_def EventHeap_Pop_def heap_down.simps)

lemma demo_push: "heap_Push [] e = [e]"
  by (simp add: heap_Push_def EventHeap_Push_def EventHeap_Len_def heap_up.simps)

lemma demo_cleaner_reachable: "cleaner_reachable 0 demo_ops demo_handled"
proof -
  let ?p = "cs_ec demo_start"
  let ?s1 = "demo_start\<lparr>cs_ec := ?p\<lparr>ec_eventCh := [demo_event]\<rparr>, cs_sent := [demo_event]\<rparr>"
  let ?s2 = "?s1\<lparr>cs_ec := ?p\<lparr>ec_heap := [demo_event]\<rparr>\<rparr>"
  let ?s3 = "?s2\<lparr>cs_ec := ?p, cs_full := [], cs_rest := [demo_event], cs_clock := 6000000000\<rparr>"
  let ?s4 = "?s3\<lparr>cs_ec := ?p\<lparr>ec_batchCh := [[demo_event]]\<rparr>, cs_rest := []\<rparr>"
  have "cleaner_step demo_start ?s1"
    using cleaner_step.send[of "?p\<lparr>ec_eventCh := [demo_event]\<rparr>" demo_event demo_start]
    by (simp add: demo_run_defs SendEvent_def)
  moreover have "cleaner_step ?s1 ?s2"
    using cleaner_step.receive[of ?s1 "?p\<lparr>ec_heap := [demo_event]\<rparr>"]
    by (simp add: demo_run_defs receiveEvents_step_def demo_push)
  moreover have "processHeap_tick 6000000000 (cs_ec ?s2) = ([], [demo_event], ?p)"
    by (simp add: demo_run_defs processHeap_tick_def processHeap_collect.simps EventHeap_Len_def demo_pop)
  then have "cleaner_step ?s2 ?s3"
    using cleaner_step.tick[of ?s2 6000000000 "[]" "[demo_event]" ?p] by (simp add: demo_run_defs)
  moreover have "cleaner_step ?s3 ?s4"
    using cleaner_step.send_rest[of ?s3] by (simp add: demo_run_defs batchChCap_def)
  moreover have "cleaner_step ?s4 demo_handled"
    using cleaner_step.handle[of ?s4 "[demo_event]" "[]"]
    by (simp add: demo_run_defs demo_handled_def processBatch_step_def tryHandle_def)
  ultimately show ?thesis
    unfolding cleaner_reachable_def demo_start_def[symmetric]
    by (meson rtranclp.rtrancl_into_rtrancl rtranclp.rtrancl_refl)
qed

text \<open>C17. A tick of \<open>processHeap\<close> takes exactly the events that are at least
  \<open>eventDelay\<close> old out of the heap: what it sends is sorted by time, every batch but the last
  has exactly the batch size (one event when the configured size is below one) and the last
  has fewer, no event is lost or repeated, what stays is younger, and the heap is a heap again.\<close>

theorem processHeap_tick_exact:
  assumes "heap_inv (length (ec_heap p)) (ec_heap p)" and "processHeap_tick now p = (bs, rest, p')"
  shows "mset (ec_heap p) = mset (concat bs @ rest) + mset (ec_heap p') \<and>
    sorted (map Time (concat bs @ rest)) \<and>
    (\<forall>e \<in> set (concat bs @ rest). ec_eventDelay p \<le> now - Time e) \<and>
    (\<forall>e \<in> set (ec_heap p'). now - Time e < ec_eventDelay p) \<and>
    (\<forall>b \<in> set bs. int (length b) = max 1 (ec_batchSize p)) \<and>
    int (length rest) < max 1 (ec_batchSize p) \<and>
    heap_inv (length (ec_heap p')) (ec_heap p')"
  using tick_spec(1,2)[OF assms] by (simp add: expired_prefix_def batched_def)

theorem processHeap_tick_exact_witness:
  "\<exists>bs rest p'. processHeap_tick 6000000000 demo_cleaner = (bs, rest, p') \<and>
     mset (ec_heap demo_cleaner) = mset (concat bs @ rest) + mset (ec_heap p')"
  using processHeap_tick_exact[OF demo_cleaner_heap, of 6000000000]
  by (cases "processHeap_tick 6000000000 demo_cleaner") auto

text \<open>C14. Whatever the interleaving of the senders, the three goroutines and the
  cancellation, no key is lost silently or handled twice: the keys \<open>SendEvent\<close> accepted are
  those in a channel, the heap or a batch, those handed to the handler, and those recorded as
  dropped.\<close>

theorem cleaner_conservation:
  assumes "cleaner_reachable now ops s"
  shows "mset (map Key (cs_sent s)) =
    keys_in_flight s + mset (concat (cs_calls s)) + mset (cs_lost s)"
  using cleaner_reachable_inv[OF assms] by (simp add: cleaner_conserves_def)

theorem cleaner_conservation_witness:
  "mset (map Key (cs_sent demo_handled)) =
     keys_in_flight demo_handled + mset (concat (cs_calls demo_handled)) + mset (cs_lost demo_handled)"
  using cleaner_conservation[OF demo_cleaner_reachable] .



text \<open>C16. Until the context is cancelled every accepted key can still reach the handler:
  from any reachable state, with no further send, the goroutines have a run after which every
  accepted key has been handed over exactly as often as it was sent.\<close>

theorem cleaner_can_drain:
  assumes "cleaner_reachable now ops s" and "\<not> ec_done (cs_ec s)" and "ec_handler (cs_ec s) \<noteq> None"
  shows "\<exists>s'. cleaner_step\<^sup>*\<^sup>* s s' \<and> cs_sent s' = cs_sent s \<and> keys_in_flight s' = {#} \<and>
    mset (concat (cs_calls s')) = mset (map Key (cs_sent s))"
proof -
  have inv: "cleaner_bounded s" "cleaner_timely s" using cleaner_reachable_inv[OF assms(1)] by auto
  then obtain s' where s': "drains_to s s'" "keys_in_flight s' = {#}"
    using drain_all[of s] assms(2,3) by (auto simp: live_def cleaner_timely_def)
  then have "cleaner_reachable now ops s'"
    using assms(1) by (auto simp: cleaner_reachable_def drains_to_def)
  from cleaner_reachable_inv[OF this] have "cs_lost s' = []" "cleaner_conserves s'"
    using s'(1) by (auto simp: cleaner_timely_def drains_to_def live_def)
  then show ?thesis
    using s' by (intro exI[of _ s']) (simp add: drains_to_def cleaner_conserves_def)
qed

theorem cleaner_can_drain_witness:
  "\<exists>s'. cleaner_step\<^sup>*\<^sup>* demo_handled s' \<and> keys_in_flight s' = {#} \<and>
     mset (concat (cs_calls s')) = {#''lock''#}"
  using cleaner_can_drain[OF demo_cleaner_reachable]
  by (auto simp: demo_handled_def demo_run_defs)

end
