(* ===== verification/Go_Text.thy ===== *)
theory Go_Text
  imports Go_Prelude "HOL-Library.Sublist"
begin

text \<open>
  The text functions of Go's standard library that the registry back ends use: prefixes
  (\<open>strings\<close>), decimal numbers (\<open>fmt\<close> with the verb \<open>d\<close>), and slash-separated paths (\<open>path\<close>).
\<close>

section \<open>Prefixes\<close>

definition HasPrefix :: "string \<Rightarrow> string \<Rightarrow> bool" where
  "HasPrefix s p \<longleftrightarrow> take (length p) s = p"

definition TrimPrefix :: "string \<Rightarrow> string \<Rightarrow> string" where
  "TrimPrefix s p = (if HasPrefix s p then drop (length p) s else s)"

lemma HasPrefix_iff: "HasPrefix s p \<longleftrightarrow> (\<exists>r. s = p @ r)"
  unfolding HasPrefix_def by (metis append_eq_conv_conj append_take_drop_id)

lemma TrimPrefix_append [simp]: "TrimPrefix (p @ r) p = r"
  by (simp add: TrimPrefix_def HasPrefix_def)

lemma HasPrefix_append [simp]: "HasPrefix (p @ r) p"
  by (simp add: HasPrefix_def)

lemma HasPrefix_Nil [simp]: "HasPrefix s []"
  by (simp add: HasPrefix_def)

section \<open>Decimal numbers\<close>

definition digit_char :: "nat \<Rightarrow> char" where
  "digit_char d = char_of (48 + d)"

fun decimal :: "nat \<Rightarrow> string" where
  "decimal n = (if n < 10 then [digit_char n] else decimal (n div 10) @ [digit_char (n mod 10)])"

declare decimal.simps [simp del]

definition Sprintf_d :: "int \<Rightarrow> string" where
  "Sprintf_d n = (if n < 0 then CHR ''-'' # decimal (nat (- n)) else decimal (nat n))"

definition is_digit :: "char \<Rightarrow> bool" where
  "is_digit c \<longleftrightarrow> 48 \<le> (of_char c :: nat) \<and> (of_char c :: nat) \<le> 57"

text \<open>The value of a digit sequence, most significant digit first.\<close>

fun digits_val :: "string \<Rightarrow> nat" where
  "digits_val [] = 0"
| "digits_val (c # cs) = (of_char c - 48) * 10 ^ length cs + digits_val cs"

lemma of_digit_char [simp]: "d < 10 \<Longrightarrow> (of_char (digit_char d) :: nat) = 48 + d"
  by (simp add: digit_char_def)

lemma is_digit_digit_char [simp]: "d < 10 \<Longrightarrow> is_digit (digit_char d)"
  by (simp add: is_digit_def)

lemma digits_val_append: "digits_val (xs @ ys) = digits_val xs * 10 ^ length ys + digits_val ys"
  by (induction xs) (simp_all add: algebra_simps power_add)

lemma digits_val_decimal [simp]: "digits_val (decimal n) = n"
proof (induction n rule: decimal.induct)
  case (1 n)
  then show ?case by (subst decimal.simps) (simp add: digits_val_append)
qed

lemma decimal_digits: "\<forall>c \<in> set (decimal n). is_digit c"
proof (induction n rule: decimal.induct)
  case (1 n)
  then show ?case by (subst decimal.simps) auto
qed

lemma decimal_inj [simp]: "decimal m = decimal n \<longleftrightarrow> m = n"
  by (metis digits_val_decimal)

lemma digits_val_less: "\<forall>c \<in> set xs. is_digit c \<Longrightarrow> digits_val xs < 10 ^ length xs"
proof (induction xs)
  case (Cons c xs)
  have "of_char c - 48 \<le> (9::nat)" using Cons.prems by (auto simp: is_digit_def)
  then have "(of_char c - 48) * 10 ^ length xs \<le> (9::nat) * 10 ^ length xs" by (rule mult_le_mono1)
  moreover have "digits_val xs < 10 ^ length xs" using Cons by simp
  ultimately have "(of_char c - 48) * 10 ^ length xs + digits_val xs < 10 * 10 ^ length xs" by linarith
  then show ?case by (simp only: digits_val.simps length_Cons power_Suc)
qed simp

lemma minus_not_digit: "\<forall>c \<in> set xs. is_digit c \<Longrightarrow> CHR ''-'' \<notin> set xs"
  by (auto simp: is_digit_def)

text \<open>On digit sequences of one length the order of the bytes is the order of the numbers.\<close>

lemma digits_order:
  assumes "length xs = length ys" and "\<forall>c \<in> set xs. is_digit c" and "\<forall>c \<in> set ys. is_digit c"
  shows "xs < ys \<longleftrightarrow> digits_val xs < digits_val ys"
  using assms
proof (induction xs ys rule: list_induct2)
  case (Cons x xs y ys)
  let ?a = "of_char x - (48::nat)" and ?b = "of_char y - (48::nat)" and ?p = "10 ^ length xs"
  have v: "digits_val xs < ?p" "digits_val ys < ?p"
    using Cons.prems Cons.hyps digits_val_less[of xs] digits_val_less[of ys] by simp_all
  have *: "?a < ?b \<longleftrightarrow> x < y" "?a = ?b \<longleftrightarrow> x = y"
    using Cons.prems by (auto simp: is_digit_def less_char_def) (metis add_diff_inverse_nat not_less of_char_eq_iff)
  consider "?a < ?b" | "?a = ?b" | "?b < ?a" by linarith
  then show ?case
  proof cases
    case 1
    then have "(Suc ?a) * ?p \<le> ?b * ?p" by (intro mult_le_mono1) simp
    then show ?thesis using 1 * v Cons.hyps by simp
  next
    case 2
    then show ?thesis using * Cons by simp
  next
    case 3
    then have "(Suc ?b) * ?p \<le> ?a * ?p" by (intro mult_le_mono1) simp
    then show ?thesis using 3 * v Cons.hyps by auto
  qed
qed simp

lemma append_sep_unique:
  "us @ c # xs = vs @ c # ys \<Longrightarrow> c \<notin> set us \<Longrightarrow> c \<notin> set vs \<Longrightarrow> us = vs \<and> xs = ys"
proof (induction us arbitrary: vs)
  case Nil
  then show ?case by (cases vs) auto
next
  case (Cons u us)
  then show ?case by (cases vs) auto
qed

text \<open>A number followed by a minus sign can be read back.\<close>

lemma Sprintf_d_inj_minus:
  assumes "Sprintf_d m @ CHR ''-'' # xs = Sprintf_d n @ CHR ''-'' # ys"
  shows "m = n \<and> xs = ys"
proof -
  have no: "CHR ''-'' \<notin> set (decimal k)" for k
    using minus_not_digit decimal_digits by blast
  have ne: "decimal k \<noteq> []" for k by (subst decimal.simps) simp
  have eq: "decimal j @ CHR ''-'' # xs = decimal k @ CHR ''-'' # ys \<Longrightarrow> j = k \<and> xs = ys" for j k
    using append_sep_unique[of "decimal j" "CHR ''-''" xs "decimal k" ys] no by auto
  have hd: "hd (decimal k @ zs) \<noteq> CHR ''-''" for k zs
  proof -
    have "hd (decimal k) \<in> set (decimal k)" using ne[of k] by simp
    then have "hd (decimal k) \<noteq> CHR ''-''" using no[of k] by metis
    then show ?thesis using ne[of k] by simp
  qed
  have same: "(m < 0) = (n < 0)"
    using arg_cong[OF assms, of hd] hd[of "nat m" "CHR ''-'' # xs"] hd[of "nat n" "CHR ''-'' # ys"]
    by (cases "m < 0"; cases "n < 0") (simp_all add: Sprintf_d_def del: hd_append)
  show ?thesis
  proof (cases "m < 0")
    case True
    then show ?thesis using same assms eq[of "nat (- m)" "nat (- n)"] by (auto simp: Sprintf_d_def)
  next
    case False
    then show ?thesis using same assms eq[of "nat m" "nat n"] by (auto simp: Sprintf_d_def)
  qed
qed

text \<open>The value of \<open>strconv.Atoi\<close> when its error is ignored: 0 for a text that is no number, the nearest
  64-bit integer for a number out of range.\<close>

definition Atoi :: "string \<Rightarrow> int" where
  "Atoi s =
     (let neg = (s \<noteq> [] \<and> hd s = CHR ''-'');
          ds = (if s \<noteq> [] \<and> (hd s = CHR ''-'' \<or> hd s = CHR ''+'') then tl s else s);
          n = int (digits_val ds)
      in if ds = [] \<or> \<not> list_all is_digit ds then 0
         else if neg then max (- (2 ^ 63)) (- n) else min (2 ^ 63 - 1) n)"

lemma Atoi_Sprintf_d:
  assumes "int_range n"
  shows "Atoi (Sprintf_d n) = n"
proof -
  have ne: "decimal k \<noteq> []" for k by (subst decimal.simps) simp
  have dg: "list_all is_digit (decimal k)" for k using decimal_digits[of k] by (simp add: list_all_iff)
  have "is_digit (hd (decimal k))" for k using dg[of k] ne[of k] by (cases "decimal k") auto
  moreover have "\<not> is_digit (CHR ''-'')" "\<not> is_digit (CHR ''+'')" by (simp_all add: is_digit_def)
  ultimately have hd: "hd (decimal k) \<noteq> CHR ''-''" "hd (decimal k) \<noteq> CHR ''+''" for k by metis+
  show ?thesis
    using assms ne dg hd by (cases "n < 0") (simp_all add: Atoi_def Sprintf_d_def Let_def int_range_def)
qed

section \<open>Paths\<close>

fun path_split :: "string \<Rightarrow> string list" where
  "path_split [] = [[]]"
| "path_split (c # cs) =
     (if c = CHR ''/'' then [] # path_split cs
      else case path_split cs of [] \<Rightarrow> [[c]] | e # es \<Rightarrow> (c # e) # es)"

text \<open>The elements of a clean path; \<open>out\<close> has those kept so far, the last one first.\<close>

fun path_elems :: "bool \<Rightarrow> string list \<Rightarrow> string list \<Rightarrow> string list" where
  "path_elems rooted out [] = rev out"
| "path_elems rooted out (e # es) =
     (if e = [] \<or> e = ''.'' then path_elems rooted out es
      else if e = ''..''
      then case out of
             [] \<Rightarrow> path_elems rooted (if rooted then [] else [e]) es
           | o1 # os \<Rightarrow> path_elems rooted (if o1 = ''..'' then e # out else os) es
      else path_elems rooted (e # out) es)"

fun path_cat :: "string list \<Rightarrow> string" where
  "path_cat [] = []"
| "path_cat [e] = e"
| "path_cat (e # es) = e @ ''/'' @ path_cat es"

definition path_Clean :: "string \<Rightarrow> string" where
  "path_Clean p =
     (if p = [] then ''.''
      else let rooted = (hd p = CHR ''/''); body = path_cat (path_elems rooted [] (path_split p))
           in if rooted then CHR ''/'' # body else if body = [] then ''.'' else body)"

definition path_Join :: "string \<Rightarrow> string \<Rightarrow> string" where
  "path_Join a b =
     (if a = [] \<and> b = [] then [] else path_Clean (if a = [] then b else a @ ''/'' @ b))"

definition path_Base :: "string \<Rightarrow> string" where
  "path_Base p =
     (if p = [] then ''.''
      else let q = rev (dropWhile (\<lambda>c. c = CHR ''/'') (rev p))
           in if q = [] then ''/'' else rev (takeWhile (\<lambda>c. c \<noteq> CHR ''/'') (rev q)))"

text \<open>A name that is one element of a path.\<close>

definition path_name :: "string \<Rightarrow> bool" where
  "path_name n \<longleftrightarrow> n \<noteq> [] \<and> CHR ''/'' \<notin> set n \<and> n \<noteq> ''.'' \<and> n \<noteq> ''..''"

lemma path_split_nonempty: "path_split s \<noteq> []"
  by (induction s) (auto split: list.splits)

lemma path_split_name: "CHR ''/'' \<notin> set n \<Longrightarrow> path_split n = [n]"
  by (induction n) auto

lemma path_split_append: "path_split (a @ CHR ''/'' # b) = path_split a @ path_split b"
proof (induction a)
  case (Cons c a)
  then show ?case using path_split_nonempty[of a] by (auto split: list.splits)
qed simp

lemma path_elems_name: "path_name n \<Longrightarrow> path_elems rooted out [n] = rev out @ [n]"
  by (simp add: path_name_def)

lemma path_elems_append_name:
  "path_name n \<Longrightarrow> path_elems rooted out (es @ [n]) = path_elems rooted out es @ [n]"
  by (induction rooted out es rule: path_elems.induct)
    (auto simp: path_name_def split: list.splits)

lemma path_cat_snoc: "es \<noteq> [] \<Longrightarrow> path_cat (es @ [n]) = path_cat es @ ''/'' @ n"
  by (induction es rule: path_cat.induct) auto

text \<open>Joining a rooted directory and a name appends the name to the clean directory.\<close>

lemma path_Join_name:
  assumes "path_name n" and "path_Clean (CHR ''/'' # dir) = CHR ''/'' # d" and "d \<noteq> []"
  shows "path_Join (CHR ''/'' # dir) n = CHR ''/'' # d @ ''/'' @ n"
proof -
  let ?es = "path_elems True [] (path_split (CHR ''/'' # dir))"
  have d: "path_cat ?es = d" using assms(2) by (simp add: path_Clean_def del: path_split.simps)
  then have "?es \<noteq> []" using assms(3) by auto
  then have "path_cat (path_elems True [] (path_split ((CHR ''/'' # dir) @ CHR ''/'' # n))) = d @ ''/'' @ n"
    using assms(1) d path_split_append[of "CHR ''/'' # dir" n]
    by (simp add: path_elems_append_name path_cat_snoc path_split_name path_name_def del: path_split.simps path_elems.simps)
  then show ?thesis by (simp add: path_Join_def path_Clean_def del: path_split.simps)
qed

lemma path_Base_name: "path_name n \<Longrightarrow> path_Base (d @ ''/'' @ n) = n"
proof -
  assume n: "path_name n"
  then obtain c cs where c: "rev n = c # cs" "c \<noteq> CHR ''/''"
    by (cases n rule: rev_cases) (auto simp: path_name_def)
  have "takeWhile (\<lambda>c. c \<noteq> CHR ''/'') (rev n @ CHR ''/'' # rev d) = rev n"
    using n by (intro takeWhile_tail[THEN trans]) (auto simp: path_name_def takeWhile_append)
  then show ?thesis using c by (simp add: path_Base_def)
qed

end
