(* ===== verification/Go_Time.thy ===== *)
theory Go_Time
  imports Go_Text Registry
begin

text \<open>
  Times as texts: \<open>Format\<close> and \<open>Parse\<close> of Go's \<open>time\<close> package with the layout \<open>time.RFC3339\<close>. The
  registry back ends put such texts into the keys of the execution locks. A location is the
  function \<open>zone\<close> from the second to the offset from UTC in seconds.
\<close>

section \<open>The calendar\<close>

definition isLeap :: "int \<Rightarrow> bool" where
  "isLeap y \<longleftrightarrow> y mod 4 = 0 \<and> (y mod 100 \<noteq> 0 \<or> y mod 400 = 0)"

definition daysBefore :: "nat list" where
  "daysBefore = [0, 31, 59, 90, 120, 151, 181, 212, 243, 273, 304, 334, 365]"

text \<open>The year, and the day in it, of a number of days since the first of January of year 1.\<close>

definition year_day :: "int \<Rightarrow> int \<times> nat" where
  "year_day d0 =
     (let n = d0 div 146097; d1 = d0 mod 146097;
          c = d1 div 36524; c = c - c div 4; d2 = d1 - 36524 * c;
          q = d2 div 1461; d3 = d2 - 1461 * q;
          a = d3 div 365; a = a - a div 4
      in (1 + 400 * n + 100 * c + 4 * q + a, nat (d3 - 365 * a)))"

definition month_day :: "bool \<Rightarrow> nat \<Rightarrow> nat \<times> nat" where
  "month_day leap yday =
     (if leap \<and> yday = 59 then (2, 29)
      else let day = (if leap \<and> yday > 59 then yday - 1 else yday); m = day div 31
           in if daysBefore ! (m + 1) \<le> day then (m + 2, day - daysBefore ! (m + 1) + 1)
              else (m + 1, day - daysBefore ! m + 1))"

definition unix_epoch_days :: int where
  "unix_epoch_days = 719162"

text \<open>Year, month, day, hour, minute, second of a number of seconds since 1970.\<close>

definition civil :: "int \<Rightarrow> int \<times> nat \<times> nat \<times> nat \<times> nat \<times> nat" where
  "civil s =
     (let (y, yday) = year_day (s div 86400 + unix_epoch_days);
          (m, d) = month_day (isLeap y) yday; r = s mod 86400
      in (y, m, d, nat (r div 3600), nat (r mod 3600 div 60), nat (r mod 60)))"

text \<open>The way back, as in \<open>time.Date\<close>.\<close>

definition daysSinceYear1 :: "int \<Rightarrow> int" where
  "daysSinceYear1 y = 365 * (y - 1) + (y - 1) div 4 - (y - 1) div 100 + (y - 1) div 400"

definition month_start :: "bool \<Rightarrow> nat \<Rightarrow> nat" where
  "month_start leap m = daysBefore ! (m - 1) + (if leap \<and> m \<ge> 3 then 1 else 0)"

definition seconds_of :: "int \<times> nat \<times> nat \<times> nat \<times> nat \<times> nat \<Rightarrow> int" where
  "seconds_of = (\<lambda>(y, m, d, hh, mm, ss).
     (daysSinceYear1 y + int (month_start (isLeap y) m) + int d - 1 - unix_epoch_days) * 86400 +
     int hh * 3600 + int mm * 60 + int ss)"

lemma mod_zero_top: "0 < x \<Longrightarrow> x \<le> k \<Longrightarrow> x mod k = 0 \<longleftrightarrow> x = (k::int)"
  by (cases "x = k") auto

lemma year_parts:
  assumes "0 \<le> c" "c \<le> 3" "0 \<le> q" "q \<le> 24" "0 \<le> a" "a \<le> (3::int)"
  shows "daysSinceYear1 (1 + 400 * n + 100 * c + 4 * q + a) = 146097 * n + 36524 * c + 1461 * q + 365 * a"
    and "isLeap (1 + 400 * n + 100 * c + 4 * q + a) \<longleftrightarrow> a = 3 \<and> (q < 24 \<or> c = 3)"
proof -
  let ?y = "400 * n + 100 * c + 4 * q + a"
  have d4: "?y div 4 = 100 * n + 25 * c + q" by (rule int_div_pos_eq[where r = a]) (use assms in simp_all)
  have d100: "?y div 100 = 4 * n + c" by (rule int_div_pos_eq[where r = "4 * q + a"]) (use assms in simp_all)
  have d400: "?y div 400 = n" by (rule int_div_pos_eq[where r = "100 * c + 4 * q + a"]) (use assms in simp_all)
  have e: "1 + 400 * n + 100 * c + 4 * q + a - 1 = ?y" by simp
  show "daysSinceYear1 (1 + 400 * n + 100 * c + 4 * q + a) = 146097 * n + 36524 * c + 1461 * q + 365 * a"
    unfolding daysSinceYear1_def e d4 d100 d400 by simp
  have m4: "1 + ?y = (1 + a) + 4 * (100 * n + 25 * c + q)" by simp
  have m100: "1 + ?y = (1 + 4 * q + a) + 100 * (4 * n + c)" by simp
  have m400: "1 + ?y = (1 + 100 * c + 4 * q + a) + 400 * n" by simp
  have "(1 + ?y) mod 4 = (1 + a) mod 4" unfolding m4 by (rule mod_mult_self2)
  then have "(1 + ?y) mod 4 = 0 \<longleftrightarrow> 1 + a = 4" using assms mod_zero_top[of "1 + a" 4] by simp
  moreover have "(1 + ?y) mod 100 = (1 + 4 * q + a) mod 100" unfolding m100 by (rule mod_mult_self2)
  then have "(1 + ?y) mod 100 = 0 \<longleftrightarrow> 1 + 4 * q + a = 100"
    using assms mod_zero_top[of "1 + 4 * q + a" 100] by simp
  moreover have "(1 + ?y) mod 400 = (1 + 100 * c + 4 * q + a) mod 400" unfolding m400 by (rule mod_mult_self2)
  then have "(1 + ?y) mod 400 = 0 \<longleftrightarrow> 1 + 100 * c + 4 * q + a = 400"
    using assms mod_zero_top[of "1 + 100 * c + 4 * q + a" 400] by simp
  ultimately have "isLeap (1 + ?y) \<longleftrightarrow> 1 + a = 4 \<and> (1 + 4 * q + a \<noteq> 100 \<or> 1 + 100 * c + 4 * q + a = 400)"
    by (simp only: isLeap_def)
  also have "\<dots> \<longleftrightarrow> a = 3 \<and> (q < 24 \<or> c = 3)"
  proof (cases "a = 3 \<and> q = 24")
    case True
    then show ?thesis by simp
  next
    case False
    then show ?thesis using assms(4) by auto
  qed
  finally show "isLeap (1 + 400 * n + 100 * c + 4 * q + a) \<longleftrightarrow> a = 3 \<and> (q < 24 \<or> c = 3)"
    by (simp only: add.assoc)
qed

text \<open>Four cycles of a length, where the last may be one longer.\<close>

lemma cut_four:
  fixes x D :: int
  assumes "0 \<le> x" and "x \<le> 4 * D" and "0 < D"
  defines "c \<equiv> x div D - x div D div 4"
  shows "0 \<le> c" "c \<le> 3" "0 \<le> x - D * c" "x - D * c \<le> D" "c < 3 \<or> x < 4 * D \<Longrightarrow> x - D * c < D"
proof -
  let ?k = "x div D"
  have k: "0 \<le> ?k" "?k \<le> 4" using assms(1-3) zdiv_mono1[of x "4 * D" D] by (simp_all add: pos_imp_zdiv_nonneg_iff)
  have r: "x = D * ?k + x mod D" "0 \<le> x mod D" "x mod D < D" using assms(3) by simp_all
  consider "?k < 4" | "?k = 4" using k by linarith
  then have "0 \<le> c \<and> c \<le> 3 \<and> 0 \<le> x - D * c \<and> x - D * c \<le> D \<and> (c < 3 \<or> x < 4 * D \<longrightarrow> x - D * c < D)"
  proof cases
    case 1
    then have "c = ?k" using k by (simp add: c_def div_pos_pos_trivial)
    moreover have "x - D * ?k = x mod D" by (simp add: minus_mult_div_eq_mod)
    ultimately have e: "x - D * c = x mod D" by simp
    show ?thesis unfolding e using \<open>c = ?k\<close> 1 k r by auto
  next
    case 2
    then have "c = 3" by (simp add: c_def)
    moreover have "x = 4 * D" using 2 r assms(2) by simp
    ultimately show ?thesis using assms(3) by simp
  qed
  then show "0 \<le> c" "c \<le> 3" "0 \<le> x - D * c" "x - D * c \<le> D" "c < 3 \<or> x < 4 * D \<Longrightarrow> x - D * c < D" by simp_all
qed

lemma year_day_spec:
  assumes "year_day d0 = (y, yday)"
  shows "daysSinceYear1 y + int yday = d0" and "yday < 365 \<or> yday = 365 \<and> isLeap y"
proof -
  define n d1 where "n = d0 div 146097" and "d1 = d0 mod 146097"
  define c where "c = d1 div 36524 - d1 div 36524 div 4"
  define d2 where "d2 = d1 - 36524 * c"
  define q where "q = d2 div 1461"
  define d3 where "d3 = d2 - 1461 * q"
  define a where "a = d3 div 365 - d3 div 365 div 4"
  have y: "y = 1 + 400 * n + 100 * c + 4 * q + a" and yd: "yday = nat (d3 - 365 * a)"
    using assms unfolding year_day_def Let_def a_def[symmetric] d3_def[symmetric] q_def[symmetric]
      d2_def[symmetric] c_def[symmetric] d1_def[symmetric] n_def[symmetric] by simp_all
  have d1: "0 \<le> d1" "d1 \<le> 4 * 36524" "d0 = 146097 * n + d1" by (auto simp: n_def d1_def)
  note C = cut_four[OF d1(1,2), folded c_def d2_def, simplified]
  have d3: "d3 = d2 mod 1461" by (simp add: d3_def q_def minus_mult_div_eq_mod)
  have q: "0 \<le> q" "q \<le> 24" using C zdiv_mono1[of d2 36524 1461] by (simp_all add: q_def pos_imp_zdiv_nonneg_iff)
  have d3r: "0 \<le> d3" "d3 \<le> 4 * 365" by (simp_all add: d3)
  note A = cut_four[OF d3r, folded a_def, simplified]
  have "int yday = d3 - 365 * a" using yd A(3) by (simp only: nat_0_le)
  moreover have "daysSinceYear1 y = 146097 * n + 36524 * c + 1461 * q + 365 * a"
    unfolding y by (rule year_parts(1)[OF C(1,2) q A(1,2)])
  ultimately show "daysSinceYear1 y + int yday = d0" using d1(3) unfolding d3_def d2_def by linarith
  have leap: "isLeap y \<longleftrightarrow> a = 3 \<and> (q < 24 \<or> c = 3)"
    unfolding y by (rule year_parts(2)[OF C(1,2) q A(1,2)])
  have yd': "d3 - 365 * a < 365 \<Longrightarrow> yday < 365" "yday \<le> 365" using yd A(4) by simp_all
  show "yday < 365 \<or> yday = 365 \<and> isLeap y"
  proof (cases "isLeap y")
    case True
    then show ?thesis using yd'(2) by linarith
  next
    case False
    then consider "a < 3" | "q = 24" "c < 3" using leap q(2) A(2) C(2) by linarith
    then have "d3 - 365 * a < 365"
    proof cases
      case 2
      then have "d3 < 4 * 365" using C(5) unfolding d3_def by linarith
      then show ?thesis using A(5) by simp
    qed (use A(5) in simp)
    then show ?thesis using yd'(1) by simp
  qed
qed

lemma month_of_day:
  assumes "day < 365" and "m = day div 31"
  shows "(if daysBefore ! (m + 1) \<le> day
      then m + 2 \<le> 12 \<and> day - daysBefore ! (m + 1) + 1 \<le> daysBefore ! (m + 2) - daysBefore ! (m + 1)
      else m + 1 \<le> 12 \<and> daysBefore ! m \<le> day \<and> day - daysBefore ! m + 1 \<le> daysBefore ! (m + 1) - daysBefore ! m) \<and>
    (59 \<le> day \<longleftrightarrow> 3 \<le> (if daysBefore ! (m + 1) \<le> day then m + 2 else m + 1))"
proof -
  have d: "31 * m \<le> day" "day < 31 * m + 31" using assms(2) by auto
  then have "m < 12" using assms(1) by linarith
  then have "m = 0 \<or> m = 1 \<or> m = 2 \<or> m = 3 \<or> m = 4 \<or> m = 5 \<or> m = 6 \<or> m = 7 \<or> m = 8 \<or> m = 9 \<or> m = 10 \<or> m = 11"
    by arith
  then show ?thesis using d assms(1) by (elim disjE) (auto simp: daysBefore_def)
qed

lemma month_day_spec:
  assumes "month_day leap yday = (m, d)" and "yday < 365 \<or> yday = 365 \<and> leap"
  shows "1 \<le> m \<and> m \<le> 12 \<and> 1 \<le> d \<and> month_start leap m + d - 1 = yday \<and>
    d \<le> daysBefore ! m - daysBefore ! (m - 1) + (if leap \<and> m = 2 then 1 else 0)"
proof (cases "leap \<and> yday = 59")
  case True
  then show ?thesis using assms(1) by (simp add: month_day_def month_start_def daysBefore_def)
next
  case False
  define day where "day = (if leap \<and> yday > 59 then yday - 1 else yday)"
  have day: "day < 365" using assms(2) by (auto simp: day_def)
  show ?thesis
  proof (cases "daysBefore ! (day div 31 + 1) \<le> day")
    case T: True
    then have m: "m = day div 31 + 2" "d = day - daysBefore ! (day div 31 + 1) + 1"
      using assms(1) False by (auto simp: month_day_def day_def[symmetric] Let_def)
    have *: "59 \<le> day \<longleftrightarrow> 3 \<le> m" using month_of_day[OF day refl] T m by simp
    then have "yday = day + (if leap \<and> 3 \<le> m then 1 else 0)" using False by (auto simp: day_def split: if_splits)
    moreover have "2 \<le> m" "m \<le> 12" "daysBefore ! (m - 1) \<le> day" "d = day - daysBefore ! (m - 1) + 1"
      "d \<le> daysBefore ! m - daysBefore ! (m - 1)" using month_of_day[OF day refl] T m by simp_all
    ultimately show ?thesis by (auto simp: month_start_def)
  next
    case F: False
    then have m: "m = day div 31 + 1" "d = day - daysBefore ! (day div 31) + 1"
      using assms(1) False by (auto simp: month_day_def day_def[symmetric] Let_def)
    have *: "59 \<le> day \<longleftrightarrow> 3 \<le> m" using month_of_day[OF day refl] F m by simp
    then have "yday = day + (if leap \<and> 3 \<le> m then 1 else 0)" using False by (auto simp: day_def split: if_splits)
    moreover have "1 \<le> m" "m \<le> 12" "daysBefore ! (m - 1) \<le> day" "d = day - daysBefore ! (m - 1) + 1"
      "d \<le> daysBefore ! m - daysBefore ! (m - 1)" using month_of_day[OF day refl] F m by simp_all
    ultimately show ?thesis by (auto simp: month_start_def)
  qed
qed

lemma month_length: "1 \<le> m \<Longrightarrow> m \<le> 12 \<Longrightarrow> daysBefore ! m - daysBefore ! (m - 1) + (if m = 2 then 1 else 0) \<le> 31"
proof -
  assume "1 \<le> m" "m \<le> 12"
  then have "m = 1 \<or> m = 2 \<or> m = 3 \<or> m = 4 \<or> m = 5 \<or> m = 6 \<or> m = 7 \<or> m = 8 \<or> m = 9 \<or> m = 10 \<or> m = 11 \<or> m = 12"
    by arith
  then show ?thesis by (elim disjE) (simp_all add: daysBefore_def)
qed

lemma clock_parts:
  assumes "0 \<le> (r::int)" and "r < 86400"
  shows "int (nat (r div 3600)) * 3600 + int (nat (r mod 3600 div 60)) * 60 + int (nat (r mod 60)) = r"
    and "nat (r div 3600) < 24" "nat (r mod 3600 div 60) < 60" "nat (r mod 60) < 60"
proof -
  have "r mod 3600 mod 60 = r mod 60" by (rule mod_mod_cancel) simp
  then have "r div 3600 * 3600 + r mod 3600 div 60 * 60 + r mod 60 = r"
    using div_mult_mod_eq[of "r mod 3600" 60] div_mult_mod_eq[of r 3600] by linarith
  moreover have "0 \<le> r div 3600" "0 \<le> r mod 3600 div 60" "0 \<le> r mod 60"
    using assms(1) by (simp_all add: pos_imp_zdiv_nonneg_iff)
  ultimately show "int (nat (r div 3600)) * 3600 + int (nat (r mod 3600 div 60)) * 60 + int (nat (r mod 60)) = r"
    by (simp only: nat_0_le)
  have "r div 3600 \<le> 86399 div 3600" using assms(2) by (intro zdiv_mono1) simp_all
  then show "nat (r div 3600) < 24" by simp
  have "r mod 3600 div 60 \<le> 3599 div 60" using pos_mod_bound[of 3600 r] by (intro zdiv_mono1) simp_all
  then show "nat (r mod 3600 div 60) < 60" by simp
  show "nat (r mod 60) < 60" using pos_mod_bound[of 60 r] by simp
qed

text \<open>The civil date determines the second, and its parts are in range.\<close>

lemma civil_spec:
  assumes "civil s = (y, m, d, hh, mm, ss)"
  shows "seconds_of (y, m, d, hh, mm, ss) = s"
    and "1 \<le> m \<and> m \<le> 12 \<and> 1 \<le> d \<and> d \<le> 31 \<and> hh < 24 \<and> mm < 60 \<and> ss < 60"
    and "d \<le> daysBefore ! m - daysBefore ! (m - 1) + (if isLeap y \<and> m = 2 then 1 else 0)"
proof -
  obtain y' yday where yd': "year_day (s div 86400 + unix_epoch_days) = (y', yday)" by (metis surj_pair)
  obtain m' d' where md': "month_day (isLeap y') yday = (m', d')" by (metis surj_pair)
  have "civil s = (y', m', d', nat (s mod 86400 div 3600), nat (s mod 86400 mod 3600 div 60), nat (s mod 86400 mod 60))"
    unfolding civil_def Let_def by (simp only: yd' md' prod.case)
  then have "y = y'" "m = m'" "d = d'"
    and r: "hh = nat (s mod 86400 div 3600)" "mm = nat (s mod 86400 mod 3600 div 60)" "ss = nat (s mod 86400 mod 60)"
    unfolding assms prod.inject by blast+
  then have yd: "year_day (s div 86400 + unix_epoch_days) = (y, yday)" and md: "month_day (isLeap y) yday = (m, d)"
    using yd' md' by (simp_all only:)
  note Y = year_day_spec[OF yd] and M = month_day_spec[OF md year_day_spec(2)[OF yd]]
  have "0 \<le> s mod 86400" "s mod 86400 < 86400" by simp_all
  note clock = clock_parts[OF this, folded r]
  have "daysSinceYear1 y + int (month_start (isLeap y) m) + int d - 1 = s div 86400 + unix_epoch_days"
    using Y(1) M by linarith
  then have "seconds_of (y, m, d, hh, mm, ss) = s div 86400 * 86400 + (int hh * 3600 + int mm * 60 + int ss)"
    by (simp add: seconds_of_def)
  also have "\<dots> = s" unfolding clock(1) by (rule div_mult_mod_eq)
  finally show "seconds_of (y, m, d, hh, mm, ss) = s" .
  show "1 \<le> m \<and> m \<le> 12 \<and> 1 \<le> d \<and> d \<le> 31 \<and> hh < 24 \<and> mm < 60 \<and> ss < 60"
    using M month_length[of m] clock(2-4) by (auto split: if_splits)
  show "d \<le> daysBefore ! m - daysBefore ! (m - 1) + (if isLeap y \<and> m = 2 then 1 else 0)" using M by simp
qed

section \<open>Format\<close>

definition appendInt :: "int \<Rightarrow> nat \<Rightarrow> string" where
  "appendInt x width =
     (let ds = decimal (nat \<bar>x\<bar>)
      in (if x < 0 then ''-'' else []) @ replicate (width - length ds) (CHR ''0'') @ ds)"

definition format_zone :: "int \<Rightarrow> string" where
  "format_zone offset =
     (if offset = 0 then ''Z''
      else let zone = \<bar>offset\<bar> div 60
           in (if offset < 0 \<and> zone \<noteq> 0 then ''-'' else ''+'') @ appendInt (zone div 60) 2 @ '':'' @ appendInt (zone mod 60) 2)"

text \<open>The part after the year: month, day and time of day.\<close>

definition format_body :: "nat \<times> nat \<times> nat \<times> nat \<times> nat \<Rightarrow> string" where
  "format_body = (\<lambda>(m, d, hh, mm, ss).
     ''-'' @ appendInt (int m) 2 @ ''-'' @ appendInt (int d) 2 @ ''T'' @ appendInt (int hh) 2 @
     '':'' @ appendInt (int mm) 2 @ '':'' @ appendInt (int ss) 2)"

definition Format_RFC3339 :: "(int \<Rightarrow> int) \<Rightarrow> time \<Rightarrow> string" where
  "Format_RFC3339 zone t =
     (let s = unix_second t; offset = zone s; (y, r) = civil (s + offset)
      in appendInt y 4 @ format_body r @ format_zone offset)"

text \<open>A location whose offsets are whole minutes below a day, as all in use are.\<close>

definition zone_ok :: "(int \<Rightarrow> int) \<Rightarrow> bool" where
  "zone_ok zone \<longleftrightarrow> (\<forall>s. zone s mod 60 = 0 \<and> \<bar>zone s\<bar> < 86400)"

lemma decimal_length_two: "n < 100 \<Longrightarrow> length (decimal n) \<le> 2"
  by (subst decimal.simps, simp) (subst decimal.simps, simp)

lemma digits_val_zeros: "digits_val (replicate k (CHR ''0'') @ ds) = digits_val ds"
  by (induction k) simp_all

lemma appendInt_digits: "0 \<le> x \<Longrightarrow> \<forall>c \<in> set (appendInt x w). is_digit c"
  using decimal_digits by (auto simp: appendInt_def Let_def is_digit_def)

lemma appendInt_val: "0 \<le> x \<Longrightarrow> digits_val (appendInt x w) = nat x"
  by (simp add: appendInt_def Let_def digits_val_zeros)

lemma appendInt_two: "0 \<le> x \<Longrightarrow> x < 100 \<Longrightarrow> length (appendInt x 2) = 2"
  using decimal_length_two[of "nat x"] by (simp add: appendInt_def Let_def)

lemma appendInt_inj: "0 \<le> x \<Longrightarrow> 0 \<le> y \<Longrightarrow> appendInt x w = appendInt y w \<Longrightarrow> x = y"
  using appendInt_val[of x w] appendInt_val[of y w] by simp

lemma not_digit: "\<not> is_digit (CHR ''-'')" "\<not> is_digit (CHR '':'')" "\<not> is_digit (CHR ''Z'')" "\<not> is_digit (CHR ''+'')"
  by (simp_all add: is_digit_def)

text \<open>The year is read back up to the first minus sign after it.\<close>

lemma appendInt_nonempty: "appendInt x w \<noteq> []"
  by (subst appendInt_def, subst decimal.simps) (simp add: Let_def)

lemma appendInt_sign:
  "appendInt x w = (if x < 0 then CHR ''-'' # appendInt (- x) w else appendInt x w)"
  by (simp add: appendInt_def Let_def)

lemma appendInt_minus_unique:
  assumes "appendInt x w @ CHR ''-'' # us = appendInt y w @ CHR ''-'' # vs"
  shows "x = y \<and> us = vs"
proof -
  have no: "0 \<le> z \<Longrightarrow> CHR ''-'' \<notin> set (appendInt z w)" for z
    using appendInt_digits[of z w] not_digit(1) by blast
  have hd: "0 \<le> z \<Longrightarrow> hd (appendInt z w @ zs) \<noteq> CHR ''-''" for z zs
    using no[of z] appendInt_nonempty[of z w] list.set_sel(1)[of "appendInt z w"] by (metis hd_append2)
  have eq: "0 \<le> z \<Longrightarrow> 0 \<le> z' \<Longrightarrow> appendInt z w @ CHR ''-'' # us = appendInt z' w @ CHR ''-'' # vs \<Longrightarrow> z = z' \<and> us = vs" for z z'
    using append_sep_unique[of "appendInt z w" "CHR ''-''" us "appendInt z' w" vs] no appendInt_inj[of z z' w] by blast
  have sgn: "(x < 0) = (y < 0)"
    using arg_cong[OF assms, of hd] hd[of x "CHR ''-'' # us"] hd[of y "CHR ''-'' # vs"] appendInt_sign[of x w] appendInt_sign[of y w]
    by (cases "x < 0"; cases "y < 0") (simp_all del: hd_append)
  show ?thesis
  proof (cases "x < 0")
    case True
    then have "appendInt (- x) w @ CHR ''-'' # us = appendInt (- y) w @ CHR ''-'' # vs"
      using assms sgn appendInt_sign[of x w] appendInt_sign[of y w] by simp
    then show ?thesis using eq[of "- x" "- y"] True sgn by simp
  next
    case False
    then show ?thesis using eq[of x y] sgn assms by simp
  qed
qed

lemma body_parts:
  assumes "civil s = (y, r)"
  shows "length (format_body r) = 15" and "\<exists>b. format_body r = CHR ''-'' # b"
    and "\<exists>m d hh mm ss. r = (m, d, hh, mm, ss) \<and> m < 100 \<and> d < 100 \<and> hh < 100 \<and> mm < 100 \<and> ss < 100"
proof -
  obtain m d hh mm ss where r: "r = (m, d, hh, mm, ss)" by (cases r)
  note b = civil_spec(2)[OF assms[unfolded r]]
  show "length (format_body r) = 15" using b by (simp add: r format_body_def appendInt_two)
  show "\<exists>b. format_body r = CHR ''-'' # b" by (simp add: r format_body_def)
  show "\<exists>m d hh mm ss. r = (m, d, hh, mm, ss) \<and> m < 100 \<and> d < 100 \<and> hh < 100 \<and> mm < 100 \<and> ss < 100"
    using b r by auto
qed

lemma format_body_inj:
  assumes "format_body (m, d, hh, mm, ss) = format_body (m', d', hh', mm', ss')"
    and "m < 100" "d < 100" "hh < 100" "mm < 100" "ss < 100" "m' < 100" "d' < 100" "hh' < 100" "mm' < 100" "ss' < 100"
  shows "(m, d, hh, mm, ss) = (m', d', hh', mm', ss')"
proof -
  have two: "appendInt (int x) 2 @ us = appendInt (int x') 2 @ us' \<longleftrightarrow> x = x' \<and> us = us'"
    if "x < 100" "x' < 100" for x x' us us'
    using that appendInt_two[of "int x"] appendInt_two[of "int x'"] appendInt_inj[of "int x" "int x'" 2]
      append_eq_append_conv[of "appendInt (int x) 2" "appendInt (int x') 2" us us'] by auto
  show ?thesis using assms two[of ss ss' "[]" "[]"] by (simp add: format_body_def two)
qed

lemma format_zone_cases:
  assumes "o1 mod 60 = 0" and "\<bar>o1\<bar> < 86400"
  shows "if o1 = 0 then format_zone o1 = ''Z''
    else format_zone o1 = (if o1 < 0 then ''-'' else ''+'') @ appendInt (\<bar>o1\<bar> div 60 div 60) 2 @ '':'' @ appendInt (\<bar>o1\<bar> div 60 mod 60) 2
      \<and> length (format_zone o1) = 6"
proof (cases "o1 = 0")
  case False
  then have "\<bar>o1\<bar> div 60 \<noteq> 0" using assms(1) by (cases "o1 < 0") (auto simp: zmod_zminus1_eq_if)
  moreover have "\<bar>o1\<bar> div 60 div 60 < 100" "0 \<le> \<bar>o1\<bar> div 60 div 60" "\<bar>o1\<bar> div 60 mod 60 < 100" "0 \<le> \<bar>o1\<bar> div 60 mod 60"
    using assms(2) zdiv_mono1[of "\<bar>o1\<bar>" 86400 3600] by (simp_all add: zdiv_zmult2_eq[symmetric] pos_mod_bound less_imp_le order.strict_trans[OF pos_mod_bound] pos_imp_zdiv_nonneg_iff)
  ultimately show ?thesis using False by (simp add: format_zone_def Let_def appendInt_two)
qed (simp add: format_zone_def)

definition offset_ok :: "int \<Rightarrow> bool" where
  "offset_ok o1 \<longleftrightarrow> o1 mod 60 = 0 \<and> \<bar>o1\<bar> < 86400"

lemma zone_okD: "zone_ok zone \<Longrightarrow> offset_ok (zone s)"
  by (simp add: zone_ok_def offset_ok_def)

lemma format_zone_UTC [simp]: "format_zone 0 = ''Z''"
  by (simp add: format_zone_def)

lemma format_zone_length: "offset_ok o1 \<Longrightarrow> length (format_zone o1) = (if o1 = 0 then 1 else 6)"
  using format_zone_cases[of o1] by (auto simp: offset_ok_def)

lemma format_zone_hd: "offset_ok o1 \<Longrightarrow> hd (format_zone o1) = (if o1 = 0 then CHR ''Z'' else if o1 < 0 then CHR ''-'' else CHR ''+'')"
  using format_zone_cases[of o1] by (auto simp: offset_ok_def)

lemma format_zone_last: "offset_ok o1 \<Longrightarrow> last (format_zone o1) = CHR ''Z'' \<longleftrightarrow> o1 = 0"
proof -
  assume ok: "offset_ok o1"
  have "is_digit (last (appendInt (\<bar>o1\<bar> div 60 mod 60) 2))"
    using appendInt_digits[of "\<bar>o1\<bar> div 60 mod 60" 2] appendInt_nonempty[of "\<bar>o1\<bar> div 60 mod 60" 2] by simp
  moreover have "o1 \<noteq> 0 \<Longrightarrow> last (format_zone o1) = last (appendInt (\<bar>o1\<bar> div 60 mod 60) 2)"
    using ok format_zone_cases[of o1] appendInt_nonempty by (simp add: offset_ok_def)
  ultimately show ?thesis using not_digit(3) by (cases "o1 = 0") auto
qed

lemma format_zone_inj:
  assumes "offset_ok o1" "offset_ok o2" "format_zone o1 = format_zone o2"
  shows "o1 = o2"
proof (cases "o1 = 0")
  case True
  then have "format_zone o2 = ''Z''" using assms(3) by simp
  then show ?thesis using True assms(2) format_zone_last[of o2] by simp
next
  case False
  have o2: "o2 \<noteq> 0" using False assms format_zone_last[of o1] by auto
  have sgn: "o1 < 0 \<longleftrightarrow> o2 < 0" using False o2 assms format_zone_hd[of o1] format_zone_hd[of o2] by (auto split: if_splits)
  define h1 m1 h2 m2 where "h1 = \<bar>o1\<bar> div 60 div 60" "m1 = \<bar>o1\<bar> div 60 mod 60" "h2 = \<bar>o2\<bar> div 60 div 60" "m2 = \<bar>o2\<bar> div 60 mod 60"
  have r: "0 \<le> h1" "h1 < 100" "0 \<le> m1" "0 \<le> h2" "h2 < 100" "0 \<le> m2"
    using assms(1,2) zdiv_mono1[of "\<bar>o1\<bar>" 86400 3600] zdiv_mono1[of "\<bar>o2\<bar>" 86400 3600]
    by (simp_all add: h1_m1_h2_m2_def offset_ok_def zdiv_zmult2_eq[symmetric] pos_imp_zdiv_nonneg_iff)
  have "appendInt h1 2 @ '':'' @ appendInt m1 2 = appendInt h2 2 @ '':'' @ appendInt m2 2"
    using assms False o2 sgn format_zone_cases[of o1] format_zone_cases[of o2]
    by (simp add: offset_ok_def h1_m1_h2_m2_def split: if_splits)
  then have "appendInt h1 2 = appendInt h2 2" "appendInt m1 2 = appendInt m2 2"
    using append_eq_append_conv[of "appendInt h1 2" "appendInt h2 2"] appendInt_two r by simp_all
  then have "h1 = h2" "m1 = m2" using appendInt_inj r by blast+
  then have "\<bar>o1\<bar> div 60 = \<bar>o2\<bar> div 60"
    using div_mult_mod_eq[of "\<bar>o1\<bar> div 60" 60] div_mult_mod_eq[of "\<bar>o2\<bar> div 60" 60]
    unfolding h1_m1_h2_m2_def by (metis (no_types))
  moreover have "\<bar>o1\<bar> mod 60 = 0" "\<bar>o2\<bar> mod 60 = 0"
    using assms(1,2) by (auto simp: offset_ok_def abs_if zmod_zminus1_eq_if)
  ultimately have "\<bar>o1\<bar> = \<bar>o2\<bar>" using div_mult_mod_eq[of "\<bar>o1\<bar>" 60] div_mult_mod_eq[of "\<bar>o2\<bar>" 60] by linarith
  then show ?thesis using sgn by linarith
qed

lemma format_zone_prefix:
  assumes "offset_ok o1" "offset_ok o2" "format_zone o1 @ xs = format_zone o2 @ ys"
  shows "o1 = o2 \<and> xs = ys"
proof -
  have ne: "format_zone o1 \<noteq> []" "format_zone o2 \<noteq> []"
    using format_zone_length[OF assms(1)] format_zone_length[OF assms(2)] by (auto split: if_splits)
  have "hd (format_zone o1) = hd (format_zone o2)"
    using arg_cong[OF assms(3), of hd] hd_append2[OF ne(1)] hd_append2[OF ne(2)] by simp
  then have "(o1 = 0) = (o2 = 0)"
    using format_zone_hd[OF assms(1)] format_zone_hd[OF assms(2)] by (auto split: if_splits)
  then have "length (format_zone o1) = length (format_zone o2)"
    using format_zone_length[OF assms(1)] format_zone_length[OF assms(2)] by simp
  then show ?thesis using assms append_eq_append_conv format_zone_inj by blast
qed

lemma format_zone_suffix:
  assumes "offset_ok o1" "offset_ok o2" "xs @ format_zone o1 = ys @ format_zone o2"
  shows "o1 = o2 \<and> xs = ys"
proof -
  have ne: "format_zone o1 \<noteq> []" "format_zone o2 \<noteq> []"
    using format_zone_length[OF assms(1)] format_zone_length[OF assms(2)] by (auto split: if_splits)
  have "last (format_zone o1) = last (format_zone o2)"
    using arg_cong[OF assms(3), of last] last_appendR[OF ne(1)] last_appendR[OF ne(2)] by simp
  then have "(o1 = 0) = (o2 = 0)"
    using format_zone_last[OF assms(1)] format_zone_last[OF assms(2)] by auto
  then have "length (format_zone o1) = length (format_zone o2)"
    using format_zone_length[OF assms(1)] format_zone_length[OF assms(2)] by simp
  then show ?thesis using assms append_eq_append_conv format_zone_inj by blast
qed

text \<open>The text has the second: year, rest of the date and offset determine it.\<close>

lemma civil_body_inj:
  assumes "civil (s + o1) = (y, r)" "civil (s' + o1) = (y, r')" "format_body r = format_body r'"
  shows "s = s'"
proof -
  obtain m d hh mm ss where r: "r = (m, d, hh, mm, ss)" "m < 100" "d < 100" "hh < 100" "mm < 100" "ss < 100"
    using body_parts(3)[OF assms(1)] by blast
  obtain m' d' hh' mm' ss' where r': "r' = (m', d', hh', mm', ss')" "m' < 100" "d' < 100" "hh' < 100" "mm' < 100" "ss' < 100"
    using body_parts(3)[OF assms(2)] by blast
  have "r = r'" using format_body_inj[of m d hh mm ss m' d' hh' mm' ss'] assms(3) r r' by simp
  then show ?thesis
    using civil_spec(1)[of "s + o1" y m d hh mm ss] civil_spec(1)[of "s' + o1" y m d hh mm ss] assms r(1) by simp
qed

text \<open>A time text at the beginning of a key can be told from what follows.\<close>

lemma Format_prefix:
  assumes z: "zone_ok zone" "zone_ok zone'" and eq: "Format_RFC3339 zone t @ xs = Format_RFC3339 zone' t' @ ys"
  shows "unix_second t = unix_second t' \<and> xs = ys \<and> zone (unix_second t) = zone' (unix_second t')"
proof -
  let ?s = "unix_second t" and ?s' = "unix_second t'"
  obtain y r where c: "civil (?s + zone ?s) = (y, r)" by (metis surj_pair)
  obtain y' r' where c': "civil (?s' + zone' ?s') = (y', r')" by (metis surj_pair)
  obtain b where b: "format_body r = CHR ''-'' # b" using body_parts(2)[OF c] by blast
  obtain b' where b': "format_body r' = CHR ''-'' # b'" using body_parts(2)[OF c'] by blast
  have "appendInt y 4 @ CHR ''-'' # (b @ format_zone (zone ?s) @ xs) = appendInt y' 4 @ CHR ''-'' # (b' @ format_zone (zone' ?s') @ ys)"
    using eq by (simp add: Format_RFC3339_def Let_def c c' b b')
  from appendInt_minus_unique[OF this]
  have y: "y = y'" and rest: "b @ format_zone (zone ?s) @ xs = b' @ format_zone (zone' ?s') @ ys" by simp_all
  have "length b = length b'" using body_parts(1)[OF c] body_parts(1)[OF c'] b b' by simp
  then have bb: "b = b'" and "format_zone (zone ?s) @ xs = format_zone (zone' ?s') @ ys" using rest by simp_all
  then have "zone ?s = zone' ?s'" "xs = ys" using format_zone_prefix[OF zone_okD[OF z(1)] zone_okD[OF z(2)]] by blast+
  then show ?thesis using civil_body_inj[of ?s "zone ?s" y r ?s' r'] c c' y b b' bb by simp
qed

text \<open>A time text after a colon at the end of a key can be told from what is before.\<close>

lemma appendInt_colon: "CHR '':'' \<notin> set (appendInt y w)"
proof -
  have "CHR '':'' \<notin> set (decimal n)" for n using decimal_digits[of n] not_digit(2) by blast
  then show ?thesis by (auto simp: appendInt_def Let_def)
qed

lemma Format_suffix:
  assumes z: "zone_ok zone" "zone_ok zone'"
    and eq: "xs @ CHR '':'' # Format_RFC3339 zone t = ys @ CHR '':'' # Format_RFC3339 zone' t'"
  shows "unix_second t = unix_second t' \<and> xs = ys"
proof -
  let ?s = "unix_second t" and ?s' = "unix_second t'"
  obtain y r where c: "civil (?s + zone ?s) = (y, r)" by (metis surj_pair)
  obtain y' r' where c': "civil (?s' + zone' ?s') = (y', r')" by (metis surj_pair)
  have "(xs @ CHR '':'' # appendInt y 4 @ format_body r) @ format_zone (zone ?s) =
      (ys @ CHR '':'' # appendInt y' 4 @ format_body r') @ format_zone (zone' ?s')"
    using eq by (simp add: Format_RFC3339_def Let_def c c')
  from format_zone_suffix[OF zone_okD[OF z(1)] zone_okD[OF z(2)] this]
  have o: "zone ?s = zone' ?s'" and e: "(xs @ CHR '':'' # appendInt y 4) @ format_body r = (ys @ CHR '':'' # appendInt y' 4) @ format_body r'"
    by simp_all
  have "length (format_body r) = length (format_body r')" using body_parts(1)[OF c] body_parts(1)[OF c'] by simp
  note split = iffD1[OF append_eq_append_conv[OF disjI2[OF this]] e]
  then have f: "format_body r = format_body r'" and p: "xs @ CHR '':'' # appendInt y 4 = ys @ CHR '':'' # appendInt y' 4"
    by blast+
  from arg_cong[OF p, of rev] have "rev (appendInt y 4) @ CHR '':'' # rev xs = rev (appendInt y' 4) @ CHR '':'' # rev ys" by simp
  from append_sep_unique[OF this] have "appendInt y 4 = appendInt y' 4" and "xs = ys" using appendInt_colon by auto
  then have "y = y'" using appendInt_minus_unique[of y 4 "[]" y' "[]"] by simp
  then show ?thesis using civil_body_inj[of ?s "zone ?s" y r ?s' r'] c c' f o \<open>xs = ys\<close> by simp
qed

lemma Format_second:
  assumes "zone_ok zone"
  shows "Format_RFC3339 zone t = Format_RFC3339 zone t' \<longleftrightarrow> unix_second t = unix_second t'"
proof
  show "Format_RFC3339 zone t = Format_RFC3339 zone t' \<Longrightarrow> unix_second t = unix_second t'"
    using Format_prefix[OF assms assms, of t "[]" t' "[]"] by simp
qed (simp add: Format_RFC3339_def)

lemma Format_hd: "\<exists>c cs. Format_RFC3339 zone t = c # cs \<and> (is_digit c \<or> c = CHR ''-'')"
proof -
  obtain y r where yr: "civil (unix_second t + zone (unix_second t)) = (y, r)" by (cases "civil (unix_second t + zone (unix_second t))")
  obtain c cs where c: "appendInt y 4 = c # cs" using appendInt_nonempty by (cases "appendInt y 4") auto
  then have "is_digit c \<or> c = CHR ''-''"
    using appendInt_digits[of y 4] appendInt_sign[of y 4] by (cases "0 \<le> y") auto
  with c yr show ?thesis by (simp add: Format_RFC3339_def Let_def)
qed

lemma appendInt_four: "0 \<le> x \<Longrightarrow> x \<le> 9999 \<Longrightarrow> length (appendInt x 4) = 4"
proof -
  assume x: "0 \<le> x" "x \<le> 9999"
  have "n < 10000 \<Longrightarrow> length (decimal n) \<le> 4" for n
    using decimal_length_two[of "n div 100"]
    by (subst decimal.simps, simp) (subst decimal.simps, simp add: div_mult2_eq[symmetric] less_mult_imp_div_less)
  from this[of "nat x"] x show ?thesis by (simp add: appendInt_def Let_def)
qed

section \<open>Parse\<close>

text \<open>
  What the code relies on of \<open>time.Parse\<close> with this layout: it reads the texts of \<open>Format\<close> back to
  the second, for years of four digits, and refuses a text that goes on after the \<open>Z\<close>.
\<close>

definition four_digit_year :: "(int \<Rightarrow> int) \<Rightarrow> time \<Rightarrow> bool" where
  "four_digit_year zone t \<longleftrightarrow> fst (civil (unix_second t + zone (unix_second t))) \<in> {0..9999}"

locale rfc3339_parser =
  fixes parse :: "string \<Rightarrow> time option"
  assumes parse_format: "zone_ok zone \<Longrightarrow> four_digit_year zone t \<Longrightarrow>
      parse (Format_RFC3339 zone t) = Some (unix_second t * Second)"
    and parse_after_Z: "zone_ok zone \<Longrightarrow> four_digit_year zone t \<Longrightarrow> zone (unix_second t) = 0 \<Longrightarrow> xs \<noteq> [] \<Longrightarrow>
      parse (Format_RFC3339 zone t @ xs) = None"

lemma Format_length:
  assumes "zone_ok zone" and "four_digit_year zone t"
  shows "length (Format_RFC3339 zone t) = (if zone (unix_second t) = 0 then 20 else 25)"
proof -
  obtain y r where yr: "civil (unix_second t + zone (unix_second t)) = (y, r)" by (cases "civil (unix_second t + zone (unix_second t))")
  then have "length (appendInt y 4) = 4" using assms(2) by (simp add: four_digit_year_def appendInt_four)
  then show ?thesis
    using yr body_parts(1)[OF yr] format_zone_length[OF zone_okD[OF assms(1)]] by (simp add: Format_RFC3339_def Let_def)
qed

text \<open>The back ends cut the time out of a key as its first bytes, as many as the layout has. For a text
  in UTC, which is shorter, the cut takes more than the time.\<close>

definition len_RFC3339 :: nat where
  "len_RFC3339 = length ''2006-01-02T15:04:05Z07:00''"

lemma len_RFC3339: "len_RFC3339 = 25"
  by (simp add: len_RFC3339_def)

context rfc3339_parser
begin

lemma parse_cut:
  assumes "zone_ok zone" and "four_digit_year zone t" and "xs \<noteq> []"
  shows "parse (take len_RFC3339 (Format_RFC3339 zone t @ xs)) =
    (if zone (unix_second t) = 0 then None else Some (unix_second t * Second))"
  using Format_length[OF assms(1,2)] parse_format[OF assms(1,2)] parse_after_Z[OF assms(1,2), of "take 5 xs"] assms(3)
  by (simp add: len_RFC3339)

end

text \<open>The strict reader of the package: date, time, an optional fraction, \<open>Z\<close> or an offset.\<close>

definition parseUint :: "string \<Rightarrow> nat \<Rightarrow> nat \<Rightarrow> nat option" where
  "parseUint ds lo hi =
     (if list_all is_digit ds \<and> lo \<le> digits_val ds \<and> digits_val ds \<le> hi then Some (digits_val ds) else None)"

definition daysIn :: "nat \<Rightarrow> int \<Rightarrow> nat" where
  "daysIn m y = daysBefore ! m - daysBefore ! (m - 1) + (if isLeap y \<and> m = 2 then 1 else 0)"

definition parse_fraction :: "string \<Rightarrow> nat \<times> string" where
  "parse_fraction s =
     (case s of
        c # d # r \<Rightarrow>
          if c = CHR ''.'' \<and> is_digit d
          then let ds = takeWhile is_digit (d # r); n = take 9 ds
               in (digits_val n * 10 ^ (9 - length n), dropWhile is_digit (d # r))
          else (0, s)
      | _ \<Rightarrow> (0, s))"

definition parse_zone :: "string \<Rightarrow> int option" where
  "parse_zone s =
     (if s = ''Z'' then Some 0
      else if length s = 6 \<and> (s ! 0 = CHR ''-'' \<or> s ! 0 = CHR ''+'') \<and> s ! 3 = CHR '':''
      then case (parseUint (take 2 (drop 1 s)) 0 23, parseUint (drop 4 s) 0 59) of
             (Some hr, Some mm) \<Rightarrow> Some ((if s ! 0 = CHR ''-'' then - 1 else 1) * int ((hr * 60 + mm) * 60))
           | _ \<Rightarrow> None
      else None)"

definition Parse_RFC3339 :: "string \<Rightarrow> time option" where
  "Parse_RFC3339 s =
     (if length s < 19 then None
      else case (parseUint (take 4 s) 0 9999, parseUint (take 2 (drop 5 s)) 1 12) of
        (Some year, Some month) \<Rightarrow>
          (case (parseUint (take 2 (drop 8 s)) 1 (daysIn month (int year)), parseUint (take 2 (drop 11 s)) 0 23,
                 parseUint (take 2 (drop 14 s)) 0 59, parseUint (take 2 (drop 17 s)) 0 59) of
             (Some day, Some hour, Some mn, Some sec) \<Rightarrow>
               if s ! 4 = CHR ''-'' \<and> s ! 7 = CHR ''-'' \<and> s ! 10 = CHR ''T'' \<and> s ! 13 = CHR '':'' \<and> s ! 16 = CHR '':''
               then let (nsec, r) = parse_fraction (drop 19 s)
                    in map_option (\<lambda>offset.
                         (seconds_of (int year, month, day, hour, mn, sec) - offset) * Second + int nsec) (parse_zone r)
               else None
           | _ \<Rightarrow> None)
      | _ \<Rightarrow> None)"

lemma parseUint_appendInt:
  "0 \<le> x \<Longrightarrow> parseUint (appendInt x w) lo hi = (if int lo \<le> x \<and> x \<le> int hi then Some (nat x) else None)"
  using appendInt_digits[of x w] by (auto simp: parseUint_def appendInt_val list_all_iff)

lemma Parse_date:
  assumes c: "civil s = (y, m, d, hh, mm, ss)" and y: "0 \<le> y" "y \<le> 9999"
  shows "Parse_RFC3339 (appendInt y 4 @ format_body (m, d, hh, mm, ss) @ z) =
    (let (nsec, r) = parse_fraction z in map_option (\<lambda>offset. (s - offset) * Second + int nsec) (parse_zone r))"
proof -
  note b = civil_spec[OF c]
  define Y M D H N S where "Y = appendInt y 4" "M = appendInt (int m) 2" "D = appendInt (int d) 2"
    "H = appendInt (int hh) 2" "N = appendInt (int mm) 2" "S = appendInt (int ss) 2"
  have len: "length Y = 4" "length M = 2" "length D = 2" "length H = 2" "length N = 2" "length S = 2"
    using b(2) y by (simp_all add: Y_M_D_H_N_S_def appendInt_four appendInt_two)
  have val: "parseUint Y 0 9999 = Some (nat y)" "parseUint M 1 12 = Some m" "parseUint D 1 (daysIn m y) = Some d"
    "parseUint H 0 23 = Some hh" "parseUint N 0 59 = Some mm" "parseUint S 0 59 = Some ss"
    using b(2,3) y by (simp_all add: Y_M_D_H_N_S_def parseUint_appendInt daysIn_def)
  have text_eq: "appendInt y 4 @ format_body (m, d, hh, mm, ss) @ z =
      Y @ ''-'' @ M @ ''-'' @ D @ ''T'' @ H @ '':'' @ N @ '':'' @ S @ z"
    by (simp add: format_body_def Y_M_D_H_N_S_def)
  show ?thesis
    unfolding text_eq Parse_RFC3339_def using val b(1) y(1)
    by (simp add: len nth_append)
qed

lemma parse_fraction_zone: "offset_ok o1 \<Longrightarrow> parse_fraction (format_zone o1 @ xs) = (0, format_zone o1 @ xs)"
proof -
  assume ok: "offset_ok o1"
  then have "format_zone o1 \<noteq> []" using format_zone_length[of o1] by (auto split: if_splits)
  moreover have "hd (format_zone o1) \<noteq> CHR ''.''" using format_zone_hd[OF ok] by simp
  ultimately show ?thesis by (cases "format_zone o1") (auto simp: parse_fraction_def split: list.splits)
qed

lemma parse_zone_format: "offset_ok o1 \<Longrightarrow> parse_zone (format_zone o1) = Some o1"
proof (cases "o1 = 0")
  case False
  assume ok: "offset_ok o1"
  define h m where "h = \<bar>o1\<bar> div 60 div 60" "m = \<bar>o1\<bar> div 60 mod 60"
  have r: "0 \<le> h" "h \<le> 23" "0 \<le> m" "m \<le> 59"
    using ok zdiv_mono1[of "\<bar>o1\<bar>" 86399 3600] pos_mod_bound[of 60 "\<bar>o1\<bar> div 60"]
    by (simp_all add: h_m_def offset_ok_def zdiv_zmult2_eq[symmetric] pos_imp_zdiv_nonneg_iff)
  have len: "length (appendInt h 2) = 2" "length (appendInt m 2) = 2" using r by (simp_all add: appendInt_two)
  have z: "format_zone o1 = (if o1 < 0 then ''-'' else ''+'') @ appendInt h 2 @ '':'' @ appendInt m 2"
    using ok False format_zone_cases[of o1] by (simp add: offset_ok_def h_m_def)
  have "60 dvd \<bar>o1\<bar>" using ok mod_0_imp_dvd[of o1 60] by (simp add: offset_ok_def)
  then have "\<bar>o1\<bar> div 60 * 60 = \<bar>o1\<bar>" by (rule dvd_div_mult_self)
  moreover have "h * 60 + m = \<bar>o1\<bar> div 60" unfolding h_m_def by (rule div_mult_mod_eq)
  ultimately have "(h * 60 + m) * 60 = \<bar>o1\<bar>" by (simp only:)
  then have "int ((nat h * 60 + nat m) * 60) = \<bar>o1\<bar>" using r by (simp only: of_nat_add of_nat_mult nat_0_le of_nat_numeral)
  then show ?thesis
    unfolding z using r by (simp add: parse_zone_def len nth_append parseUint_appendInt)
qed (simp add: parse_zone_def)

interpretation strict: rfc3339_parser Parse_RFC3339
proof
  fix zone t and xs :: string assume z: "zone_ok zone" and y: "four_digit_year zone t"
  let ?s = "unix_second t"
  obtain yr m d hh mm ss where c: "civil (?s + zone ?s) = (yr, m, d, hh, mm, ss)" by (metis prod_cases6)
  have fmt: "Format_RFC3339 zone t = appendInt yr 4 @ format_body (m, d, hh, mm, ss) @ format_zone (zone ?s)"
    by (simp add: Format_RFC3339_def Let_def c)
  note date = Parse_date[OF c] and ok = zone_okD[OF z, of ?s]
  have yr: "0 \<le> yr" "yr \<le> 9999" using y c by (simp_all add: four_digit_year_def)
  show "Parse_RFC3339 (Format_RFC3339 zone t) = Some (?s * Second)"
    unfolding fmt date[OF yr] using parse_fraction_zone[OF ok, of "[]"] parse_zone_format[OF ok] by simp
  assume "zone ?s = 0" and "xs \<noteq> []"
  then show "Parse_RFC3339 (Format_RFC3339 zone t @ xs) = None"
    using date[OF yr, of "''Z'' @ xs"] parse_fraction_zone[OF ok, of xs] fmt
    by (simp add: parse_zone_def)
qed

end
