(* ===== verification/Backend.thy ===== *)
theory Backend
  imports Execution Event_Cleaner Go_Time
begin

text \<open>
  What the registry back ends share: the JSON texts of the records, the hand-over of an execution
  mark to the event cleaner, locks that are keys of a store (locale \<open>lock_keys\<close>, which gives the
  contract \<open>run_registry\<close> of the scheduler), and the nodes of a cluster, each with a registry
  value of its own on one server.
\<close>

lemma set_map_filter: "set (List.map_filter f xs) = {y. \<exists>x \<in> set xs. f x = Some y}"
  by (induction xs) (auto simp: List.map_filter_simps split: option.splits)

section \<open>JSON texts\<close>

text \<open>\<open>encoding/json\<close> on the types of the registry: \<open>Marshal\<close> (with its error) and \<open>Unmarshal\<close>
  (\<open>None\<close>: an error).\<close>

record json_codec =
  js_Node :: "Node \<Rightarrow> error + string"
  js_unNode :: "string \<Rightarrow> Node option"
  js_TaskMeta :: "TaskMeta \<Rightarrow> error + string"
  js_unTaskMeta :: "string \<Rightarrow> TaskMeta option"
  js_NodeEvent :: "NodeEvent \<Rightarrow> error + string"
  js_unNodeEvent :: "string \<Rightarrow> NodeEvent option"
  js_TaskMetaEvent :: "TaskMetaEvent \<Rightarrow> error + string"
  js_unTaskMetaEvent :: "string \<Rightarrow> TaskMetaEvent option"

text \<open>A text that \<open>Marshal\<close> wrote is read back, and is not empty.\<close>

locale json_texts =
  fixes J :: json_codec
  assumes unNode: "js_Node J n = Inr d \<Longrightarrow> js_unNode J d = Some n"
    and unTaskMeta: "js_TaskMeta J tm = Inr d \<Longrightarrow> js_unTaskMeta J d = Some tm"
    and node_text: "js_Node J n = Inr d \<Longrightarrow> d \<noteq> []"

text \<open>The zero values of the Go structs; the zero \<open>time.Time\<close> is the beginning of the year 1.\<close>

definition zero_time :: time where
  "zero_time = - 62135596800 * Second"

definition zero_node :: Node where
  "zero_node = \<lparr>ID = [], IP = [], Hostname = [], LastAlive = zero_time, CreateTime = zero_time, Status = [], Weight = 0\<rparr>"

definition zero_task :: TaskMeta where
  "zero_task = \<lparr>Name = [], CronFormat = [], OneShot = False, ExecutedAndMarkDeleted = False,
     ExecutedAndCleanup = False, Payload = []\<rparr>"

text \<open>A codec for the examples: every field as a string, its characters marked and the end marked.\<close>

fun mark_field :: "string \<Rightarrow> string" where
  "mark_field [] = ''.''"
| "mark_field (c # cs) = CHR ''+'' # c # mark_field cs"

fun read_field :: "string \<Rightarrow> (string \<times> string) option" where
  "read_field (m # c # r) =
     (if m = CHR ''.'' then Some ([], c # r)
      else map_option (\<lambda>(f, r'). (c # f, r')) (read_field r))"
| "read_field [m] = (if m = CHR ''.'' then Some ([], []) else None)"
| "read_field [] = None"

definition int_text :: "string \<Rightarrow> int" where
  "int_text s = (case s of [] \<Rightarrow> 0 | c # cs \<Rightarrow> if c = CHR ''-'' then - int (digits_val cs) else int (digits_val s))"

definition bool_text :: "bool \<Rightarrow> string" where
  "bool_text b = (if b then ''t'' else ''f'')"

fun read_fields :: "nat \<Rightarrow> string \<Rightarrow> string list option" where
  "read_fields 0 s = (if s = [] then Some [] else None)"
| "read_fields (Suc n) s =
     (case read_field s of None \<Rightarrow> None | Some (f, r) \<Rightarrow> map_option (\<lambda>fs. f # fs) (read_fields n r))"

definition mark_fields :: "string list \<Rightarrow> string" where
  "mark_fields fs = concat (map mark_field fs)"

definition node_fields :: "Node \<Rightarrow> string list" where
  "node_fields n = [ID n, IP n, Hostname n, Sprintf_d (LastAlive n), Sprintf_d (CreateTime n), Status n, Sprintf_d (Weight n)]"

definition fields_node :: "string list \<Rightarrow> Node option" where
  "fields_node fs = (case fs of [a, b, c, d, e, f, g] \<Rightarrow>
     Some \<lparr>ID = a, IP = b, Hostname = c, LastAlive = int_text d, CreateTime = int_text e, Status = f, Weight = int_text g\<rparr>
   | _ \<Rightarrow> None)"

definition task_fields :: "TaskMeta \<Rightarrow> string list" where
  "task_fields t = [Name t, CronFormat t, bool_text (OneShot t), bool_text (ExecutedAndMarkDeleted t),
     bool_text (ExecutedAndCleanup t), Payload t]"

definition fields_task :: "string list \<Rightarrow> TaskMeta option" where
  "fields_task fs = (case fs of [a, b, c, d, e, f] \<Rightarrow>
     Some \<lparr>Name = a, CronFormat = b, OneShot = (c = ''t''), ExecutedAndMarkDeleted = (d = ''t''),
       ExecutedAndCleanup = (e = ''t''), Payload = f\<rparr>
   | _ \<Rightarrow> None)"

definition text_codec :: json_codec where
  "text_codec = \<lparr>
     js_Node = (\<lambda>n. Inr (mark_fields (node_fields n))),
     js_unNode = (\<lambda>s. Option.bind (read_fields 7 s) fields_node),
     js_TaskMeta = (\<lambda>t. Inr (mark_fields (task_fields t))),
     js_unTaskMeta = (\<lambda>s. Option.bind (read_fields 6 s) fields_task),
     js_NodeEvent = (\<lambda>e. Inr (mark_fields (NE_Type e # node_fields (NE_Node e)))),
     js_unNodeEvent = (\<lambda>s. Option.bind (read_fields 8 s) (\<lambda>fs.
       map_option (\<lambda>n. \<lparr>NE_Type = hd fs, NE_Node = n\<rparr>) (fields_node (tl fs)))),
     js_TaskMetaEvent = (\<lambda>e. Inr (mark_fields (TE_Type e # task_fields (TE_Task e)))),
     js_unTaskMetaEvent = (\<lambda>s. Option.bind (read_fields 7 s) (\<lambda>fs.
       map_option (\<lambda>t. \<lparr>TE_Type = hd fs, TE_Task = t\<rparr>) (fields_task (tl fs))))\<rparr>"

lemma read_mark_field: "read_field (mark_field s @ r) = Some (s, r)"
  by (induction s) (cases r, simp_all)+

lemma read_mark_fields: "read_fields (length fs) (mark_fields fs) = Some fs"
  by (induction fs) (simp_all add: mark_fields_def read_mark_field)

lemma read_node: "read_fields 7 (mark_fields (node_fields n)) = Some (node_fields n)"
proof -
  have "length (node_fields n) = 7" by (simp add: node_fields_def)
  then show ?thesis using read_mark_fields[of "node_fields n"] by (simp only:)
qed

lemma read_task: "read_fields 6 (mark_fields (task_fields tm)) = Some (task_fields tm)"
proof -
  have "length (task_fields tm) = 6" by (simp add: task_fields_def)
  then show ?thesis using read_mark_fields[of "task_fields tm"] by (simp only:)
qed

lemma int_text_Sprintf_d: "int_text (Sprintf_d n) = n"
proof (cases "n < 0")
  case True
  then show ?thesis by (simp add: Sprintf_d_def int_text_def)
next
  case False
  have "decimal (nat n) \<noteq> []" by (subst decimal.simps) simp
  then obtain c cs where d: "decimal (nat n) = c # cs" by (cases "decimal (nat n)") auto
  then have "c \<noteq> CHR ''-''" using decimal_digits[of "nat n"] not_digit(1) by auto
  then show ?thesis using False d digits_val_decimal[of "nat n"] by (simp add: Sprintf_d_def int_text_def del: digits_val_decimal)
qed

interpretation text_codec: json_texts text_codec
proof
  fix n d assume "js_Node text_codec n = Inr d"
  then have d: "d = mark_fields (node_fields n)" by (simp add: text_codec_def)
  show "js_unNode text_codec d = Some n"
    using read_node by (simp add: d text_codec_def node_fields_def fields_node_def int_text_Sprintf_d)
  show "d \<noteq> []" by (cases "ID n") (simp_all add: d mark_fields_def node_fields_def)
next
  fix tm d assume "js_TaskMeta text_codec tm = Inr d"
  then have d: "d = mark_fields (task_fields tm)" by (simp add: text_codec_def)
  show "js_unTaskMeta text_codec d = Some tm"
    using read_task by (simp add: d text_codec_def task_fields_def fields_task_def bool_text_def)
qed

section \<open>Handing a mark to the cleaner\<close>

text \<open>
  \<open>SendEvent\<close> as a registry calls it: with a full buffer and a live context it waits until
  \<open>receiveEvents\<close> has taken an event; when several cases of its \<open>select\<close> are ready, \<open>ch\<close> is the choice
  of the Go scheduler.
\<close>

type_synonym select_choice = "(error option \<times> EventCleaner) list \<Rightarrow> error option \<times> EventCleaner"

definition await_room :: "EventCleaner \<Rightarrow> EventCleaner" where
  "await_room p =
     (case SendEvent \<lparr>Key = [], Time = 0\<rparr> p of
        [] \<Rightarrow> (case receiveEvents_step p of Some p' \<Rightarrow> p' | None \<Rightarrow> p)
      | _ \<Rightarrow> p)"

definition send_event :: "select_choice \<Rightarrow> Event \<Rightarrow> EventCleaner \<Rightarrow> error option \<times> EventCleaner" where
  "send_event ch event p = ch (SendEvent event (await_room p))"

text \<open>The registries start the cleaner with these options; \<open>handler\<close> is \<open>batchDeleteExecKeys\<close>, the
  injected task 0 is \<open>cleanupHistoryExecKeys\<close>.\<close>

definition registry_cleaner :: "EventHandler \<Rightarrow> EventCleaner" where
  "registry_cleaner handler = NewEventCleaner
     [WithEventDelay CleanerDelay, WithEventBufferSize CleanerBufferSize, WithBatchSize CleanerBatchSize,
      WithInjectedTask [0], WithEventHandler handler]"

lemma send_event_queued:
  assumes "\<forall>xs. xs \<noteq> [] \<longrightarrow> ch xs \<in> set xs" and "\<not> ec_done p"
    and "ec_eventCap p = Some (Suc n)" and "length (ec_eventCh p) \<le> Suc n"
  shows "\<exists>q. send_event ch e p = (None, q) \<and>
    mset (ec_eventCh q) + mset (ec_heap q) = add_mset e (mset (ec_eventCh p) + mset (ec_heap p))"
proof -
  obtain p' where room: "await_room p = p'" "\<not> ec_done p'" "ec_eventCap p' = Some (Suc n)"
    "length (ec_eventCh p') < Suc n"
    "mset (ec_eventCh p') + mset (ec_heap p') = mset (ec_eventCh p) + mset (ec_heap p)"
  proof (cases "length (ec_eventCh p) < Suc n")
    case True
    then show ?thesis using that[of p] assms(2,3) by (simp add: await_room_def SendEvent_def)
  next
    case False
    then obtain x xs where x: "ec_eventCh p = x # xs" by (cases "ec_eventCh p") auto
    show ?thesis
      using that[of "p\<lparr>ec_eventCh := xs, ec_heap := heap_Push (ec_heap p) x\<rparr>"] assms x False eheap.push_elems[of "ec_heap p" x]
      by (simp add: await_room_def SendEvent_def receiveEvents_step_def)
  qed
  then have "SendEvent e (await_room p) = [(None, p'\<lparr>ec_eventCh := ec_eventCh p' @ [e]\<rparr>)]"
    by (simp add: SendEvent_def)
  with assms(1)[rule_format, of "SendEvent e (await_room p)"] room(5) show ?thesis by (simp add: send_event_def)
qed

text \<open>A panic in \<open>CanRunTask\<close> ends the run: \<open>task.Run\<close> recovers it. At the interface it is an error.\<close>

definition recovered :: "('g \<Rightarrow> (error + bool) go \<times> 'g) \<Rightarrow> 'g \<Rightarrow> (error + bool) \<times> 'g" where
  "recovered f g = (case f g of (Inl p, g) \<Rightarrow> (Inl (ErrBackend ''panic''), g) | (Inr r, g) \<Rightarrow> (r, g))"

section \<open>Locks that are keys\<close>

text \<open>
  A lock of a back end is a key of its store, made of the task name and the time. \<open>key\<close> tells names
  and seconds apart, for the names in \<open>ok_name\<close>.
\<close>

locale lock_keys =
  fixes key :: "string \<Rightarrow> time \<Rightarrow> string" and ok_name :: "string \<Rightarrow> bool"
  assumes key_inj: "ok_name n \<Longrightarrow> ok_name n' \<Longrightarrow>
      key n t = key n' t' \<longleftrightarrow> n = n' \<and> unix_second t = unix_second t'"
begin

definition locks_in :: "string set \<Rightarrow> (string \<times> int) set" where
  "locks_in K = {(n, unix_second t) | n t. ok_name n \<and> key n t \<in> K}"

lemma locks_in_iff: "ok_name n \<Longrightarrow> (n, unix_second t) \<in> locks_in K \<longleftrightarrow> key n t \<in> K"
proof
  assume "ok_name n" "(n, unix_second t) \<in> locks_in K"
  then obtain t' where "unix_second t' = unix_second t" "key n t' \<in> K" by (auto simp: locks_in_def)
  then show "key n t \<in> K" using key_inj[OF \<open>ok_name n\<close> \<open>ok_name n\<close>, of t t'] by simp
qed (auto simp: locks_in_def)

lemma locks_in_insert: "ok_name n \<Longrightarrow> locks_in (insert (key n t) K) = insert (n, unix_second t) (locks_in K)"
  using key_inj[of _ n] by (auto simp: locks_in_def)

lemma locks_in_mono: "(\<And>m t. ok_name m \<Longrightarrow> key m t \<in> K \<Longrightarrow> key m t \<in> K') \<Longrightarrow> locks_in K \<subseteq> locks_in K'"
  unfolding locks_in_def by blast

text \<open>The lock contract of a registry whose \<open>CanRunTask\<close> creates the key when it is absent, and whose
  other calls in a run remove no lock key.\<close>

lemma run_registryI:
  assumes yes: "\<And>n t g b g'. ok_name n \<Longrightarrow> reg_CanRunTask G n t g = (Inr b, g') \<Longrightarrow>
      b = (key n t \<notin> keys g) \<and> keys g' = insert (key n t) (keys g)"
    and no: "\<And>n t g e g'. ok_name n \<Longrightarrow> reg_CanRunTask G n t g = (Inl e, g') \<Longrightarrow>
      keys g' = keys g \<or> keys g' = insert (key n t) (keys g)"
    and mark: "\<And>n g m t. ok_name n \<Longrightarrow> ok_name m \<Longrightarrow> key m t \<in> keys g \<Longrightarrow> key m t \<in> keys (snd (reg_MarkTaskDeleted G n g))"
    and cleanup: "\<And>n g m t. ok_name n \<Longrightarrow> ok_name m \<Longrightarrow> key m t \<in> keys g \<Longrightarrow> key m t \<in> keys (snd (reg_ForceCleanupTask G n g))"
  shows "run_registry G (\<lambda>g. locks_in (keys g)) unix_second ok_name"
proof
  fix n t g b g' assume n: "ok_name n" and "reg_CanRunTask G n t g = (Inr b, g')"
  from yes[OF this] show "b = ((n, unix_second t) \<notin> locks_in (keys g)) \<and> locks_in (keys g') = insert (n, unix_second t) (locks_in (keys g))"
    using n locks_in_iff locks_in_insert by simp
next
  fix n t g e g' assume n: "ok_name n" and "reg_CanRunTask G n t g = (Inl e, g')"
  from no[OF this] show "locks_in (keys g') = locks_in (keys g) \<or> locks_in (keys g') = insert (n, unix_second t) (locks_in (keys g))"
    using n locks_in_insert by metis
next
  fix n g assume n: "ok_name n"
  show "locks_in (keys g) \<subseteq> locks_in (keys (snd (reg_MarkTaskDeleted G n g)))"
    by (rule locks_in_mono, rule mark[OF n])
  show "locks_in (keys g) \<subseteq> locks_in (keys (snd (reg_ForceCleanupTask G n g)))"
    by (rule locks_in_mono, rule cleanup[OF n])
qed

end

section \<open>The nodes of a cluster\<close>

text \<open>
  A back end's state is the registry struct of the process and the server. In a cluster every
  node has a struct of its own and all share the server.
\<close>

definition at_node :: "nat \<Rightarrow> ('l \<times> 's \<Rightarrow> 'r \<times> 'l \<times> 's) \<Rightarrow> (nat \<Rightarrow> 'l) \<times> 's \<Rightarrow> 'r \<times> (nat \<Rightarrow> 'l) \<times> 's" where
  "at_node i f = (\<lambda>(L, s). case f (L i, s) of (r, l, s') \<Rightarrow> (r, L(i := l), s'))"

definition on_node :: "nat \<Rightarrow> ('l \<times> 's) registry_ops \<Rightarrow> ((nat \<Rightarrow> 'l) \<times> 's) registry_ops" where
  "on_node i G = \<lparr>
     reg_Register = (\<lambda>n. at_node i (reg_Register G n)),
     reg_Unregister = (\<lambda>n. at_node i (reg_Unregister G n)),
     reg_UpdateStatus = (\<lambda>n st. at_node i (reg_UpdateStatus G n st)),
     reg_UpdateHeartbeat = (\<lambda>n now. at_node i (reg_UpdateHeartbeat G n now)),
     reg_GetNodes = at_node i (reg_GetNodes G),
     reg_GetWorkingNodes = at_node i (reg_GetWorkingNodes G),
     reg_CleanupExpiredNodes = (\<lambda>d now. at_node i (reg_CleanupExpiredNodes G d now)),
     reg_PutTask = (\<lambda>tm. at_node i (reg_PutTask G tm)),
     reg_MarkTaskDeleted = (\<lambda>n. at_node i (reg_MarkTaskDeleted G n)),
     reg_RemoveTaskDeleted = (\<lambda>n. at_node i (reg_RemoveTaskDeleted G n)),
     reg_ForceCleanupTask = (\<lambda>n. at_node i (reg_ForceCleanupTask G n)),
     reg_GetAllTasks = at_node i (reg_GetAllTasks G),
     reg_GetDeletedTaskNames = at_node i (reg_GetDeletedTaskNames G),
     reg_ForceCleanupAllTasks = at_node i (reg_ForceCleanupAllTasks G),
     reg_CanRunTask = (\<lambda>n t. at_node i (reg_CanRunTask G n t))\<rparr>"

lemma snd_at_node: "snd (snd (at_node i f Ls)) = snd (snd (f (fst Ls i, snd Ls)))"
  by (simp add: at_node_def split: prod.splits)

lemma at_node_eq: "at_node i f (L, s) = (r, Ls') \<longleftrightarrow> (\<exists>l s'. f (L i, s) = (r, l, s') \<and> Ls' = (L(i := l), s'))"
  by (auto simp: at_node_def split: prod.splits)

lemma run_registry_on_node:
  assumes "run_registry G (\<lambda>g. h (snd g)) slot ok"
  shows "run_registry (on_node i G) (\<lambda>g. h (snd g)) slot ok"
proof -
  note ex = run_registry.axioms(1)[OF assms]
  show ?thesis
  proof
    fix n t b and g g' :: "(nat \<Rightarrow> 'a) \<times> 'b"
    assume n: "ok n" and "reg_CanRunTask (on_node i G) n t g = (Inr b, g')"
    then obtain l s' where "reg_CanRunTask G n t (fst g i, snd g) = (Inr b, l, s')" "snd g' = s'"
      by (cases g) (auto simp: on_node_def at_node_eq)
    then show "b = ((n, slot t) \<notin> h (snd g)) \<and> h (snd g') = insert (n, slot t) (h (snd g))"
      using exec_lock.granted[OF ex n] by fastforce
  next
    fix n t e and g g' :: "(nat \<Rightarrow> 'a) \<times> 'b"
    assume n: "ok n" and "reg_CanRunTask (on_node i G) n t g = (Inl e, g')"
    then obtain l s' where "reg_CanRunTask G n t (fst g i, snd g) = (Inl e, l, s')" "snd g' = s'"
      by (cases g) (auto simp: on_node_def at_node_eq)
    then show "h (snd g') = h (snd g) \<or> h (snd g') = insert (n, slot t) (h (snd g))"
      using exec_lock.failed[OF ex n] by fastforce
  next
    fix n and g :: "(nat \<Rightarrow> 'a) \<times> 'b" assume n: "ok n"
    show "h (snd g) \<subseteq> h (snd (snd (reg_MarkTaskDeleted (on_node i G) n g)))"
      using run_registry.mark_held[OF assms n, of "(fst g i, snd g)"] by (simp add: on_node_def snd_at_node)
    show "h (snd g) \<subseteq> h (snd (snd (reg_ForceCleanupTask (on_node i G) n g)))"
      using run_registry.cleanup_held[OF assms n, of "(fst g i, snd g)"] by (simp add: on_node_def snd_at_node)
  qed
qed

end
