(* ===== verification/Redis_Registry.thy ===== *)
theory Redis_Registry
  imports Backend "HOL-Library.Log_Nat"
begin

text \<open>
  The Redis back end, \<open>src/redis.go\<close>. The client is the parameter \<open>redis_ops\<close>: the commands the
  code calls, on the state \<open>'q\<close> of the server and the wall clock. What the code relies on of the
  server is stated in the locale \<open>redis_server\<close>, which follows the documentation of the commands;
  \<open>mem_redis_ops\<close> is a server in memory that has the laws.
\<close>

section \<open>The client and the texts\<close>

datatype redis_cmd = HDelCmd string string | DelCmd string

record 'q redis_ops =
  rd_Now :: "'q \<Rightarrow> time"
  rd_ZAdd :: "string \<Rightarrow> int \<Rightarrow> string \<Rightarrow> 'q \<Rightarrow> error option \<times> 'q"
  rd_ZRem :: "string \<Rightarrow> string \<Rightarrow> 'q \<Rightarrow> error option \<times> 'q"
  rd_ZRange :: "string \<Rightarrow> 'q \<Rightarrow> (error + string list) \<times> 'q"
  rd_ZRemRangeByScore :: "string \<Rightarrow> int \<Rightarrow> int \<Rightarrow> 'q \<Rightarrow> (error + nat) \<times> 'q"
  rd_HSet :: "string \<Rightarrow> string \<Rightarrow> string \<Rightarrow> 'q \<Rightarrow> error option \<times> 'q"
  rd_HScan :: "string \<Rightarrow> nat \<Rightarrow> 'q \<Rightarrow> (error + string list \<times> nat) \<times> 'q"
  rd_HGetAll :: "string \<Rightarrow> 'q \<Rightarrow> (error + (string \<times> string) list) \<times> 'q"
  rd_HKeys :: "string \<Rightarrow> 'q \<Rightarrow> (error + string list) \<times> 'q"
  rd_Del :: "string list \<Rightarrow> 'q \<Rightarrow> error option \<times> 'q"
  rd_Publish :: "string \<Rightarrow> string \<Rightarrow> 'q \<Rightarrow> error option \<times> 'q"
  rd_SetNX :: "string \<Rightarrow> string \<Rightarrow> duration \<Rightarrow> 'q \<Rightarrow> (error + bool) \<times> 'q"
  rd_Pipelined :: "redis_cmd list \<Rightarrow> 'q \<Rightarrow> error option \<times> 'q"

definition redisKeyNodes :: string where "redisKeyNodes = ''distributed_cron:nodes''"
definition redisKeyTasks :: string where "redisKeyTasks = ''distributed_cron:tasks''"
definition redisKeyDeletedTasks :: string where "redisKeyDeletedTasks = ''distributed_cron:deleted_tasks''"
definition redisChannelNodes :: string where "redisChannelNodes = ''distributed_cron:nodes_changes''"
definition redisChannelTasks :: string where "redisChannelTasks = ''distributed_cron:tasks_changes''"
definition redisChannelDeletedTasks :: string where
  "redisChannelDeletedTasks = ''distributed_cron:deleted_tasks_changes''"
definition redisKeyTaskLastExecPrefix :: string where
  "redisKeyTaskLastExecPrefix = ''distributed_cron:last_exec:''"

text \<open>\<open>float64(n)\<close> of an integer: 53 significant bits, ties to even.\<close>

definition go_float64 :: "int \<Rightarrow> int" where
  "go_float64 n =
     (let w = 2 ^ nat (bitlen \<bar>n\<bar> - 53); q = n div w; r = n mod w
      in w * (if 2 * r < w \<or> (2 * r = w \<and> even q) then q else q + 1))"

section \<open>Nodes\<close>

definition redis_publishNodeEvent ::
  "'q redis_ops \<Rightarrow> json_codec \<Rightarrow> NodeEventType \<Rightarrow> Node \<Rightarrow> 'q \<Rightarrow> error option \<times> 'q" where
  "redis_publishNodeEvent R J eventType node q =
     (case js_NodeEvent J \<lparr>NE_Type = eventType, NE_Node = node\<rparr> of
        Inl err \<Rightarrow> (Some err, q)
      | Inr data \<Rightarrow> rd_Publish R redisChannelNodes data q)"

definition redis_publishTaskEvent ::
  "'q redis_ops \<Rightarrow> json_codec \<Rightarrow> TaskEventType \<Rightarrow> TaskMeta \<Rightarrow> 'q \<Rightarrow> error option \<times> 'q" where
  "redis_publishTaskEvent R J eventType task q =
     (case js_TaskMetaEvent J \<lparr>TE_Type = eventType, TE_Task = task\<rparr> of
        Inl err \<Rightarrow> (Some err, q)
      | Inr data \<Rightarrow> rd_Publish R redisChannelTasks data q)"

definition redis_getNodesData :: "'q redis_ops \<Rightarrow> 'q \<Rightarrow> (error + string list) \<times> 'q" where
  "redis_getNodesData R q = rd_ZRange R redisKeyNodes q"

definition redis_Register :: "'q redis_ops \<Rightarrow> json_codec \<Rightarrow> Node \<Rightarrow> 'q \<Rightarrow> error option \<times> 'q" where
  "redis_Register R J node q =
     (case js_Node J node of
        Inl err \<Rightarrow> (Some err, q)
      | Inr data \<Rightarrow>
          (case rd_ZAdd R redisKeyNodes (go_float64 (rd_Now R q)) data q of
             (Some err, q) \<Rightarrow> (Some err, q)
           | (None, q) \<Rightarrow> redis_publishNodeEvent R J NodeEventTypePut node q))"

text \<open>The loops that look for a node by its ID: the first text that reads as it.\<close>

fun redis_find :: "json_codec \<Rightarrow> string \<Rightarrow> string list \<Rightarrow> (string \<times> Node) option" where
  "redis_find J nodeID [] = None"
| "redis_find J nodeID (data # nodes) =
     (case js_unNode J data of
        None \<Rightarrow> redis_find J nodeID nodes
      | Some node \<Rightarrow> if ID node = nodeID then Some (data, node) else redis_find J nodeID nodes)"

definition redis_Unregister :: "'q redis_ops \<Rightarrow> json_codec \<Rightarrow> string \<Rightarrow> 'q \<Rightarrow> error option \<times> 'q" where
  "redis_Unregister R J nodeID q =
     (case redis_getNodesData R q of
        (Inl err, q) \<Rightarrow> (Some err, q)
      | (Inr nodes, q) \<Rightarrow>
          (case redis_find J nodeID nodes of
             None \<Rightarrow> (None, q)
           | Some (data, node) \<Rightarrow>
               (case rd_ZRem R redisKeyNodes data q of
                  (Some err, q) \<Rightarrow> (Some err, q)
                | (None, q) \<Rightarrow> redis_publishNodeEvent R J NodeEventTypeDelete node q)))"

definition redis_updateNodeField ::
  "'q redis_ops \<Rightarrow> json_codec \<Rightarrow> string \<Rightarrow> (Node \<Rightarrow> Node) \<Rightarrow> 'q \<Rightarrow> error option \<times> 'q" where
  "redis_updateNodeField R J nodeID updateFn q =
     (case redis_getNodesData R q of
        (Inl err, q) \<Rightarrow> (Some err, q)
      | (Inr nodes, q) \<Rightarrow>
          (case redis_find J nodeID nodes of
             None \<Rightarrow> (Some ErrNodeNotFound, q)
           | Some (data, node) \<Rightarrow>
               (case rd_ZRem R redisKeyNodes data q of
                  (Some err, q) \<Rightarrow> (Some err, q)
                | (None, q) \<Rightarrow>
                    let node = updateFn node in
                    case js_Node J node of
                      Inl err \<Rightarrow> (Some err, q)
                    | Inr newData \<Rightarrow>
                        (case rd_ZAdd R redisKeyNodes (go_float64 (rd_Now R q)) newData q of
                           (Some err, q) \<Rightarrow> (Some err, q)
                         | (None, q) \<Rightarrow> redis_publishNodeEvent R J NodeEventTypePut node q))))"

definition redis_UpdateStatus ::
  "'q redis_ops \<Rightarrow> json_codec \<Rightarrow> string \<Rightarrow> NodeStatus \<Rightarrow> 'q \<Rightarrow> error option \<times> 'q" where
  "redis_UpdateStatus R J nodeID status =
     redis_updateNodeField R J nodeID (\<lambda>node. node\<lparr>Status := status\<rparr>)"

definition redis_UpdateHeartbeat ::
  "'q redis_ops \<Rightarrow> json_codec \<Rightarrow> string \<Rightarrow> time \<Rightarrow> 'q \<Rightarrow> error option \<times> 'q" where
  "redis_UpdateHeartbeat R J nodeID now =
     redis_updateNodeField R J nodeID (\<lambda>node. node\<lparr>LastAlive := now\<rparr>)"

definition redis_GetNodes :: "'q redis_ops \<Rightarrow> json_codec \<Rightarrow> 'q \<Rightarrow> (error + Node list) \<times> 'q" where
  "redis_GetNodes R J q =
     (case redis_getNodesData R q of
        (Inl err, q) \<Rightarrow> (Inl err, q)
      | (Inr nodesData, q) \<Rightarrow> (Inr (List.map_filter (js_unNode J) nodesData), q))"

definition redis_GetWorkingNodes :: "'q redis_ops \<Rightarrow> json_codec \<Rightarrow> 'q \<Rightarrow> (error + Node list) \<times> 'q" where
  "redis_GetWorkingNodes R J q =
     (case redis_GetNodes R J q of
        (Inl err, q) \<Rightarrow> (Inl err, q)
      | (Inr nodes, q) \<Rightarrow> (Inr (filter (\<lambda>node. Status node = NodeStatusWorking) nodes), q))"

fun redis_publish_all :: "'q redis_ops \<Rightarrow> json_codec \<Rightarrow> Node list \<Rightarrow> 'q \<Rightarrow> 'q" where
  "redis_publish_all R J [] q = q"
| "redis_publish_all R J (node # nodes) q =
     redis_publish_all R J nodes (snd (redis_publishNodeEvent R J NodeEventTypePut node q))"

definition redis_CleanupExpiredNodes ::
  "'q redis_ops \<Rightarrow> json_codec \<Rightarrow> duration \<Rightarrow> time \<Rightarrow> 'q \<Rightarrow> error option \<times> 'q" where
  "redis_CleanupExpiredNodes R J timeout now q =
     (let minScore = go_float64 (now - timeout) in
      case rd_ZRemRangeByScore R redisKeyNodes 0 minScore q of
        (Inl err, q) \<Rightarrow> (Some err, q)
      | (Inr removed, q) \<Rightarrow>
          if removed > 0
          then case redis_GetNodes R J q of
                 (Inl err, q) \<Rightarrow> (None, q)
               | (Inr nodes, q) \<Rightarrow> (None, redis_publish_all R J nodes q)
          else (None, q))"

text \<open>
  The goroutines of the watchers: the events they send for what they receive from the subscription.
  \<open>None\<close> is the nil message of a closed channel: reading its payload panics.
\<close>

fun redis_watch :: "(string \<Rightarrow> 'e option) \<Rightarrow> string option list \<Rightarrow> 'e list \<times> go_panic option" where
  "redis_watch unmarshal [] = ([], None)"
| "redis_watch unmarshal (None # msgs) = ([], Some NilDeref)"
| "redis_watch unmarshal (Some payload # msgs) =
     (case unmarshal payload of
        None \<Rightarrow> redis_watch unmarshal msgs
      | Some event \<Rightarrow> apfst (\<lambda>es. event # es) (redis_watch unmarshal msgs))"

definition redis_WatchNodes :: "json_codec \<Rightarrow> string option list \<Rightarrow> NodeEvent list \<times> go_panic option" where
  "redis_WatchNodes J msgs =
     apfst (\<lambda>es. \<lparr>NE_Type = NodeEventTypeChanged, NE_Node = zero_node\<rparr> # es) (redis_watch (js_unNodeEvent J) msgs)"

definition redis_WatchTaskEvent :: "json_codec \<Rightarrow> string option list \<Rightarrow> TaskMetaEvent list \<times> go_panic option" where
  "redis_WatchTaskEvent J msgs = redis_watch (js_unTaskMetaEvent J) msgs"

text \<open>The watcher of deleted tasks counts only: the signals in its channel after a first one and
  \<open>msgs\<close> messages that nobody reads; a full channel drops a signal.\<close>

fun redis_WatchDeletedTaskEvent :: "nat \<Rightarrow> nat" where
  "redis_WatchDeletedTaskEvent 0 = 1"
| "redis_WatchDeletedTaskEvent (Suc msgs) =
     (let pending = redis_WatchDeletedTaskEvent msgs
      in if pending < TaskEventChannelSize then pending + 1 else pending)"

section \<open>Tasks\<close>

definition redis_PutTask :: "'q redis_ops \<Rightarrow> json_codec \<Rightarrow> TaskMeta \<Rightarrow> 'q \<Rightarrow> error option \<times> 'q" where
  "redis_PutTask R J task q =
     (case js_TaskMeta J task of
        Inl err \<Rightarrow> (Some err, q)
      | Inr data \<Rightarrow>
          (case rd_HSet R redisKeyTasks (Name task) data q of
             (Some err, q) \<Rightarrow> (Some err, q)
           | (None, q) \<Rightarrow> redis_publishTaskEvent R J TaskEventTypePut task q))"

fun redis_store_pairs ::
  "json_codec \<Rightarrow> string list \<Rightarrow> (string \<times> TaskMeta) list \<Rightarrow> ((string \<times> TaskMeta) list) go" where
  "redis_store_pairs J [] tasks = Inr tasks"
| "redis_store_pairs J [field] tasks = Inl IndexOutOfRange"
| "redis_store_pairs J (field # value # keys) tasks =
     redis_store_pairs J keys (case js_unTaskMeta J value of
       None \<Rightarrow> tasks | Some task \<Rightarrow> AList.update field task tasks)"

text \<open>
  The scan loop. The cursor that \<open>HScan\<close> returns is a new variable of the loop body, so every
  call passes the outer one, which stays 0. \<open>None\<close>: the fuel is used up.
\<close>

fun redis_scan ::
  "nat \<Rightarrow> 'q redis_ops \<Rightarrow> json_codec \<Rightarrow> (string \<times> TaskMeta) list \<Rightarrow> 'q \<Rightarrow>
   (((error + (string \<times> TaskMeta) list) \<times> 'q) go) option" where
  "redis_scan 0 R J tasks q = None"
| "redis_scan (Suc fuel) R J tasks q =
     (case rd_HScan R redisKeyTasks 0 q of
        (Inl err, q) \<Rightarrow> Some (Inr (Inl err, q))
      | (Inr (keys, cursor), q) \<Rightarrow>
          (case redis_store_pairs J keys tasks of
             Inl p \<Rightarrow> Some (Inl p)
           | Inr tasks \<Rightarrow> if cursor = 0 then Some (Inr (Inr tasks, q)) else redis_scan fuel R J tasks q))"

fun redis_store_all ::
  "json_codec \<Rightarrow> (string \<times> string) list \<Rightarrow> (string \<times> TaskMeta) list \<Rightarrow> (string \<times> TaskMeta) list" where
  "redis_store_all J [] tasks = tasks"
| "redis_store_all J ((name, data) # tasksData) tasks =
     redis_store_all J tasksData (case js_unTaskMeta J data of
       None \<Rightarrow> tasks | Some task \<Rightarrow> AList.update name task tasks)"

definition redis_GetAllTasks ::
  "nat \<Rightarrow> 'q redis_ops \<Rightarrow> json_codec \<Rightarrow> 'q \<Rightarrow> (((error + (string \<times> TaskMeta) list) \<times> 'q) go) option" where
  "redis_GetAllTasks fuel R J q =
     (case redis_scan fuel R J [] q of
        Some (Inr (Inr tasks, q)) \<Rightarrow>
          (case rd_HGetAll R redisKeyTasks q of
             (Inl err, q) \<Rightarrow> Some (Inr (Inl err, q))
           | (Inr tasksData, q) \<Rightarrow> Some (Inr (Inr (redis_store_all J tasksData tasks), q)))
      | r \<Rightarrow> r)"

definition redis_MarkTaskDeleted :: "'q redis_ops \<Rightarrow> string \<Rightarrow> 'q \<Rightarrow> error option \<times> 'q" where
  "redis_MarkTaskDeleted R taskName q =
     (case rd_HSet R redisKeyDeletedTasks taskName [] q of
        (Some err, q) \<Rightarrow> (Some (ErrWrapped taskName err), q)
      | (None, q) \<Rightarrow> rd_Publish R redisChannelDeletedTasks [] q)"

definition redis_GetDeletedTaskNames :: "'q redis_ops \<Rightarrow> 'q \<Rightarrow> string list \<times> 'q" where
  "redis_GetDeletedTaskNames R q =
     (case rd_HKeys R redisKeyDeletedTasks q of
        (Inl err, q) \<Rightarrow> ([], q)
      | (Inr deletedTasks, q) \<Rightarrow> (deletedTasks, q))"

definition redis_ForceCleanupTask :: "'q redis_ops \<Rightarrow> string \<Rightarrow> 'q \<Rightarrow> error option \<times> 'q" where
  "redis_ForceCleanupTask R taskName q =
     rd_Pipelined R [HDelCmd redisKeyTasks taskName, HDelCmd redisKeyDeletedTasks taskName,
       DelCmd (redisKeyTaskLastExecPrefix @ taskName)] q"

definition redis_ForceCleanupAllTasks :: "'q redis_ops \<Rightarrow> 'q \<Rightarrow> error option \<times> 'q" where
  "redis_ForceCleanupAllTasks R q =
     rd_Del R [redisKeyTasks, redisKeyDeletedTasks, redisKeyDeletedTasks] q"

text \<open>\<open>zone\<close> is the location of the process: \<open>execTime\<close> comes from \<open>time.Now()\<close>.\<close>

definition redis_lock_key :: "(int \<Rightarrow> int) \<Rightarrow> string \<Rightarrow> time \<Rightarrow> string" where
  "redis_lock_key zone taskName execTime =
     redisKeyTaskLastExecPrefix @ taskName @ '':'' @ Format_RFC3339 zone execTime"

definition redis_CanRunTask ::
  "'q redis_ops \<Rightarrow> (int \<Rightarrow> int) \<Rightarrow> string \<Rightarrow> time \<Rightarrow> 'q \<Rightarrow> (error + bool) \<times> 'q" where
  "redis_CanRunTask R zone taskName execTime q =
     (case rd_SetNX R (redis_lock_key zone taskName execTime) [] (5 * Second) q of
        (Inl err, q) \<Rightarrow> (Inl (ErrWrapped taskName err), q)
      | (Inr success, q) \<Rightarrow> (Inr success, q))"

definition redis_RemoveTaskDeleted :: "'q redis_ops \<Rightarrow> string \<Rightarrow> 'q \<Rightarrow> error option \<times> 'q" where
  "redis_RemoveTaskDeleted R taskName q = rd_Del R [redisKeyDeletedTasks] q"

text \<open>The back end behind the interface; \<open>getAll\<close> is what \<open>redis_GetAllTasks\<close> returns when its
  loop ends.\<close>

definition redis_registry ::
  "'q redis_ops \<Rightarrow> json_codec \<Rightarrow> (int \<Rightarrow> int) \<Rightarrow> ('q \<Rightarrow> (error + (string \<times> TaskMeta) list) \<times> 'q) \<Rightarrow>
   'q registry_ops" where
  "redis_registry R J zone getAll = \<lparr>
     reg_Register = redis_Register R J, reg_Unregister = redis_Unregister R J,
     reg_UpdateStatus = redis_UpdateStatus R J, reg_UpdateHeartbeat = redis_UpdateHeartbeat R J,
     reg_GetNodes = redis_GetNodes R J, reg_GetWorkingNodes = redis_GetWorkingNodes R J,
     reg_CleanupExpiredNodes = redis_CleanupExpiredNodes R J, reg_PutTask = redis_PutTask R J,
     reg_MarkTaskDeleted = redis_MarkTaskDeleted R, reg_RemoveTaskDeleted = redis_RemoveTaskDeleted R,
     reg_ForceCleanupTask = redis_ForceCleanupTask R, reg_GetAllTasks = getAll,
     reg_GetDeletedTaskNames = redis_GetDeletedTaskNames R,
     reg_ForceCleanupAllTasks = redis_ForceCleanupAllTasks R,
     reg_CanRunTask = redis_CanRunTask R zone\<rparr>"

section \<open>What the code relies on\<close>

text \<open>
  \<open>strs q\<close>: the keys of string type that are alive; \<open>zset q k\<close>: the members of a sorted set with
  their scores; \<open>hash q k\<close>: the fields of a hash. A command that returns no error has its documented
  effect; a \<open>SETNX\<close> with an error may have had it. Keys expire between commands only.
\<close>

locale redis_server =
  fixes R :: "'q redis_ops" and strs :: "'q \<Rightarrow> string set"
    and zset :: "'q \<Rightarrow> string \<Rightarrow> (string \<rightharpoonup> int)" and hash :: "'q \<Rightarrow> string \<Rightarrow> (string \<rightharpoonup> string)"
  assumes setnx_ok: "HasPrefix k redisKeyTaskLastExecPrefix \<Longrightarrow> rd_SetNX R k v ttl q = (Inr b, q') \<Longrightarrow>
      b = (k \<notin> strs q) \<and> strs q' = insert k (strs q)"
    and setnx_err: "HasPrefix k redisKeyTaskLastExecPrefix \<Longrightarrow> rd_SetNX R k v ttl q = (Inl e, q') \<Longrightarrow>
      strs q' = strs q \<or> strs q' = insert k (strs q)"
    and hset_strs: "strs (snd (rd_HSet R k f v q)) = strs q"
    and publish_strs: "strs (snd (rd_Publish R c m q)) = strs q"
    and pipeline_strs: "strs q - {k. DelCmd k \<in> set cmds} \<subseteq> strs (snd (rd_Pipelined R cmds q))"
    and zadd: "rd_ZAdd R k s m q = (None, q') \<Longrightarrow> zset q' = (zset q)(k := (zset q k)(m \<mapsto> s))"
    and zrem: "rd_ZRem R k m q = (None, q') \<Longrightarrow> zset q' = (zset q)(k := (zset q k)(m := None))"
    and zrange: "rd_ZRange R k q = (Inr ms, q') \<Longrightarrow> set ms = dom (zset q k) \<and> zset q' = zset q"
    and zremrange: "rd_ZRemRangeByScore R k lo hi q = (Inr cnt, q') \<Longrightarrow>
      zset q' = (zset q)(k := zset q k |` {m. \<not> (\<exists>s. zset q k m = Some s \<and> lo \<le> s \<and> s \<le> hi)})"
    and publish_zset: "zset (snd (rd_Publish R c m q)) = zset q"
    and hset: "rd_HSet R k f v q = (None, q') \<Longrightarrow> hash q' = (hash q)(k := (hash q k)(f \<mapsto> v))"
    and hkeys: "rd_HKeys R k q = (Inr fs, q') \<Longrightarrow> set fs = dom (hash q k) \<and> hash q' = hash q"
    and del_hash: "rd_Del R ks q = (None, q') \<Longrightarrow> hash q' = (\<lambda>k. if k \<in> set ks then Map.empty else hash q k)"
    and publish_hash: "hash (snd (rd_Publish R c m q)) = hash q"

text \<open>The keys of the locks, for one location.\<close>

lemma redis_keys:
  assumes "zone_ok zone"
  shows "lock_keys (redis_lock_key zone) (\<lambda>n. CHR '':'' \<notin> set n)"
proof
  fix n n' t t'
  show "redis_lock_key zone n t = redis_lock_key zone n' t' \<longleftrightarrow> n = n' \<and> unix_second t = unix_second t'"
    using Format_suffix[OF assms assms, of n t n' t'] Format_second[OF assms, of t t'] by (auto simp: redis_lock_key_def)
qed

text \<open>The name of a task without a colon does not make a lock key.\<close>

lemma redis_cleanup_key:
  "CHR '':'' \<notin> set n \<Longrightarrow> redis_lock_key zone m t \<noteq> redisKeyTaskLastExecPrefix @ n"
  by (auto simp: redis_lock_key_def)

context redis_server
begin

lemma redis_run_registry:
  assumes "zone_ok zone"
  shows "run_registry (redis_registry R J zone getAll)
    (\<lambda>q. lock_keys.locks_in (redis_lock_key zone) (\<lambda>n. CHR '':'' \<notin> set n) (strs q)) unix_second (\<lambda>n. CHR '':'' \<notin> set n)"
proof (rule lock_keys.run_registryI[OF redis_keys[OF assms]])
  have pre: "HasPrefix (redis_lock_key zone n t) redisKeyTaskLastExecPrefix" for n t
    by (simp add: redis_lock_key_def)
  fix n t q q'
  show "reg_CanRunTask (redis_registry R J zone getAll) n t q = (Inr b, q') \<Longrightarrow>
      b = (redis_lock_key zone n t \<notin> strs q) \<and> strs q' = insert (redis_lock_key zone n t) (strs q)" for b
    using setnx_ok[OF pre] by (auto simp: redis_registry_def redis_CanRunTask_def split: prod.splits sum.splits)
  show "reg_CanRunTask (redis_registry R J zone getAll) n t q = (Inl e, q') \<Longrightarrow>
      strs q' = strs q \<or> strs q' = insert (redis_lock_key zone n t) (strs q)" for e
    using setnx_err[OF pre] by (auto simp: redis_registry_def redis_CanRunTask_def split: prod.splits sum.splits)
next
  fix n q m t
  have "strs (snd (redis_MarkTaskDeleted R n q)) = strs q"
    using hset_strs[of redisKeyDeletedTasks n "[]" q] publish_strs[of redisChannelDeletedTasks "[]"]
    by (auto simp: redis_MarkTaskDeleted_def split: prod.splits option.splits)
  then show "redis_lock_key zone m t \<in> strs q \<Longrightarrow>
      redis_lock_key zone m t \<in> strs (snd (reg_MarkTaskDeleted (redis_registry R J zone getAll) n q))"
    by (simp add: redis_registry_def)
next
  fix n q m t assume "CHR '':'' \<notin> set n" and "redis_lock_key zone m t \<in> strs q"
  then show "redis_lock_key zone m t \<in> strs (snd (reg_ForceCleanupTask (redis_registry R J zone getAll) n q))"
    using pipeline_strs[of q "[HDelCmd redisKeyTasks n, HDelCmd redisKeyDeletedTasks n,
       DelCmd (redisKeyTaskLastExecPrefix @ n)]"] redis_cleanup_key[of n zone m t]
    by (auto simp: redis_registry_def redis_ForceCleanupTask_def)
qed

text \<open>The nodes that the registry has, as texts that can be read.\<close>

definition redis_node_texts :: "json_codec \<Rightarrow> 'q \<Rightarrow> string \<Rightarrow> Node \<Rightarrow> bool" where
  "redis_node_texts J q d n \<longleftrightarrow> d \<in> dom (zset q redisKeyNodes) \<and> js_unNode J d = Some n"

lemma publish_nodes: "zset (snd (redis_publishNodeEvent R J ty n q)) = zset q"
  by (simp add: redis_publishNodeEvent_def publish_zset split: sum.splits)

lemma GetNodes_reads:
  assumes "redis_GetNodes R J q = (Inr ns, q')"
  shows "set ns = {n. \<exists>d. redis_node_texts J q d n} \<and> zset q' = zset q"
proof -
  obtain ds where z: "rd_ZRange R redisKeyNodes q = (Inr ds, q')" and "ns = List.map_filter (js_unNode J) ds"
    using assms by (auto simp: redis_GetNodes_def redis_getNodesData_def split: prod.splits sum.splits)
  then show ?thesis using zrange[OF z] by (simp add: redis_node_texts_def set_map_filter Bex_def)
qed

lemma find_spec: "redis_find J nid ds = Some (d, n) \<Longrightarrow> d \<in> set ds \<and> js_unNode J d = Some n \<and> ID n = nid"
  by (induction ds) (auto split: option.splits if_splits)

lemma find_none: "redis_find J nid ds = None \<Longrightarrow> d \<in> set ds \<Longrightarrow> js_unNode J d = Some n \<Longrightarrow> ID n \<noteq> nid"
  by (induction ds) (auto split: option.splits if_splits)

text \<open>The steps of an update, as far as they go.\<close>

lemma update_steps:
  assumes "redis_updateNodeField R J nid f q = (None, q')"
  obtains d n q2 d2 where "redis_node_texts J q d n" "ID n = nid" "js_Node J (f n) = Inr d2"
    "zset q' = (zset q)(redisKeyNodes := ((zset q redisKeyNodes)(d := None))(d2 \<mapsto> go_float64 (rd_Now R q2)))"
proof -
  obtain ds q1 d n q2 d2 q3 where zr: "rd_ZRange R redisKeyNodes q = (Inr ds, q1)"
    and f: "redis_find J nid ds = Some (d, n)" and rem: "rd_ZRem R redisKeyNodes d q1 = (None, q2)"
    and m: "js_Node J (f n) = Inr d2"
    and add: "rd_ZAdd R redisKeyNodes (go_float64 (rd_Now R q2)) d2 q2 = (None, q3)"
    and q': "redis_publishNodeEvent R J NodeEventTypePut (f n) q3 = (None, q')"
    using assms unfolding redis_updateNodeField_def redis_getNodesData_def Let_def
    by (fastforce split: prod.splits sum.splits option.splits)
  have "redis_node_texts J q d n" "ID n = nid"
    using find_spec[OF f] zrange[OF zr] by (auto simp: redis_node_texts_def)
  moreover have "zset q' = (zset q)(redisKeyNodes := ((zset q redisKeyNodes)(d := None))(d2 \<mapsto> go_float64 (rd_Now R q2)))"
    using zadd[OF add] zrem[OF rem] zrange[OF zr] publish_nodes[of J NodeEventTypePut "f n" q3] q' by simp
  ultimately show thesis using that m by blast
qed

lemma Register_steps:
  assumes "redis_Register R J n q = (None, q')"
  obtains d where "js_Node J n = Inr d"
    "zset q' = (zset q)(redisKeyNodes := (zset q redisKeyNodes)(d \<mapsto> go_float64 (rd_Now R q)))"
proof -
  obtain d q1 where d: "js_Node J n = Inr d" and z: "rd_ZAdd R redisKeyNodes (go_float64 (rd_Now R q)) d q = (None, q1)"
    and p: "redis_publishNodeEvent R J NodeEventTypePut n q1 = (None, q')"
    using assms unfolding redis_Register_def by (fastforce split: sum.splits prod.splits option.splits)
  then show thesis using that[OF d] zadd[OF z] publish_nodes[of J NodeEventTypePut n q1] by simp
qed

end

section \<open>A server in memory\<close>

record mem_redis =
  rq_now :: time
  rq_strs :: "string list"
  rq_zset :: "string \<Rightarrow> (string \<times> int) list"
  rq_hash :: "string \<Rightarrow> (string \<times> string) list"

fun mem_redis_cmd :: "redis_cmd \<Rightarrow> mem_redis \<Rightarrow> mem_redis" where
  "mem_redis_cmd (HDelCmd k f) q = q\<lparr>rq_hash := (rq_hash q)(k := AList.delete f (rq_hash q k))\<rparr>"
| "mem_redis_cmd (DelCmd k) q = q\<lparr>rq_strs := filter (\<lambda>x. x \<noteq> k) (rq_strs q), rq_zset := (rq_zset q)(k := []),
     rq_hash := (rq_hash q)(k := [])\<rparr>"

definition mem_redis_ops :: "mem_redis redis_ops" where
  "mem_redis_ops = \<lparr>
     rd_Now = rq_now,
     rd_ZAdd = (\<lambda>k s m q. (None, q\<lparr>rq_zset := (rq_zset q)(k := AList.update m s (rq_zset q k))\<rparr>)),
     rd_ZRem = (\<lambda>k m q. (None, q\<lparr>rq_zset := (rq_zset q)(k := AList.delete m (rq_zset q k))\<rparr>)),
     rd_ZRange = (\<lambda>k q. (Inr (map fst (rq_zset q k)), q)),
     rd_ZRemRangeByScore = (\<lambda>k lo hi q.
       (Inr (length (filter (\<lambda>(m, s). lo \<le> s \<and> s \<le> hi) (rq_zset q k))),
        q\<lparr>rq_zset := (rq_zset q)(k := filter (\<lambda>(m, s). \<not> (the (map_of (rq_zset q k) m) \<ge> lo \<and> the (map_of (rq_zset q k) m) \<le> hi)) (rq_zset q k))\<rparr>)),
     rd_HSet = (\<lambda>k f v q. (None, q\<lparr>rq_hash := (rq_hash q)(k := AList.update f v (rq_hash q k))\<rparr>)),
     rd_HScan = (\<lambda>k c q. (Inr (concat (map (\<lambda>(f, v). [f, v]) (rq_hash q k)), if length (rq_hash q k) > 512 then 1 else 0), q)),
     rd_HGetAll = (\<lambda>k q. (Inr (rq_hash q k), q)),
     rd_HKeys = (\<lambda>k q. (Inr (map fst (rq_hash q k)), q)),
     rd_Del = (\<lambda>ks q. (None, fold (\<lambda>k. mem_redis_cmd (DelCmd k)) ks q)),
     rd_Publish = (\<lambda>c m q. (None, q)),
     rd_SetNX = (\<lambda>k v ttl q. if k \<in> set (rq_strs q) then (Inr False, q) else (Inr True, q\<lparr>rq_strs := k # rq_strs q\<rparr>)),
     rd_Pipelined = (\<lambda>cmds q. (None, fold mem_redis_cmd cmds q))\<rparr>"

lemma mem_redis_pipeline: "set (rq_strs q) - {k. DelCmd k \<in> set cmds} \<subseteq> set (rq_strs (fold mem_redis_cmd cmds q))"
proof (induction cmds arbitrary: q)
  case (Cons c cmds)
  have "set (rq_strs q) - {k. DelCmd k \<in> set (c # cmds)} \<subseteq> set (rq_strs (mem_redis_cmd c q)) - {k. DelCmd k \<in> set cmds}"
    by (cases c) auto
  then show ?case using Cons.IH[of "mem_redis_cmd c q"] by simp
qed simp

lemma mem_redis_del: "rq_hash (fold (\<lambda>k. mem_redis_cmd (DelCmd k)) ks q) = (\<lambda>k. if k \<in> set ks then [] else rq_hash q k)"
  by (induction ks arbitrary: q) (auto simp: fun_eq_iff)

lemma map_of_filter_keys: "map_of (filter (\<lambda>(m, s). P m) xs) = map_of xs |` {m. P m}"
  by (induction xs) (auto simp: fun_eq_iff restrict_map_def)

interpretation mem_redis: redis_server mem_redis_ops "\<lambda>q. set (rq_strs q)" "\<lambda>q k. map_of (rq_zset q k)"
  "\<lambda>q k. map_of (rq_hash q k)"
proof
  fix q k lo hi cnt q'
  assume "rd_ZRemRangeByScore mem_redis_ops k lo hi q = (Inr cnt, q')"
  then have q': "q' = q\<lparr>rq_zset := (rq_zset q)(k := filter (\<lambda>(m, s). \<not> (the (map_of (rq_zset q k) m) \<ge> lo \<and> the (map_of (rq_zset q k) m) \<le> hi)) (rq_zset q k))\<rparr>"
    by (simp add: mem_redis_ops_def)
  show "(\<lambda>k. map_of (rq_zset q' k)) = (\<lambda>k. map_of (rq_zset q k))
      (k := map_of (rq_zset q k) |` {m. \<not> (\<exists>s. map_of (rq_zset q k) m = Some s \<and> lo \<le> s \<and> s \<le> hi)})"
    unfolding q' by (rule ext, rule ext) (auto simp: map_of_filter_keys restrict_map_def, metis option.collapse)
qed (use mem_redis_pipeline mem_redis_del in \<open>auto simp: mem_redis_ops_def alist_simps fun_eq_iff map_of_dom split: if_splits\<close>)

definition mem_redis_empty :: mem_redis where
  "mem_redis_empty = \<lparr>rq_now = 1748432520 * Second, rq_strs = [], rq_zset = (\<lambda>k. []), rq_hash = (\<lambda>k. [])\<rparr>"

interpretation redis_keys_utc: lock_keys "redis_lock_key (\<lambda>s. 0)" "\<lambda>n. CHR '':'' \<notin> set n"
  by (rule redis_keys) (simp add: zone_ok_def)

section \<open>Properties\<close>

text \<open>The locks that a set of keys holds, for nodes in one location.\<close>

definition redis_locks :: "(int \<Rightarrow> int) \<Rightarrow> string set \<Rightarrow> (string \<times> int) set" where
  "redis_locks zone K = {(n, unix_second t) | n t. CHR '':'' \<notin> set n \<and> redis_lock_key zone n t \<in> K}"

lemma redis_locks_eq:
  "zone_ok zone \<Longrightarrow> lock_keys.locks_in (redis_lock_key zone) (\<lambda>n. CHR '':'' \<notin> set n) K = redis_locks zone K"
  using lock_keys.locks_in_def[OF redis_keys] by (simp add: redis_locks_def)

text \<open>
  C6. With the Redis back end on every node, all nodes in the same location, and task names without
  a colon, the user's code of a task is called at most once for each second, as long as no lock
  expires before the last run that asks for it.
\<close>

theorem redis_one_run_per_second:
  assumes "redis_server R strs zset hash" and "zone_ok zone"
    and "\<forall>x \<in> set xs. (\<exists>getAll. fst x = redis_registry R J zone getAll) \<and> CHR '':'' \<notin> set (fst (run_lock_of unix_second x))"
    and "locks_kept (\<lambda>q. redis_locks zone (strs q)) unix_second xs"
  shows "distinct (run_history unix_second C user xs q)"
proof -
  have "run_registry (redis_registry R J zone getAll) (\<lambda>q. redis_locks zone (strs q)) unix_second (\<lambda>n. CHR '':'' \<notin> set n)" for getAll
    using redis_server.redis_run_registry[OF assms(1,2)] by (simp add: redis_locks_eq[OF assms(2)])
  then have "\<forall>x \<in> set xs. run_registry (fst x) (\<lambda>q. redis_locks zone (strs q)) unix_second (\<lambda>n. CHR '':'' \<notin> set n) \<and>
      CHR '':'' \<notin> set (fst (run_lock_of unix_second x))" using assms(3) by metis
  then show ?thesis using run_history_free[OF _ assms(4)] by blast
qed

definition demo_redis :: "mem_redis registry_ops" where
  "demo_redis = redis_registry mem_redis_ops text_codec (\<lambda>s. 28800) (\<lambda>q. (Inr [], q))"

theorem redis_one_run_per_second_witness:
  "distinct (run_history unix_second mem_cron_ops (\<lambda>i. RunOk)
     [(demo_redis, id, 1000000000, 0, demo_balanced), (demo_redis, id, 1500000000, 0, demo_ready)] mem_redis_empty)"
proof (rule redis_one_run_per_second[OF mem_redis.redis_server_axioms, of "\<lambda>s. 28800"])
  have "task_name (dc_store demo_balanced ! 0) = ''job''" "task_name (dc_store demo_ready ! 0) = ''job''"
    by code_simp+
  then show "\<forall>x \<in> set [(demo_redis, id, 1000000000, 0, demo_balanced), (demo_redis, id, 1500000000, 0, demo_ready)].
      (\<exists>getAll. fst x = redis_registry mem_redis_ops text_codec (\<lambda>s. 28800) getAll) \<and>
      CHR '':'' \<notin> set (fst (run_lock_of unix_second x))"
    by (auto simp: run_lock_of_def demo_redis_def)
qed (simp_all add: zone_ok_def)

text \<open>
  C30. Nodes in different locations do not exclude each other: when the offsets differ at the time of
  a run, the lock that one node takes is not the lock of the other, and both may run the task in the
  same second.
\<close>

theorem redis_zones_run_twice:
  assumes "redis_server R strs zset hash" and "zone_ok zone" and "zone_ok zone'"
    and "zone (unix_second t) \<noteq> zone' (unix_second t)" and "redis_lock_key zone' n t \<notin> strs q"
    and "redis_CanRunTask R zone n t q = (Inr True, q1)" and "redis_CanRunTask R zone' n t q1 = (Inr b, q2)"
  shows "b"
proof -
  have pre: "HasPrefix (redis_lock_key z n t) redisKeyTaskLastExecPrefix" for z by (simp add: redis_lock_key_def)
  have "rd_SetNX R (redis_lock_key zone n t) [] (5 * Second) q = (Inr True, q1)"
    "rd_SetNX R (redis_lock_key zone' n t) [] (5 * Second) q1 = (Inr b, q2)"
    using assms(6,7) by (auto simp: redis_CanRunTask_def split: prod.splits sum.splits)
  note one = redis_server.setnx_ok[OF assms(1) pre this(1)] and two = redis_server.setnx_ok[OF assms(1) pre this(2)]
  have "redis_lock_key zone n t \<noteq> redis_lock_key zone' n t"
    using Format_prefix[OF assms(2,3), of t "[]" t "[]"] assms(4) by (auto simp: redis_lock_key_def)
  then show ?thesis using one two assms(5) by auto
qed

lemma mem_redis_answers: "\<exists>b q'. redis_CanRunTask mem_redis_ops zone n t q = (Inr b, q')"
  by (auto simp: redis_CanRunTask_def mem_redis_ops_def)

theorem redis_zones_run_twice_witness:
  "fst (redis_CanRunTask mem_redis_ops (\<lambda>s. 0) ''job'' 0
     (snd (redis_CanRunTask mem_redis_ops (\<lambda>s. 28800) ''job'' 0 mem_redis_empty))) = Inr True"
proof -
  let ?q1 = "snd (redis_CanRunTask mem_redis_ops (\<lambda>s. 28800) ''job'' 0 mem_redis_empty)"
  have one: "redis_CanRunTask mem_redis_ops (\<lambda>s. 28800) ''job'' 0 mem_redis_empty = (Inr True, ?q1)"
    by (simp add: redis_CanRunTask_def mem_redis_ops_def mem_redis_empty_def)
  obtain b q2 where two: "redis_CanRunTask mem_redis_ops (\<lambda>s. 0) ''job'' 0 ?q1 = (Inr b, q2)"
    using mem_redis_answers by blast
  have "b" by (rule redis_zones_run_twice[OF mem_redis.redis_server_axioms _ _ _ _ one two])
      (simp_all add: zone_ok_def mem_redis_empty_def)
  then show ?thesis using two by simp
qed

lemma store_pairs_even: "even (length kvs) \<Longrightarrow> \<exists>ts'. redis_store_pairs J kvs ts = Inr ts'"
  by (induction J kvs ts rule: redis_store_pairs.induct) auto

lemma scan_stuck:
  assumes "rd_HScan R redisKeyTasks 0 q = (Inr (kvs, cursor), q)" and "even (length kvs)" and "cursor \<noteq> 0"
  shows "redis_scan fuel R J ts q = None"
proof (induction fuel arbitrary: ts)
  case (Suc fuel)
  obtain ts' where "redis_store_pairs J kvs ts = Inr ts'" using store_pairs_even[OF assms(2)] by blast
  then show ?case using Suc assms by simp
qed simp

lemma store_all_other: "n \<notin> fst ` set kvs \<Longrightarrow> map_of (redis_store_all J kvs ts) n = map_of ts n"
  by (induction J kvs ts rule: redis_store_all.induct) (auto simp: alist_simps split: option.splits)

lemma store_all_reads:
  "(n, d) \<in> set kvs \<Longrightarrow> distinct (map fst kvs) \<Longrightarrow> js_unTaskMeta J d = Some tm \<Longrightarrow>
   map_of (redis_store_all J kvs ts) n = Some tm"
  by (induction J kvs ts rule: redis_store_all.induct) (auto simp: store_all_other alist_simps)

text \<open>
  C31. \<open>GetAllTasks\<close> returns exactly when the first page of the scan is the last one: the cursor that the
  server returns is dropped, so a hash that needs a second page is scanned from its beginning for
  ever. When it returns, every task of the hash that can be read is in the result.
\<close>

theorem redis_GetAllTasks_returns_iff:
  assumes "rd_HScan R redisKeyTasks 0 q = (Inr (kvs, cursor), q)" and "even (length kvs)"
    and "rd_HGetAll R redisKeyTasks q = (Inr pairs, q)" and "distinct (map fst pairs)"
  shows "((\<exists>fuel. redis_GetAllTasks fuel R J q \<noteq> None) \<longleftrightarrow> cursor = 0) \<and>
    (cursor = 0 \<longrightarrow> (\<exists>tasks. redis_GetAllTasks 1 R J q = Some (Inr (Inr tasks, q)) \<and>
       (\<forall>n d tm. (n, d) \<in> set pairs \<longrightarrow> js_unTaskMeta J d = Some tm \<longrightarrow> map_of tasks n = Some tm)))"
proof (cases "cursor = 0")
  case True
  obtain ts where "redis_store_pairs J kvs [] = Inr ts" using store_pairs_even[OF assms(2)] by blast
  then have "redis_GetAllTasks 1 R J q = Some (Inr (Inr (redis_store_all J pairs ts), q))"
    using assms(1,3) True by (simp add: redis_GetAllTasks_def numeral_nat)
  then show ?thesis using True store_all_reads[OF _ assms(4)] by (intro conjI) (metis option.simps(3), blast)
next
  case False
  then show ?thesis using scan_stuck[OF assms(1,2)] by (simp add: redis_GetAllTasks_def)
qed

definition mem_redis_many :: mem_redis where
  "mem_redis_many = mem_redis_empty\<lparr>rq_hash := (\<lambda>k. [])(redisKeyTasks := map (\<lambda>i. (decimal i, [])) [0..<600])\<rparr>"

theorem redis_GetAllTasks_returns_iff_witness:
  "\<forall>fuel. redis_GetAllTasks fuel mem_redis_ops text_codec mem_redis_many = None"
proof -
  let ?ps = "map (\<lambda>i. (decimal i, [])) [0..<600] :: (string \<times> string) list"
  have h: "rq_hash mem_redis_many redisKeyTasks = ?ps" by (simp add: mem_redis_many_def)
  have scan: "rd_HScan mem_redis_ops redisKeyTasks 0 mem_redis_many =
      (Inr (concat (map (\<lambda>(f, v). [f, v]) ?ps), 1), mem_redis_many)"
    by (simp add: mem_redis_ops_def h)
  have even: "even (length (concat (map (\<lambda>(f, v). [f, v]) xs)))" for xs :: "(string \<times> string) list"
    by (induction xs) auto
  have all: "rd_HGetAll mem_redis_ops redisKeyTasks mem_redis_many = (Inr ?ps, mem_redis_many)"
    by (simp add: mem_redis_ops_def h)
  have dist: "distinct (map fst ?ps)" by (simp add: comp_def distinct_map inj_on_def)
  show ?thesis using redis_GetAllTasks_returns_iff[OF scan even all dist] by simp
qed

text \<open>
  C32. Removing the mark of one task removes the marks of all tasks: after \<open>MarkTaskDeleted m\<close> and
  \<open>RemoveTaskDeleted n\<close> no name is marked deleted, whatever \<open>m\<close> and \<open>n\<close> are.
\<close>

theorem redis_remove_forgets_all_marks:
  assumes "redis_server R strs zset hash" and "redis_MarkTaskDeleted R m q = (None, q1)"
    and "redis_RemoveTaskDeleted R n q1 = (None, q2)"
    and "rd_HKeys R redisKeyDeletedTasks q1 = (Inr fs, q1')" and "rd_HKeys R redisKeyDeletedTasks q2 = (Inr gs, q2')"
  shows "m \<in> set (fst (redis_GetDeletedTaskNames R q1)) \<and> fst (redis_GetDeletedTaskNames R q2) = []"
proof -
  obtain q' where h: "rd_HSet R redisKeyDeletedTasks m [] q = (None, q')" and p: "rd_Publish R redisChannelDeletedTasks [] q' = (None, q1)"
    using assms(2) by (auto simp: redis_MarkTaskDeleted_def split: prod.splits option.splits)
  have "hash q1 redisKeyDeletedTasks = (hash q redisKeyDeletedTasks)(m \<mapsto> [])"
    using redis_server.hset[OF assms(1) h] redis_server.publish_hash[OF assms(1), of redisChannelDeletedTasks "[]" q'] p by simp
  then have "m \<in> set fs" using redis_server.hkeys[OF assms(1,4)] by simp
  moreover have "gs = []"
    using redis_server.del_hash[OF assms(1), of "[redisKeyDeletedTasks]" q1 q2] redis_server.hkeys[OF assms(1,5)] assms(3)
    by (simp add: redis_RemoveTaskDeleted_def)
  ultimately show ?thesis using assms(4,5) by (simp add: redis_GetDeletedTaskNames_def)
qed

theorem redis_remove_forgets_all_marks_witness:
  "fst (redis_GetDeletedTaskNames mem_redis_ops
     (snd (redis_RemoveTaskDeleted mem_redis_ops ''b'' (snd (redis_MarkTaskDeleted mem_redis_ops ''a'' mem_redis_empty))))) = []"
proof -
  let ?q1 = "snd (redis_MarkTaskDeleted mem_redis_ops ''a'' mem_redis_empty)"
  let ?q2 = "snd (redis_RemoveTaskDeleted mem_redis_ops ''b'' ?q1)"
  have e: "redis_MarkTaskDeleted mem_redis_ops ''a'' mem_redis_empty = (None, ?q1)"
      "redis_RemoveTaskDeleted mem_redis_ops ''b'' ?q1 = (None, ?q2)"
    by (simp_all add: redis_MarkTaskDeleted_def redis_RemoveTaskDeleted_def mem_redis_ops_def)
  have k: "rd_HKeys mem_redis_ops redisKeyDeletedTasks q = (Inr (map fst (rq_hash q redisKeyDeletedTasks)), q)" for q
    by (simp add: mem_redis_ops_def)
  show ?thesis using redis_remove_forgets_all_marks[OF mem_redis.redis_server_axioms e k k] by blast
qed

text \<open>
  The list of nodes: when every node ID has at most one text, an update that reports success
  replaces the text of that node and leaves the other nodes, and the list still has at most one
  text per ID.
\<close>

definition one_text :: "json_codec \<Rightarrow> string set \<Rightarrow> bool" where
  "one_text J ds \<longleftrightarrow> (\<forall>d \<in> ds. \<forall>d' \<in> ds. \<forall>n n'. js_unNode J d = Some n \<longrightarrow> js_unNode J d' = Some n' \<longrightarrow> ID n = ID n' \<longrightarrow> d = d')"

definition nodes_of :: "json_codec \<Rightarrow> string set \<Rightarrow> Node set" where
  "nodes_of J ds = {n. \<exists>d \<in> ds. js_unNode J d = Some n}"

lemma one_text_replace:
  assumes "one_text J ds" and "d \<in> ds" and "js_unNode J d = Some n" and "js_unNode J d2 = Some n2" and "ID n2 = ID n"
  shows "one_text J (insert d2 (ds - {d}))" and "nodes_of J (insert d2 (ds - {d})) = insert n2 {m \<in> nodes_of J ds. ID m \<noteq> ID n}"
proof -
  have other: "e \<in> ds - {d} \<Longrightarrow> js_unNode J e = Some m \<Longrightarrow> ID m \<noteq> ID n" for e m
    using assms(1-3) unfolding one_text_def by blast
  show "one_text J (insert d2 (ds - {d}))"
    using assms(1,4,5) other unfolding one_text_def by (metis DiffD1 insert_iff option.inject)
  show "nodes_of J (insert d2 (ds - {d})) = insert n2 {m \<in> nodes_of J ds. ID m \<noteq> ID n}"
    using assms(3,4) other unfolding nodes_of_def by (auto; metis DiffI option.inject singletonD)
qed

theorem redis_update_replaces_node:
  assumes "redis_server R strs zset hash" and "json_texts J" and "one_text J (dom (zset q redisKeyNodes))"
    and "\<forall>n. ID (f n) = ID n" and "redis_updateNodeField R J nodeID f q = (None, q')"
  shows "one_text J (dom (zset q' redisKeyNodes)) \<and>
    (\<exists>n \<in> nodes_of J (dom (zset q redisKeyNodes)). ID n = nodeID \<and>
       nodes_of J (dom (zset q' redisKeyNodes)) =
         insert (f n) {m \<in> nodes_of J (dom (zset q redisKeyNodes)). ID m \<noteq> nodeID})"
proof -
  obtain d n q2 d2 where d: "redis_server.redis_node_texts zset J q d n" "ID n = nodeID" "js_Node J (f n) = Inr d2"
    "zset q' = (zset q)(redisKeyNodes := ((zset q redisKeyNodes)(d := None))(d2 \<mapsto> go_float64 (rd_Now R q2)))"
    using redis_server.update_steps[OF assms(1,5)] by metis
  then have t: "d \<in> dom (zset q redisKeyNodes)" "js_unNode J d = Some n"
    by (simp_all add: redis_server.redis_node_texts_def[OF assms(1)])
  have "dom (zset q' redisKeyNodes) = insert d2 (dom (zset q redisKeyNodes) - {d})" using d(4) by simp
  moreover note one_text_replace[OF assms(3) t json_texts.unNode[OF assms(2) d(3)]]
  ultimately show ?thesis using assms(4) d(2) t by (auto simp: nodes_of_def)
qed

definition demo_node :: Node where
  "demo_node = \<lparr>ID = ''n1'', IP = ''10.0.0.1'', Hostname = [], LastAlive = 0, CreateTime = 0,
     Status = NodeStatusStarting, Weight = 1\<rparr>"

theorem redis_update_replaces_node_witness:
  "\<exists>q q'. redis_Register mem_redis_ops text_codec demo_node mem_redis_empty = (None, q) \<and>
     redis_UpdateStatus mem_redis_ops text_codec ''n1'' NodeStatusWorking q = (None, q') \<and>
     nodes_of text_codec (dom (map_of (rq_zset q' redisKeyNodes))) = {demo_node\<lparr>Status := NodeStatusWorking\<rparr>}"
proof -
  let ?d = "mark_fields (node_fields demo_node)"
  let ?q = "mem_redis_empty\<lparr>rq_zset := (\<lambda>k. [])(redisKeyNodes := [(?d, go_float64 (rq_now mem_redis_empty))])\<rparr>"
  have js: "js_Node text_codec n = Inr (mark_fields (node_fields n))" for n by (simp add: text_codec_def)
  note rd = text_codec.unNode[OF js[of demo_node]]
  have reg: "redis_Register mem_redis_ops text_codec demo_node mem_redis_empty = (None, ?q)"
    by (simp add: redis_Register_def redis_publishNodeEvent_def js mem_redis_ops_def mem_redis_empty_def)
      (simp add: text_codec_def)
  have dom: "dom (map_of (rq_zset ?q redisKeyNodes)) = {?d}" by simp
  obtain q' where upd: "redis_UpdateStatus mem_redis_ops text_codec ''n1'' NodeStatusWorking ?q = (None, q')"
    using rd by (simp add: redis_UpdateStatus_def redis_updateNodeField_def redis_getNodesData_def
        redis_publishNodeEvent_def js mem_redis_ops_def demo_node_def) (simp add: text_codec_def)
  have one: "one_text text_codec (dom (map_of (rq_zset ?q redisKeyNodes)))"
    unfolding dom by (simp add: one_text_def)
  have nodes: "nodes_of text_codec (dom (map_of (rq_zset ?q redisKeyNodes))) = {demo_node}"
    unfolding dom using rd by (auto simp: nodes_of_def)
  have "nodes_of text_codec (dom (map_of (rq_zset q' redisKeyNodes))) =
      insert (demo_node\<lparr>Status := NodeStatusWorking\<rparr>) {m \<in> {demo_node}. ID m \<noteq> ''n1''}"
    using redis_update_replaces_node[OF mem_redis.redis_server_axioms text_codec.json_texts_axioms one _
        upd[unfolded redis_UpdateStatus_def]] unfolding nodes by simp
  moreover have "ID demo_node = ''n1''" by (simp add: demo_node_def)
  ultimately have "nodes_of text_codec (dom (map_of (rq_zset q' redisKeyNodes))) = {demo_node\<lparr>Status := NodeStatusWorking\<rparr>}"
    by auto
  with reg upd show ?thesis by blast
qed

text \<open>
  The update is not atomic: when the new text cannot be added after the old one was removed, the node
  is out of the list, and the error is all that is left of it.
\<close>

lemma redis_update_can_lose_node:
  assumes "redis_server R strs zset hash" and "rd_ZRange R redisKeyNodes q = (Inr ds, q1)"
    and "redis_find J nodeID ds = Some (d, n)" and "rd_ZRem R redisKeyNodes d q1 = (None, q2)"
    and "js_Node J (f n) = Inr d2" and "rd_ZAdd R redisKeyNodes (go_float64 (rd_Now R q2)) d2 q2 = (Some e, q2)"
  shows "redis_updateNodeField R J nodeID f q = (Some e, q2) \<and> d \<notin> dom (zset q2 redisKeyNodes)"
  using assms(2-6) redis_server.zrem[OF assms(1,4)]
  by (simp add: redis_updateNodeField_def redis_getNodesData_def)

end
