(* ===== verification/Etcd_Registry.thy ===== *)
theory Etcd_Registry
  imports Backend
begin

text \<open>
  The etcd back end, \<open>src/etcd.go\<close>. The client is the parameter \<open>etcd_ops\<close>: the calls the code makes,
  on the state \<open>'s\<close> of the server. The state of the back end is the struct of the process with its
  lease and event cleaner, and the server. What the code relies on is the locale \<open>etcd_server\<close>;
  \<open>mem_etcd_ops\<close> is a server in memory that has its laws.
\<close>

section \<open>The client\<close>

datatype etcd_op = OpPut string string | OpDelete string

text \<open>
  \<open>et_Put k v l\<close> attaches the key to the lease \<open>l\<close>, or to none. \<open>et_Txn c ops\<close> runs the operations if \<open>c\<close> is
  \<open>None\<close> or a key that does not exist. \<open>et_STM\<close> is \<open>concurrency.NewSTM\<close>: the function reads keys
  (the empty text when there is none) and gives an error or the writes to commit.
\<close>

record 's etcd_ops =
  et_Now :: "'s \<Rightarrow> time"
  et_Grant :: "int \<Rightarrow> 's \<Rightarrow> (error + int) \<times> 's"
  et_KeepAlive :: "int \<Rightarrow> 's \<Rightarrow> error option \<times> 's"
  et_Revoke :: "int \<Rightarrow> 's \<Rightarrow> error option \<times> 's"
  et_Put :: "string \<Rightarrow> string \<Rightarrow> int option \<Rightarrow> 's \<Rightarrow> error option \<times> 's"
  et_GetPrefix :: "string \<Rightarrow> 's \<Rightarrow> (error + (string \<times> string) list) \<times> 's"
  et_Delete :: "string \<Rightarrow> 's \<Rightarrow> error option \<times> 's"
  et_DeletePrefix :: "string \<Rightarrow> 's \<Rightarrow> error option \<times> 's"
  et_DeleteRange :: "string \<Rightarrow> string \<Rightarrow> 's \<Rightarrow> error option \<times> 's"
  et_Txn :: "string option \<Rightarrow> etcd_op list \<Rightarrow> 's \<Rightarrow> (error + bool) \<times> 's"
  et_STM :: "((string \<Rightarrow> string) \<Rightarrow> error + (string \<times> string) list) \<Rightarrow> 's \<Rightarrow> error option \<times> 's"

datatype etcd_event = EtcdPut string string | EtcdDelete string

definition etcdNodePrefix :: string where "etcdNodePrefix = ''/distributed_cron/nodes/''"
definition etcdTaskPrefix :: string where "etcdTaskPrefix = ''/distributed_cron/tasks/''"
definition etcdDeletedTaskPrefix :: string where "etcdDeletedTaskPrefix = ''/distributed_cron/deleted_tasks/''"
definition etcdTaskLastExecPrefix :: string where "etcdTaskLastExecPrefix = ''/distributed_cron/last_exec/''"
definition etcdLeaseTTL :: int where "etcdLeaseTTL = 15"

lemmas etcd_prefixes = etcdNodePrefix_def etcdTaskPrefix_def etcdDeletedTaskPrefix_def etcdTaskLastExecPrefix_def

record etcdRegistry =
  er_lease :: int
  er_cleaner :: "EventCleaner option"

definition NewEtcdRegistry :: etcdRegistry where
  "NewEtcdRegistry = \<lparr>er_lease = 0, er_cleaner = None\<rparr>"

type_synonym 's etcd_state = "etcdRegistry \<times> 's"

section \<open>Nodes\<close>

text \<open>\<open>handler\<close> is what \<open>batchDeleteExecKeys\<close> answers to the cleaner.\<close>

definition etcd_Register ::
  "'s etcd_ops \<Rightarrow> json_codec \<Rightarrow> EventHandler \<Rightarrow> Node \<Rightarrow> 's etcd_state \<Rightarrow> error option \<times> 's etcd_state" where
  "etcd_Register E J handler node = (\<lambda>(r, s).
     case et_Grant E etcdLeaseTTL s of
       (Inl err, s) \<Rightarrow> (Some err, r, s)
     | (Inr leaseID, s) \<Rightarrow>
         let r = r\<lparr>er_lease := leaseID\<rparr> in
         case js_Node J node of
           Inl err \<Rightarrow> (Some err, r, s)
         | Inr data \<Rightarrow>
             (case et_Put E (path_Join etcdNodePrefix (ID node)) data (Some (er_lease r)) s of
                (Some err, s) \<Rightarrow> (Some err, r, s)
              | (None, s) \<Rightarrow>
                  (case et_KeepAlive E (er_lease r) s of
                     (Some err, s) \<Rightarrow> (Some err, r, s)
                   | (None, s) \<Rightarrow> (None, r\<lparr>er_cleaner := Some (registry_cleaner handler)\<rparr>, s))))"

definition etcd_Unregister :: "'s etcd_ops \<Rightarrow> string \<Rightarrow> 's etcd_state \<Rightarrow> error option \<times> 's etcd_state" where
  "etcd_Unregister E nodeID = (\<lambda>(r, s).
     case et_Delete E (path_Join etcdNodePrefix nodeID) s of (_, s) \<Rightarrow>
     case et_Revoke E (er_lease r) s of (err, s) \<Rightarrow> (err, r, s))"

definition etcd_updateNodeField ::
  "'s etcd_ops \<Rightarrow> json_codec \<Rightarrow> string \<Rightarrow> (Node \<Rightarrow> Node) \<Rightarrow> 's etcd_state \<Rightarrow> error option \<times> 's etcd_state" where
  "etcd_updateNodeField E J nodeID updateFn = (\<lambda>(r, s).
     let key = path_Join etcdNodePrefix nodeID in
     case et_STM E (\<lambda>get.
            let value = get key in
            if value = [] then Inl ErrNodeNotFound
            else case js_unNode J value of
                   None \<Rightarrow> Inl (ErrBackend ''json'')
                 | Some node \<Rightarrow> (case js_Node J (updateFn node) of
                     Inl err \<Rightarrow> Inl err
                   | Inr newData \<Rightarrow> Inr [(key, newData)])) s of
       (err, s) \<Rightarrow> (err, r, s))"

definition etcd_UpdateStatus ::
  "'s etcd_ops \<Rightarrow> json_codec \<Rightarrow> string \<Rightarrow> NodeStatus \<Rightarrow> 's etcd_state \<Rightarrow> error option \<times> 's etcd_state" where
  "etcd_UpdateStatus E J nodeID status = etcd_updateNodeField E J nodeID (\<lambda>node. node\<lparr>Status := status\<rparr>)"

definition etcd_UpdateHeartbeat ::
  "'s etcd_ops \<Rightarrow> json_codec \<Rightarrow> string \<Rightarrow> time \<Rightarrow> 's etcd_state \<Rightarrow> error option \<times> 's etcd_state" where
  "etcd_UpdateHeartbeat E J nodeID now = etcd_updateNodeField E J nodeID (\<lambda>node. node\<lparr>LastAlive := now\<rparr>)"

definition etcd_GetNodes ::
  "'s etcd_ops \<Rightarrow> json_codec \<Rightarrow> 's etcd_state \<Rightarrow> (error + Node list) \<times> 's etcd_state" where
  "etcd_GetNodes E J = (\<lambda>(r, s).
     case et_GetPrefix E etcdNodePrefix s of
       (Inl err, s) \<Rightarrow> (Inl err, r, s)
     | (Inr kvs, s) \<Rightarrow> (Inr (List.map_filter (\<lambda>(key, value). js_unNode J value) kvs), r, s))"

definition etcd_GetWorkingNodes ::
  "'s etcd_ops \<Rightarrow> json_codec \<Rightarrow> 's etcd_state \<Rightarrow> (error + Node list) \<times> 's etcd_state" where
  "etcd_GetWorkingNodes E J g =
     (case etcd_GetNodes E J g of
        (Inl err, g) \<Rightarrow> (Inl err, g)
      | (Inr nodes, g) \<Rightarrow> (Inr (filter (\<lambda>node. Status node = NodeStatusWorking) nodes), g))"

text \<open>The watcher's goroutine: the events it sends for the responses of the watch.\<close>

definition etcd_node_event :: "json_codec \<Rightarrow> etcd_event \<Rightarrow> NodeEvent option" where
  "etcd_node_event J ev =
     (case ev of
        EtcdPut key value \<Rightarrow> map_option (\<lambda>node. \<lparr>NE_Type = NodeEventTypePut, NE_Node = node\<rparr>) (js_unNode J value)
      | EtcdDelete key \<Rightarrow> Some \<lparr>NE_Type = NodeEventTypeDelete, NE_Node = zero_node\<lparr>ID := path_Base key\<rparr>\<rparr>)"

definition etcd_WatchNodes :: "json_codec \<Rightarrow> etcd_event list list \<Rightarrow> NodeEvent list" where
  "etcd_WatchNodes J resps =
     \<lparr>NE_Type = NodeEventTypeChanged, NE_Node = zero_node\<rparr> # concat (map (List.map_filter (etcd_node_event J)) resps)"

definition etcd_CleanupExpiredNodes :: "duration \<Rightarrow> time \<Rightarrow> 's etcd_state \<Rightarrow> error option \<times> 's etcd_state" where
  "etcd_CleanupExpiredNodes timeout now g = (None, g)"

section \<open>Tasks\<close>

definition etcd_PutTask ::
  "'s etcd_ops \<Rightarrow> json_codec \<Rightarrow> TaskMeta \<Rightarrow> 's etcd_state \<Rightarrow> error option \<times> 's etcd_state" where
  "etcd_PutTask E J task = (\<lambda>(r, s).
     case js_TaskMeta J task of
       Inl err \<Rightarrow> (Some err, r, s)
     | Inr data \<Rightarrow> (case et_Put E (path_Join etcdTaskPrefix (Name task)) data None s of (err, s) \<Rightarrow> (err, r, s)))"

fun etcd_store_tasks :: "json_codec \<Rightarrow> (string \<times> string) list \<Rightarrow> (string \<times> TaskMeta) list \<Rightarrow> (string \<times> TaskMeta) list" where
  "etcd_store_tasks J [] tasks = tasks"
| "etcd_store_tasks J ((key, value) # kvs) tasks =
     etcd_store_tasks J kvs (case js_unTaskMeta J value of
       None \<Rightarrow> tasks | Some task \<Rightarrow> AList.update (Name task) task tasks)"

definition etcd_GetAllTasks ::
  "'s etcd_ops \<Rightarrow> json_codec \<Rightarrow> 's etcd_state \<Rightarrow> (error + (string \<times> TaskMeta) list) \<times> 's etcd_state" where
  "etcd_GetAllTasks E J = (\<lambda>(r, s).
     case et_GetPrefix E etcdTaskPrefix s of
       (Inl err, s) \<Rightarrow> (Inl err, r, s)
     | (Inr kvs, s) \<Rightarrow> (Inr (etcd_store_tasks J kvs []), r, s))"

definition etcd_task_event :: "json_codec \<Rightarrow> etcd_event \<Rightarrow> TaskMetaEvent option" where
  "etcd_task_event J ev =
     (case ev of
        EtcdPut key value \<Rightarrow> map_option (\<lambda>task. \<lparr>TE_Type = TaskEventTypePut, TE_Task = task\<rparr>) (js_unTaskMeta J value)
      | EtcdDelete key \<Rightarrow>
          Some \<lparr>TE_Type = TaskEventTypeDelete, TE_Task = zero_task\<lparr>Name := TrimPrefix key etcdTaskPrefix\<rparr>\<rparr>)"

text \<open>The events sent for the tasks there are at first, then for the responses of the watch.\<close>

definition etcd_WatchTaskEvent ::
  "'s etcd_ops \<Rightarrow> json_codec \<Rightarrow> etcd_event list list \<Rightarrow> 's etcd_state \<Rightarrow> (error + TaskMetaEvent list) \<times> 's etcd_state" where
  "etcd_WatchTaskEvent E J resps = (\<lambda>(r, s).
     case et_GetPrefix E etcdTaskPrefix s of
       (Inl err, s) \<Rightarrow> (Inl err, r, s)
     | (Inr kvs, s) \<Rightarrow>
         (Inr (List.map_filter (etcd_task_event J) (map (\<lambda>(key, value). EtcdPut key value) kvs) @
               concat (map (List.map_filter (etcd_task_event J)) resps)), r, s))"

definition etcd_MarkTaskDeleted :: "'s etcd_ops \<Rightarrow> string \<Rightarrow> 's etcd_state \<Rightarrow> error option \<times> 's etcd_state" where
  "etcd_MarkTaskDeleted E taskName = (\<lambda>(r, s).
     case et_Put E (path_Join etcdDeletedTaskPrefix taskName) [] None s of
       (Some err, s) \<Rightarrow> (Some (ErrWrapped taskName err), r, s)
     | (None, s) \<Rightarrow> (None, r, s))"

definition etcd_GetDeletedTaskNames :: "'s etcd_ops \<Rightarrow> 's etcd_state \<Rightarrow> string list \<times> 's etcd_state" where
  "etcd_GetDeletedTaskNames E = (\<lambda>(r, s).
     case et_GetPrefix E etcdDeletedTaskPrefix s of
       (Inl err, s) \<Rightarrow> ([], r, s)
     | (Inr kvs, s) \<Rightarrow> (map (\<lambda>(key, value). TrimPrefix key etcdDeletedTaskPrefix) kvs, r, s))"

text \<open>The number of signals the watcher of deleted tasks sends; a response is the flag \<open>Canceled\<close> with
  the events.\<close>

fun etcd_deleted_signals :: "(bool \<times> etcd_event list) list \<Rightarrow> nat" where
  "etcd_deleted_signals [] = 0"
| "etcd_deleted_signals ((canceled, events) # resps) =
     (if canceled then 0
      else (if length events > 0 then 1 else 0) + etcd_deleted_signals resps)"

definition etcd_WatchDeletedTaskEvent :: "(bool \<times> etcd_event list) list \<Rightarrow> nat" where
  "etcd_WatchDeletedTaskEvent resps = 1 + etcd_deleted_signals resps"

section \<open>The execution lock\<close>

definition etcd_lock_key :: "string \<Rightarrow> time \<Rightarrow> string" where
  "etcd_lock_key taskName execTime =
     etcdTaskLastExecPrefix @ Sprintf_d (unix_second execTime) @ ''-'' @ taskName"

text \<open>A nil cleaner (before \<open>Register\<close>) makes the call panic, after the key was created.\<close>

definition etcd_CanRunTask ::
  "'s etcd_ops \<Rightarrow> select_choice \<Rightarrow> string \<Rightarrow> time \<Rightarrow> 's etcd_state \<Rightarrow> (error + bool) go \<times> 's etcd_state" where
  "etcd_CanRunTask E ch taskName execTime = (\<lambda>(r, s).
     let key = etcd_lock_key taskName execTime in
     case et_Txn E (Some key) [OpPut key []] s of
       (Inl err, s) \<Rightarrow> (Inr (Inl (ErrWrapped taskName err)), r, s)
     | (Inr False, s) \<Rightarrow> (Inr (Inr False), r, s)
     | (Inr True, s) \<Rightarrow>
         (case er_cleaner r of
            None \<Rightarrow> (Inl NilDeref, r, s)
          | Some cleaner \<Rightarrow>
              (case send_event ch \<lparr>Key = key, Time = execTime\<rparr> cleaner of
                 (err, cleaner) \<Rightarrow> (Inr (Inr True), r\<lparr>er_cleaner := Some cleaner\<rparr>, s))))"

definition etcd_batchDeleteExecKeys :: "'s etcd_ops \<Rightarrow> string list \<Rightarrow> 's \<Rightarrow> error option \<times> 's" where
  "etcd_batchDeleteExecKeys E keys s =
     (case et_Txn E None (map OpDelete keys) s of
        (Inl err, s) \<Rightarrow> (Some (ErrWrapped [] err), s)
      | (Inr _, s) \<Rightarrow> (None, s))"

definition etcd_year :: duration where
  "etcd_year = 365 * 24 * 60 * Minute"

definition etcd_tryCleanupHistoryExecKeys :: "'s etcd_ops \<Rightarrow> 's \<Rightarrow> error option \<times> 's" where
  "etcd_tryCleanupHistoryExecKeys E s =
     (let startKey = etcdTaskLastExecPrefix @ Sprintf_d (unix_second (et_Now E s - etcd_year));
          endKey = etcdTaskLastExecPrefix @ Sprintf_d (unix_second (et_Now E s - CleanupHistoryExecKeysThresholdDuration))
      in case et_DeleteRange E startKey endKey s of
           (Some err, s) \<Rightarrow> (Some (ErrWrapped [] err), s)
         | (None, s) \<Rightarrow> (None, s))"

text \<open>The cleanup at the start and on every tick; \<open>env\<close> is what happens to the server before a tick.\<close>

fun etcd_cleanupHistoryExecKeys :: "'s etcd_ops \<Rightarrow> ('s \<Rightarrow> 's) list \<Rightarrow> 's \<Rightarrow> 's" where
  "etcd_cleanupHistoryExecKeys E [] s = snd (etcd_tryCleanupHistoryExecKeys E s)"
| "etcd_cleanupHistoryExecKeys E (env # ticks) s =
     etcd_cleanupHistoryExecKeys E ticks (env (snd (etcd_tryCleanupHistoryExecKeys E s)))"

section \<open>Cleaning up\<close>

definition etcd_ForceCleanupTask :: "'s etcd_ops \<Rightarrow> string \<Rightarrow> 's etcd_state \<Rightarrow> error option \<times> 's etcd_state" where
  "etcd_ForceCleanupTask E taskName = (\<lambda>(r, s).
     case et_Txn E None [OpDelete (path_Join etcdTaskPrefix taskName),
            OpDelete (path_Join etcdDeletedTaskPrefix taskName), OpDelete (etcdTaskLastExecPrefix @ taskName)] s of
       (Inl err, s) \<Rightarrow> (Some err, r, s)
     | (Inr _, s) \<Rightarrow> (None, r, s))"

definition etcd_ForceCleanupAllTasks :: "'s etcd_ops \<Rightarrow> 's etcd_state \<Rightarrow> error option \<times> 's etcd_state" where
  "etcd_ForceCleanupAllTasks E = (\<lambda>(r, s).
     case et_DeletePrefix E etcdTaskPrefix s of
       (Some err, s) \<Rightarrow> (Some err, r, s)
     | (None, s) \<Rightarrow>
         (case et_DeletePrefix E etcdDeletedTaskPrefix s of
            (Some err, s) \<Rightarrow> (Some err, r, s)
          | (None, s) \<Rightarrow>
              (case et_DeletePrefix E etcdTaskLastExecPrefix s of
                 (Some err, s) \<Rightarrow> (Some err, r, s)
               | (None, s) \<Rightarrow> (None, r, s))))"

definition etcd_RemoveTaskDeleted :: "'s etcd_ops \<Rightarrow> string \<Rightarrow> 's etcd_state \<Rightarrow> error option \<times> 's etcd_state" where
  "etcd_RemoveTaskDeleted E taskName = (\<lambda>(r, s).
     case et_Delete E (path_Join etcdDeletedTaskPrefix taskName) s of
       (Some err, s) \<Rightarrow> (Some err, r, s)
     | (None, s) \<Rightarrow> (None, r, s))"

text \<open>The back end behind the interface.\<close>

definition etcd_registry :: "'s etcd_ops \<Rightarrow> json_codec \<Rightarrow> EventHandler \<Rightarrow> select_choice \<Rightarrow> 's etcd_state registry_ops" where
  "etcd_registry E J handler ch = \<lparr>
     reg_Register = etcd_Register E J handler, reg_Unregister = etcd_Unregister E,
     reg_UpdateStatus = etcd_UpdateStatus E J, reg_UpdateHeartbeat = etcd_UpdateHeartbeat E J,
     reg_GetNodes = etcd_GetNodes E J, reg_GetWorkingNodes = etcd_GetWorkingNodes E J,
     reg_CleanupExpiredNodes = etcd_CleanupExpiredNodes, reg_PutTask = etcd_PutTask E J,
     reg_MarkTaskDeleted = etcd_MarkTaskDeleted E, reg_RemoveTaskDeleted = etcd_RemoveTaskDeleted E,
     reg_ForceCleanupTask = etcd_ForceCleanupTask E, reg_GetAllTasks = etcd_GetAllTasks E J,
     reg_GetDeletedTaskNames = etcd_GetDeletedTaskNames E,
     reg_ForceCleanupAllTasks = etcd_ForceCleanupAllTasks E,
     reg_CanRunTask = (\<lambda>n t. recovered (etcd_CanRunTask E ch n t))\<rparr>"

section \<open>What the code relies on\<close>

text \<open>
  \<open>kv s\<close>: the keys with their values; \<open>lease_of s\<close>: the lease of a key. A call without error has its
  documented effect; a write with an error has it or has none. A put without a lease detaches the
  key from the lease it had. \<open>expire l s\<close> is the server after the lease \<open>l\<close> has run out.
\<close>

definition kv_get :: "(string \<rightharpoonup> string) \<Rightarrow> string \<Rightarrow> string" where
  "kv_get m k = (case m k of None \<Rightarrow> [] | Some v \<Rightarrow> v)"

locale etcd_server =
  fixes E :: "'s etcd_ops" and kv :: "'s \<Rightarrow> (string \<rightharpoonup> string)" and lease_of :: "'s \<Rightarrow> string \<Rightarrow> int option"
    and expire :: "int \<Rightarrow> 's \<Rightarrow> 's"
  assumes put: "et_Put E k v att s = (None, s') \<Longrightarrow> kv s' = (kv s)(k \<mapsto> v) \<and> lease_of s' = (lease_of s)(k := att)"
    and put_err: "et_Put E k v att s = (Some e, s') \<Longrightarrow> kv s' = kv s \<or> kv s' = (kv s)(k \<mapsto> v)"
    and txn_create: "et_Txn E (Some k) [OpPut k v] s = (Inr b, s') \<Longrightarrow>
      b = (kv s k = None) \<and> kv s' = (if b then (kv s)(k \<mapsto> v) else kv s)"
    and txn_create_err: "et_Txn E (Some k) [OpPut k v] s = (Inl e, s') \<Longrightarrow> kv s' = kv s \<or> kv s' = (kv s)(k \<mapsto> v) \<and> kv s k = None"
    and txn_delete: "et_Txn E None (map OpDelete ks) s = (Inr b, s') \<Longrightarrow> kv s' = kv s |` (- set ks)"
    and txn_delete_err: "et_Txn E None (map OpDelete ks) s = (Inl e, s') \<Longrightarrow> kv s' = kv s \<or> kv s' = kv s |` (- set ks)"
    and get_prefix: "et_GetPrefix E p s = (Inr kvs, s') \<Longrightarrow>
      set kvs = {(k, v). kv s k = Some v \<and> HasPrefix k p} \<and> distinct (map fst kvs) \<and> kv s' = kv s"
    and delete: "et_Delete E k s = (None, s') \<Longrightarrow> kv s' = (kv s)(k := None)"
    and delete_range: "et_DeleteRange E lo hi s = (None, s') \<Longrightarrow> kv s' = kv s |` {k. \<not> (lo \<le> k \<and> k < hi)}"
    and stm: "et_STM E f s = (None, s') \<Longrightarrow> f (kv_get (kv s)) = Inr [(k, v)] \<Longrightarrow>
      kv s' = (kv s)(k \<mapsto> v) \<and> lease_of s' = (lease_of s)(k := None)"
    and stm_refused: "f (kv_get (kv s)) = Inl e \<Longrightarrow> et_STM E f s = (None, s') \<Longrightarrow> False"
    and keepalive: "et_KeepAlive E l s = (None, s') \<Longrightarrow> kv s' = kv s \<and> lease_of s' = lease_of s"
    and grant: "et_Grant E ttl s = (Inr l, s') \<Longrightarrow> kv s' = kv s"
    and expires: "kv (expire l s) = kv s |` {k. lease_of s k \<noteq> Some l}"

text \<open>The names for which the keys of a task are no lock keys.\<close>

definition etcd_name :: "string \<Rightarrow> bool" where
  "etcd_name n \<longleftrightarrow> path_name n \<and> \<not> is_digit (hd n) \<and> hd n \<noteq> CHR ''-''"

lemma etcd_join:
  assumes "path_name n"
  shows "path_Join etcdTaskPrefix n = etcdTaskPrefix @ n" and "path_Join etcdDeletedTaskPrefix n = etcdDeletedTaskPrefix @ n"
    and "path_Join etcdNodePrefix n = etcdNodePrefix @ n"
proof -
  have c: "path_Clean etcdTaskPrefix = ''/distributed_cron/tasks''"
    "path_Clean etcdDeletedTaskPrefix = ''/distributed_cron/deleted_tasks''"
    "path_Clean etcdNodePrefix = ''/distributed_cron/nodes''" by code_simp+
  show "path_Join etcdTaskPrefix n = etcdTaskPrefix @ n" "path_Join etcdDeletedTaskPrefix n = etcdDeletedTaskPrefix @ n"
    "path_Join etcdNodePrefix n = etcdNodePrefix @ n"
    using path_Join_name[OF assms c(1)[unfolded etcd_prefixes]] path_Join_name[OF assms c(2)[unfolded etcd_prefixes]]
      path_Join_name[OF assms c(3)[unfolded etcd_prefixes]] by (simp_all add: etcd_prefixes)
qed

interpretation etcd_keys: lock_keys etcd_lock_key etcd_name
proof
  fix n n' t t'
  show "etcd_lock_key n t = etcd_lock_key n' t' \<longleftrightarrow> n = n' \<and> unix_second t = unix_second t'"
    using Sprintf_d_inj_minus[of "unix_second t" n "unix_second t'" n'] by (auto simp: etcd_lock_key_def)
qed

lemma Sprintf_d_hd: "\<exists>c cs. Sprintf_d n = c # cs \<and> (is_digit c \<or> c = CHR ''-'')"
proof -
  have "decimal k \<noteq> []" for k by (subst decimal.simps) simp
  then have "\<exists>c cs. decimal k = c # cs \<and> is_digit c" for k
    using decimal_digits[of k] by (cases "decimal k") auto
  then show ?thesis unfolding Sprintf_d_def by (cases "n < 0") fastforce+
qed

lemma etcd_no_lock_key:
  assumes "etcd_name n"
  shows "etcd_lock_key m t \<notin> {path_Join etcdTaskPrefix n, path_Join etcdDeletedTaskPrefix n, etcdTaskLastExecPrefix @ n}"
proof -
  have n: "path_name n" using assms by (simp add: etcd_name_def)
  obtain c cs where "Sprintf_d (unix_second t) = c # cs" "is_digit c \<or> c = CHR ''-''" using Sprintf_d_hd by blast
  then have "etcd_lock_key m t \<noteq> etcdTaskLastExecPrefix @ n"
    using assms by (auto simp: etcd_lock_key_def etcd_name_def)
  then show ?thesis using etcd_join(1,2)[OF n] by (simp add: etcd_lock_key_def etcd_prefixes)
qed

context etcd_server
begin

lemma etcd_run_registry:
  "run_registry (etcd_registry E J handler ch) (\<lambda>g. etcd_keys.locks_in (dom (kv (snd g)))) unix_second etcd_name"
proof (rule etcd_keys.run_registryI)
  fix n t b and g g' :: "'s etcd_state"
  assume "reg_CanRunTask (etcd_registry E J handler ch) n t g = (Inr b, g')"
  then have "et_Txn E (Some (etcd_lock_key n t)) [OpPut (etcd_lock_key n t) []] (snd g) = (Inr b, snd g')"
    by (cases g) (auto simp: etcd_registry_def recovered_def etcd_CanRunTask_def Let_def
        split: prod.splits sum.splits bool.splits option.splits)
  from txn_create[OF this] show "b = (etcd_lock_key n t \<notin> dom (kv (snd g))) \<and>
      dom (kv (snd g')) = insert (etcd_lock_key n t) (dom (kv (snd g)))" by auto
next
  fix n t e and g g' :: "'s etcd_state"
  assume "reg_CanRunTask (etcd_registry E J handler ch) n t g = (Inl e, g')"
  then obtain r where r: "et_Txn E (Some (etcd_lock_key n t)) [OpPut (etcd_lock_key n t) []] (snd g) = (r, snd g')" "r \<noteq> Inr False"
    by (cases g) (auto simp: etcd_registry_def recovered_def etcd_CanRunTask_def Let_def
        split: prod.splits sum.splits bool.splits option.splits)
  show "dom (kv (snd g')) = dom (kv (snd g)) \<or> dom (kv (snd g')) = insert (etcd_lock_key n t) (dom (kv (snd g)))"
  proof (cases r)
    case (Inl e')
    then show ?thesis using txn_create_err r(1) by (metis dom_fun_upd option.distinct(1))
  next
    case (Inr b)
    then show ?thesis using txn_create r by (metis dom_fun_upd option.distinct(1))
  qed
next
  fix n and g :: "'s etcd_state" and m t
  assume k: "etcd_lock_key m t \<in> dom (kv (snd g))"
  let ?p = "et_Put E (path_Join etcdDeletedTaskPrefix n) [] None (snd g)"
  have "dom (kv (snd g)) \<subseteq> dom (kv (snd ?p))"
    using put[of "path_Join etcdDeletedTaskPrefix n" "[]" None "snd g"] put_err[of "path_Join etcdDeletedTaskPrefix n" "[]" None "snd g"]
    by (cases ?p; cases "fst ?p") auto
  moreover have "snd (snd (etcd_MarkTaskDeleted E n g)) = snd ?p"
    by (cases g) (auto simp: etcd_MarkTaskDeleted_def split: prod.splits option.splits)
  ultimately show "etcd_lock_key m t \<in> dom (kv (snd (snd (reg_MarkTaskDeleted (etcd_registry E J handler ch) n g))))"
    using k by (auto simp: etcd_registry_def)
next
  fix n and g :: "'s etcd_state" and m t
  assume n: "etcd_name n" and k: "etcd_lock_key m t \<in> dom (kv (snd g))"
  let ?ks = "[path_Join etcdTaskPrefix n, path_Join etcdDeletedTaskPrefix n, etcdTaskLastExecPrefix @ n]"
  let ?t = "et_Txn E None (map OpDelete ?ks) (snd g)"
  have "kv (snd ?t) = kv (snd g) \<or> kv (snd ?t) = kv (snd g) |` (- set ?ks)"
    using txn_delete[of ?ks "snd g"] txn_delete_err[of ?ks "snd g"] by (cases ?t; cases "fst ?t") auto
  moreover have "snd (snd (etcd_ForceCleanupTask E n g)) = snd ?t"
    by (cases g) (auto simp: etcd_ForceCleanupTask_def split: prod.splits sum.splits)
  ultimately show "etcd_lock_key m t \<in> dom (kv (snd (snd (reg_ForceCleanupTask (etcd_registry E J handler ch) n g))))"
    using k etcd_no_lock_key[OF n, of m t] by (auto simp: etcd_registry_def)
qed

end

section \<open>A server in memory\<close>

record mem_etcd =
  me_now :: time
  me_kv :: "(string \<times> (string \<times> int option)) list"
  me_leases :: int

definition me_del :: "(string \<Rightarrow> bool) \<Rightarrow> mem_etcd \<Rightarrow> mem_etcd" where
  "me_del P s = s\<lparr>me_kv := filter (\<lambda>(k, v). \<not> P k) (me_kv s)\<rparr>"

definition me_put :: "string \<Rightarrow> string \<Rightarrow> int option \<Rightarrow> mem_etcd \<Rightarrow> mem_etcd" where
  "me_put k v l s = s\<lparr>me_kv := AList.update k (v, l) (me_kv s)\<rparr>"

definition me_map :: "mem_etcd \<Rightarrow> string \<rightharpoonup> string" where
  "me_map s k = map_option fst (map_of (me_kv s) k)"

definition me_lease_of :: "mem_etcd \<Rightarrow> string \<Rightarrow> int option" where
  "me_lease_of s k = Option.bind (map_of (me_kv s) k) snd"

definition me_expire :: "int \<Rightarrow> mem_etcd \<Rightarrow> mem_etcd" where
  "me_expire l s = me_del (\<lambda>k. me_lease_of s k = Some l) s"

fun me_op :: "etcd_op \<Rightarrow> mem_etcd \<Rightarrow> mem_etcd" where
  "me_op (OpPut k v) s = me_put k v None s"
| "me_op (OpDelete k) s = me_del (\<lambda>x. x = k) s"

definition mem_etcd_ops :: "mem_etcd etcd_ops" where
  "mem_etcd_ops = \<lparr>
     et_Now = me_now,
     et_Grant = (\<lambda>ttl s. (Inr (me_leases s + 1), s\<lparr>me_leases := me_leases s + 1\<rparr>)),
     et_KeepAlive = (\<lambda>l s. (None, s)),
     et_Revoke = (\<lambda>l s. (None, me_expire l s)),
     et_Put = (\<lambda>k v l s. (None, me_put k v l s)),
     et_GetPrefix = (\<lambda>p s. (Inr (map (\<lambda>(k, v, l). (k, v)) (filter (\<lambda>(k, v). HasPrefix k p) (AList.clearjunk (me_kv s)))), s)),
     et_Delete = (\<lambda>k s. (None, me_del (\<lambda>x. x = k) s)),
     et_DeletePrefix = (\<lambda>p s. (None, me_del (\<lambda>x. HasPrefix x p) s)),
     et_DeleteRange = (\<lambda>lo hi s. (None, me_del (\<lambda>x. lo \<le> x \<and> x < hi) s)),
     et_Txn = (\<lambda>c ops s. if c = None \<or> me_map s (the c) = None then (Inr True, fold me_op ops s) else (Inr False, s)),
     et_STM = (\<lambda>f s. case f (kv_get (me_map s)) of
       Inl e \<Rightarrow> (Some e, s) | Inr ws \<Rightarrow> (None, fold (\<lambda>(k, v). me_put k v None) ws s))\<rparr>"

lemma map_of_filter_key: "map_of (filter (\<lambda>(k, v). P k) xs) k = (if P k then map_of xs k else None)"
  by (induction xs) auto

lemma me_map_simps [simp]:
  "me_map (me_put k v l s) = (me_map s)(k \<mapsto> v)" "me_map (me_del P s) = me_map s |` {k. \<not> P k}"
  "me_lease_of (me_put k v l s) = (me_lease_of s)(k := l)" "me_map (s\<lparr>me_leases := n\<rparr>) = me_map s"
  by (auto simp: me_map_def me_put_def me_del_def me_lease_of_def fun_eq_iff alist_simps restrict_map_def map_of_filter_key)

lemma me_delete_all: "me_map (fold me_op (map OpDelete ks) s) = me_map s |` (- set ks)"
  by (induction ks arbitrary: s) (auto simp: restrict_map_def fun_eq_iff)

lemma me_prefix:
  "set (map (\<lambda>(k, v, l). (k, v)) (filter (\<lambda>(k, v). HasPrefix k p) (AList.clearjunk (me_kv s)))) =
     {(k, v). me_map s k = Some v \<and> HasPrefix k p}"
  "distinct (map fst (map (\<lambda>(k, v, l). (k, v)) (filter (\<lambda>(k, v). HasPrefix k p) (AList.clearjunk (me_kv s)))))"
proof -
  have d: "distinct (map fst (AList.clearjunk (me_kv s)))" by (rule AList.distinct_clearjunk)
  then show "distinct (map fst (map (\<lambda>(k, v, l). (k, v)) (filter (\<lambda>(k, v). HasPrefix k p) (AList.clearjunk (me_kv s)))))"
    by (simp add: comp_def case_prod_beta distinct_map_filter)
  have "(k, v, l) \<in> set (AList.clearjunk (me_kv s)) \<longleftrightarrow> map_of (me_kv s) k = Some (v, l)" for k v l
    using map_of_eq_Some_iff[OF d, of k "(v, l)"] by (simp add: AList.map_of_clearjunk)
  then show "set (map (\<lambda>(k, v, l). (k, v)) (filter (\<lambda>(k, v). HasPrefix k p) (AList.clearjunk (me_kv s)))) =
     {(k, v). me_map s k = Some v \<and> HasPrefix k p}"
    by (auto simp: me_map_def image_iff)
qed

interpretation mem_etcd: etcd_server mem_etcd_ops me_map me_lease_of me_expire
proof
  fix p kvs and s s' :: mem_etcd
  assume "et_GetPrefix mem_etcd_ops p s = (Inr kvs, s')"
  then show "set kvs = {(k, v). me_map s k = Some v \<and> HasPrefix k p} \<and> distinct (map fst kvs) \<and> me_map s' = me_map s"
    using me_prefix[of p s] by (auto simp: mem_etcd_ops_def)
qed (auto simp: mem_etcd_ops_def me_delete_all me_expire_def restrict_map_def fun_eq_iff Collect_neg_eq[symmetric]
    split: if_splits sum.splits)

section \<open>Locks and leases\<close>





definition mem_etcd_empty :: mem_etcd where
  "mem_etcd_empty = \<lparr>me_now = 1748432520 * Second, me_kv = [], me_leases = 0\<rparr>"


text \<open>
  C33. A node is bound to its lease only until its status is written: right after \<open>Register\<close> the
  expiry of the lease removes the node, but the first \<open>UpdateStatus\<close> or \<open>UpdateHeartbeat\<close> writes the key
  without the lease, and from then on a crashed node stays in the list (\<open>CleanupExpiredNodes\<close> does
  nothing).
\<close>

theorem etcd_update_drops_lease:
  assumes "etcd_server E kv lease_of expire" and "json_texts J"
    and "etcd_Register E J handler node (r, s) = (None, r1, s1)"
    and "etcd_updateNodeField E J (ID node) f (r1, s1) = (None, r2, s2)" and "path_name (ID node)"
  shows "kv s1 (etcdNodePrefix @ ID node) \<noteq> None \<and> kv (expire (er_lease r1) s1) (etcdNodePrefix @ ID node) = None \<and>
    (\<exists>d. js_Node J (f node) = Inr d \<and> (\<forall>l. kv (expire l s2) (etcdNodePrefix @ ID node) = Some d))"
proof -
  let ?k = "etcdNodePrefix @ ID node"
  obtain l s0 d sp where steps: "et_Grant E etcdLeaseTTL s = (Inr l, s0)" "js_Node J node = Inr d"
    "et_Put E ?k d (Some l) s0 = (None, sp)" "et_KeepAlive E l sp = (None, s1)" "er_lease r1 = l"
    using assms(3) by (auto simp: etcd_Register_def Let_def etcd_join(3)[OF assms(5)] split: prod.splits sum.splits option.splits)
  note kp = etcd_server.put[OF assms(1) steps(3)] etcd_server.keepalive[OF assms(1) steps(4)]
  have one: "kv s1 ?k = Some d" "lease_of s1 ?k = Some l" using kp by simp_all
  define F where "F = (\<lambda>get. let value = get ?k in
            if value = [] then Inl ErrNodeNotFound
            else case js_unNode J value of
                   None \<Rightarrow> Inl (ErrBackend ''json'')
                 | Some node \<Rightarrow> (case js_Node J (f node) of Inl err \<Rightarrow> Inl err | Inr newData \<Rightarrow> Inr [(?k, newData)]))"
  have stm: "et_STM E F s1 = (None, s2)"
    using assms(4) by (auto simp: etcd_updateNodeField_def F_def etcd_join(3)[OF assms(5)] Let_def split: prod.splits)
  have F: "F (kv_get (kv s1)) = (case js_Node J (f node) of Inl err \<Rightarrow> Inl err | Inr newData \<Rightarrow> Inr [(?k, newData)])"
    using one json_texts.unNode[OF assms(2) steps(2)] json_texts.node_text[OF assms(2) steps(2)] by (simp add: F_def kv_get_def)
  obtain d2 where d2: "js_Node J (f node) = Inr d2"
    using etcd_server.stm_refused[OF assms(1), of F s1] stm F by (cases "js_Node J (f node)") auto
  have two: "kv s2 = (kv s1)(?k \<mapsto> d2)" "lease_of s2 ?k = None"
    using etcd_server.stm[OF assms(1) stm, of ?k d2] F d2 by simp_all
  show ?thesis
    using one two d2 steps(5) etcd_server.expires[OF assms(1)] by (auto simp: restrict_map_def)
qed

definition demo_etcd_node :: Node where
  "demo_etcd_node = \<lparr>ID = ''n1'', IP = ''10.0.0.1'', Hostname = [], LastAlive = 0, CreateTime = 0,
     Status = NodeStatusStarting, Weight = 1\<rparr>"

theorem etcd_update_drops_lease_witness:
  "\<exists>r1 s1 r2 s2. etcd_Register mem_etcd_ops text_codec (\<lambda>ks. None) demo_etcd_node (NewEtcdRegistry, mem_etcd_empty) = (None, r1, s1) \<and>
     etcd_UpdateStatus mem_etcd_ops text_codec ''n1'' NodeStatusWorking (r1, s1) = (None, r2, s2) \<and>
     me_map (me_expire (er_lease r1) s1) ''/distributed_cron/nodes/n1'' = None \<and>
     me_map (me_expire (er_lease r1) s2) ''/distributed_cron/nodes/n1'' \<noteq> None"
proof -
  have pn: "path_name ''n1''" by code_simp
  have js: "js_Node text_codec n = Inr (mark_fields (node_fields n))" for n by (simp add: text_codec_def)
  note rd = text_codec.unNode[OF js] and ne = text_codec.node_text[OF js]
  obtain r1 s1 where reg: "etcd_Register mem_etcd_ops text_codec (\<lambda>ks. None) demo_etcd_node (NewEtcdRegistry, mem_etcd_empty) = (None, r1, s1)"
    and s1: "me_map s1 (etcdNodePrefix @ ''n1'') = Some (mark_fields (node_fields demo_etcd_node))"
    by (simp add: etcd_Register_def js mem_etcd_ops_def demo_etcd_node_def etcd_join(3)[OF pn])
  obtain r2 s2 where upd: "etcd_UpdateStatus mem_etcd_ops text_codec ''n1'' NodeStatusWorking (r1, s1) = (None, r2, s2)"
    using s1 rd ne by (simp add: etcd_UpdateStatus_def etcd_updateNodeField_def js mem_etcd_ops_def etcd_join(3)[OF pn] kv_get_def)
  have id: "ID demo_etcd_node = ''n1''" by (simp add: demo_etcd_node_def)
  show ?thesis
    using etcd_update_drops_lease[OF mem_etcd.etcd_server_axioms text_codec.json_texts_axioms reg, of _ r2 s2] upd id pn reg
    by (fastforce simp: etcd_UpdateStatus_def etcdNodePrefix_def)
qed

section \<open>The history of locks\<close>

lemma less_append_same: "P @ xs < P @ ys \<longleftrightarrow> xs < (ys :: string)" "P @ xs \<le> P @ ys \<longleftrightarrow> xs \<le> (ys :: string)"
  by (induction P) simp_all

lemma less_longer:
  "length ds = length bs \<Longrightarrow> ds @ c # r < bs \<longleftrightarrow> ds < (bs :: string)"
  "length ds = length bs \<Longrightarrow> bs \<le> ds @ c # r \<longleftrightarrow> bs \<le> (ds :: string)"
  by (induction ds bs rule: list_induct2) simp_all

lemma between_has_prefix: "P @ lo \<le> k \<Longrightarrow> k < P @ hi \<Longrightarrow> HasPrefix k (P :: string)"
proof (induction P arbitrary: k)
  case (Cons c P)
  then obtain d k' where k: "k = d # k'" by (cases k) auto
  then have "c = d" using Cons.prems by auto
  then show ?case using Cons k by (simp add: HasPrefix_def)
qed simp

lemma decimal_length: "10 ^ k \<le> n \<Longrightarrow> n < 10 ^ Suc k \<Longrightarrow> length (decimal n) = Suc k"
proof (induction k arbitrary: n)
  case 0
  then show ?case by (subst decimal.simps) simp
next
  case (Suc k)
  then have "10 \<le> n" by (metis le_trans one_le_numeral one_le_power mult.commute mult_le_mono1 nat_mult_1 power_Suc)
  moreover have "10 ^ k \<le> n div 10" "n div 10 < 10 ^ Suc k" using Suc.prems by (auto simp: less_mult_imp_div_less)
  ultimately show ?case using Suc.IH[of "n div 10"] by (subst decimal.simps) simp
qed

text \<open>Seconds of ten digits: the years 2001 to 2286.\<close>

definition ten_digits :: "int \<Rightarrow> bool" where
  "ten_digits s \<longleftrightarrow> 10 ^ 9 \<le> s \<and> s < 10 ^ 10"

lemma Sprintf_ten:
  assumes "ten_digits a" and "ten_digits b"
  shows "length (Sprintf_d a) = length (Sprintf_d b)" and "Sprintf_d a < Sprintf_d b \<longleftrightarrow> a < b"
    and "Sprintf_d a \<le> Sprintf_d b \<longleftrightarrow> a \<le> b"
proof -
  have d: "Sprintf_d x = decimal (nat x) \<and> length (decimal (nat x)) = 10" if "ten_digits x" for x
    using that decimal_length[of 9 "nat x"] by (simp add: ten_digits_def Sprintf_d_def le_nat_iff nat_less_iff)
  then show len: "length (Sprintf_d a) = length (Sprintf_d b)" using assms by simp
  have dig: "\<forall>c \<in> set (Sprintf_d x). is_digit c" "digits_val (Sprintf_d x) = nat x" if "ten_digits x" for x
    using d[OF that] decimal_digits by simp_all
  show lt: "Sprintf_d a < Sprintf_d b \<longleftrightarrow> a < b"
    using digits_order[OF len dig(1)[OF assms(1)] dig(1)[OF assms(2)]] dig(2) assms by (simp add: ten_digits_def)
  have "Sprintf_d b < Sprintf_d a \<longleftrightarrow> b < a"
    using digits_order[OF len[symmetric] dig(1)[OF assms(2)] dig(1)[OF assms(1)]] dig(2) assms by (simp add: ten_digits_def)
  then show "Sprintf_d a \<le> Sprintf_d b \<longleftrightarrow> a \<le> b" by (metis linorder_not_less)
qed

text \<open>
  C34. The cleanup of old locks removes exactly the locks of the year that ended ten minutes ago, and
  touches no key outside the lock prefix: the order of the keys is the order of the seconds while
  these have ten digits.
\<close>

theorem etcd_history_cleanup_exact:
  fixes now :: time
  assumes "etcd_server E kv lease_of expire" and "etcd_tryCleanupHistoryExecKeys E s = (None, s')"
    and "now = et_Now E s"
    and "ten_digits (unix_second (now - etcd_year))" and "ten_digits (unix_second (now - 10 * Minute))"
  shows "(ten_digits (unix_second t) \<longrightarrow> kv s' (etcd_lock_key n t) =
      (if unix_second (now - etcd_year) \<le> unix_second t \<and> unix_second t < unix_second (now - 10 * Minute)
       then None else kv s (etcd_lock_key n t))) \<and>
    (\<not> HasPrefix k etcdTaskLastExecPrefix \<longrightarrow> kv s' k = kv s k)"
proof -
  let ?P = etcdTaskLastExecPrefix
  define lo hi where "lo = unix_second (now - etcd_year)" and "hi = unix_second (now - 10 * Minute)"
  have "et_DeleteRange E (?P @ Sprintf_d lo) (?P @ Sprintf_d hi) s = (None, s')"
    using assms(2,3) by (auto simp: etcd_tryCleanupHistoryExecKeys_def Let_def lo_def hi_def
        CleanupHistoryExecKeysThresholdDuration_def split: prod.splits option.splits)
  note kv = etcd_server.delete_range[OF assms(1) this]
  have "(?P @ Sprintf_d lo \<le> etcd_lock_key n t \<longleftrightarrow> lo \<le> unix_second t) \<and> (etcd_lock_key n t < ?P @ Sprintf_d hi \<longleftrightarrow> unix_second t < hi)"
    if t: "ten_digits (unix_second t)"
    using Sprintf_ten[OF _ t, of lo] Sprintf_ten[OF t, of hi] assms(4,5)
      less_longer(1)[of "Sprintf_d (unix_second t)" "Sprintf_d hi" "CHR ''-''" n]
      less_longer(2)[of "Sprintf_d (unix_second t)" "Sprintf_d lo" "CHR ''-''" n]
    by (simp add: etcd_lock_key_def less_append_same lo_def[symmetric] hi_def[symmetric])
  moreover have "\<not> HasPrefix k ?P \<Longrightarrow> \<not> (?P @ Sprintf_d lo \<le> k \<and> k < ?P @ Sprintf_d hi)"
    using between_has_prefix[of ?P "Sprintf_d lo" k "Sprintf_d hi"] by blast
  ultimately show ?thesis unfolding kv lo_def[symmetric] hi_def[symmetric] by (simp add: restrict_map_def)
qed

theorem etcd_history_cleanup_exact_witness:
  "\<exists>s'. etcd_tryCleanupHistoryExecKeys mem_etcd_ops (me_put (etcd_lock_key ''job'' (1748431000 * Second)) [] None mem_etcd_empty) = (None, s') \<and>
     me_map s' (etcd_lock_key ''job'' (1748431000 * Second)) = None"
proof -
  let ?s = "me_put (etcd_lock_key ''job'' (1748431000 * Second)) [] None mem_etcd_empty"
  obtain s' where s': "etcd_tryCleanupHistoryExecKeys mem_etcd_ops ?s = (None, s')"
    by (simp add: etcd_tryCleanupHistoryExecKeys_def mem_etcd_ops_def)
  have now: "1748432520 * Second = et_Now mem_etcd_ops ?s"
    by (simp add: mem_etcd_ops_def mem_etcd_empty_def me_put_def)
  have u: "unix_second (1748432520 * Second - etcd_year) = 1716896520" "unix_second (1748432520 * Second - 10 * Minute) = 1748431920" "unix_second (1748431000 * Second) = 1748431000"
    by (simp_all add: unix_second_def etcd_year_def Minute_def Second_def)
  have t: "ten_digits 1716896520" "ten_digits 1748431920" "ten_digits 1748431000" by (simp_all add: ten_digits_def)
  show ?thesis
    using etcd_history_cleanup_exact[OF mem_etcd.etcd_server_axioms s' now, of "1748431000 * Second" "''job''"] s' t
    by (simp add: u)
qed

section \<open>The entries of the tasks\<close>












end
