(* ===== verification/Consul_Registry.thy ===== *)
theory Consul_Registry
  imports Backend
begin

text \<open>
  The Consul back end, \<open>src/consul.go\<close>. The client is the parameter \<open>consul_ops\<close>: the calls the code
  makes, on the state \<open>'s\<close> of the agent and the servers. The state of the back end is the struct of
  the process and the server. What the code relies on is the locale \<open>consul_server\<close>;
  \<open>mem_consul_ops\<close> is a server in memory that has its laws.
\<close>

section \<open>The client\<close>

record consul_session =
  se_Name :: string
  se_TTL :: string
  se_LockDelay :: duration
  se_Behavior :: string

record consul_check =
  ck_CheckID :: string
  ck_TTL :: string
  ck_DeregisterCriticalServiceAfter :: string

record consul_registration =
  ar_ID :: string
  ar_Name :: string
  ar_Tags :: "string list"
  ar_Meta :: "(string \<times> string) list"
  ar_Check :: consul_check

text \<open>A service as the agent, the catalog or the health endpoint shows it.\<close>

record consul_service =
  sv_ID :: string
  sv_Tags :: "string list"
  sv_Meta :: "(string \<times> string) list"

text \<open>
  \<open>co_UpdateTTL id\<close> reports the check as passing. \<open>co_Health name tag\<close> lists the instances that pass
  their checks and have the tag. \<open>co_Create k v\<close> is \<open>KV().CAS\<close> with \<open>ModifyIndex\<close> 0. \<open>co_Txn ks\<close> is a
  transaction of \<open>KVDelete\<close> operations: whether it was committed, and the texts of its errors.
  \<open>co_Keys prefix separator\<close> lists keys.
\<close>

record 's consul_ops =
  co_Now :: "'s \<Rightarrow> time"
  co_SessionCreate :: "consul_session \<Rightarrow> 's \<Rightarrow> (error + string) \<times> 's"
  co_SessionRenew :: "string \<Rightarrow> 's \<Rightarrow> error option \<times> 's"
  co_SessionDestroy :: "string \<Rightarrow> 's \<Rightarrow> error option \<times> 's"
  co_ServiceRegister :: "consul_registration \<Rightarrow> 's \<Rightarrow> error option \<times> 's"
  co_ServiceDeregister :: "string \<Rightarrow> 's \<Rightarrow> error option \<times> 's"
  co_UpdateTTL :: "string \<Rightarrow> 's \<Rightarrow> error option \<times> 's"
  co_AgentService :: "string \<Rightarrow> 's \<Rightarrow> (error + consul_service option) \<times> 's"
  co_Catalog :: "string \<Rightarrow> 's \<Rightarrow> (error + consul_service list) \<times> 's"
  co_Health :: "string \<Rightarrow> string \<Rightarrow> 's \<Rightarrow> (error + consul_service list) \<times> 's"
  co_Put :: "string \<Rightarrow> string \<Rightarrow> 's \<Rightarrow> error option \<times> 's"
  co_Create :: "string \<Rightarrow> string \<Rightarrow> 's \<Rightarrow> (error + bool) \<times> 's"
  co_List :: "string \<Rightarrow> 's \<Rightarrow> (error + (string \<times> string) list) \<times> 's"
  co_Keys :: "string \<Rightarrow> string \<Rightarrow> 's \<Rightarrow> (error + string list) \<times> 's"
  co_Delete :: "string \<Rightarrow> 's \<Rightarrow> error option \<times> 's"
  co_DeleteTree :: "string \<Rightarrow> 's \<Rightarrow> error option \<times> 's"
  co_Txn :: "string list \<Rightarrow> 's \<Rightarrow> (error + bool \<times> string list) \<times> 's"

definition consulServiceName :: string where "consulServiceName = ''distributed_cron''"
definition consulKVTasksPrefix :: string where "consulKVTasksPrefix = ''distributed_cron/tasks/''"
definition consulKVDeletedTaskPrefix :: string where "consulKVDeletedTaskPrefix = ''distributed_cron/deleted_tasks/''"
definition consulKVTaskLastExec :: string where "consulKVTaskLastExec = ''distributed_cron/last_exec/''"
definition consulSessionTTL :: string where "consulSessionTTL = ''15s''"
definition consulCheckTimeout :: string where "consulCheckTimeout = ''10s''"

lemmas consul_prefixes = consulKVTasksPrefix_def consulKVDeletedTaskPrefix_def consulKVTaskLastExec_def

record consulRegistry =
  cr_sessionID :: string
  cr_serviceID :: string
  cr_serviceName :: string
  cr_cleaner :: "EventCleaner option"

definition NewConsulRegistry :: consulRegistry where
  "NewConsulRegistry = \<lparr>cr_sessionID = [], cr_serviceID = [], cr_serviceName = consulServiceName, cr_cleaner = None\<rparr>"

type_synonym 's consul_state = "consulRegistry \<times> 's"

section \<open>Nodes\<close>

definition consul_node_check :: "string \<Rightarrow> consul_check" where
  "consul_node_check serviceID =
     \<lparr>ck_CheckID = serviceID @ ''-check'', ck_TTL = consulCheckTimeout, ck_DeregisterCriticalServiceAfter = ''1m''\<rparr>"

definition consul_node_meta :: "(int \<Rightarrow> int) \<Rightarrow> Node \<Rightarrow> (string \<times> string) list" where
  "consul_node_meta zone node =
     [(''ip'', IP node), (''hostname'', Hostname node), (''weight'', Sprintf_d (Weight node)),
      (''create_time'', Format_RFC3339 zone (CreateTime node)), (''last_alive'', Format_RFC3339 zone (LastAlive node))]"

text \<open>\<open>zone\<close> is the location of the process, \<open>handler\<close> what \<open>batchDeleteExecKeys\<close> answers to the cleaner.\<close>

definition consul_Register ::
  "'s consul_ops \<Rightarrow> (int \<Rightarrow> int) \<Rightarrow> EventHandler \<Rightarrow> Node \<Rightarrow> 's consul_state \<Rightarrow> error option \<times> 's consul_state" where
  "consul_Register C zone handler node = (\<lambda>(r, s).
     case co_SessionCreate C \<lparr>se_Name = ID node @ ''-session'', se_TTL = consulSessionTTL,
            se_LockDelay = 5 * Second, se_Behavior = ''delete''\<rparr> s of
       (Inl err, s) \<Rightarrow> (Some (ErrWrapped [] err), r, s)
     | (Inr sessionID, s) \<Rightarrow>
         let r = r\<lparr>cr_sessionID := sessionID, cr_serviceID := ID node\<rparr> in
         case co_ServiceRegister C \<lparr>ar_ID = cr_serviceID r, ar_Name = cr_serviceName r, ar_Tags = [Status node],
                ar_Meta = consul_node_meta zone node, ar_Check = consul_node_check (cr_serviceID r)\<rparr> s of
           (Some err, s) \<Rightarrow> (Some (ErrWrapped (ID node) err), r, s)
         | (None, s) \<Rightarrow> (None, r\<lparr>cr_cleaner := Some (registry_cleaner handler)\<rparr>, s))"

text \<open>One tick of \<open>maintainSession\<close>, and the loop; \<open>env\<close> is what happens to the server before a tick.\<close>

definition consul_maintainSession_turn :: "'s consul_ops \<Rightarrow> consulRegistry \<Rightarrow> 's \<Rightarrow> 's" where
  "consul_maintainSession_turn C r s =
     (case co_SessionRenew C (cr_sessionID r) s of
        (Some err, s) \<Rightarrow> s
      | (None, s) \<Rightarrow> snd (co_UpdateTTL C (cr_serviceID r @ ''-check'') s))"

fun consul_maintainSession :: "'s consul_ops \<Rightarrow> consulRegistry \<Rightarrow> ('s \<Rightarrow> 's) list \<Rightarrow> 's \<Rightarrow> 's" where
  "consul_maintainSession C r [] s = s"
| "consul_maintainSession C r (env # ticks) s =
     consul_maintainSession C r ticks (consul_maintainSession_turn C r (env s))"

definition consul_Unregister :: "'s consul_ops \<Rightarrow> string \<Rightarrow> 's consul_state \<Rightarrow> error option \<times> 's consul_state" where
  "consul_Unregister C nodeID = (\<lambda>(r, s).
     case (if cr_serviceID r \<noteq> [] then co_ServiceDeregister C (cr_serviceID r) s else (None, s)) of
       (Some err, s) \<Rightarrow> (Some (ErrWrapped (cr_serviceID r) err), r, s)
     | (None, s) \<Rightarrow>
         (case (if cr_sessionID r \<noteq> [] then co_SessionDestroy C (cr_sessionID r) s else (None, s)) of
            (Some err, s) \<Rightarrow> (Some (ErrWrapped (cr_sessionID r) err), r, s)
          | (None, s) \<Rightarrow> (None, r, s)))"

text \<open>The old tags are filtered by the empty prefix, so none is kept.\<close>

definition consul_UpdateStatus ::
  "'s consul_ops \<Rightarrow> (int \<Rightarrow> int) \<Rightarrow> string \<Rightarrow> NodeStatus \<Rightarrow> 's consul_state \<Rightarrow> error option \<times> 's consul_state" where
  "consul_UpdateStatus C zone nodeID status = (\<lambda>(r, s).
     case co_AgentService C nodeID s of
       (Inl err, s) \<Rightarrow> (Some (ErrWrapped nodeID err), r, s)
     | (Inr None, s) \<Rightarrow> (Some ErrNodeNotFound, r, s)
     | (Inr (Some service), s) \<Rightarrow>
         let newTags = filter (\<lambda>tag. \<not> HasPrefix tag []) (sv_Tags service) @ [status];
             meta = AList.update ''last_alive'' (Format_RFC3339 zone (co_Now C s)) (sv_Meta service)
         in case co_ServiceRegister C \<lparr>ar_ID = nodeID, ar_Name = cr_serviceName r, ar_Tags = newTags,
                   ar_Meta = meta, ar_Check = consul_node_check nodeID\<rparr> s of
              (Some err, s) \<Rightarrow> (Some (ErrWrapped nodeID err), r, s)
            | (None, s) \<Rightarrow> (None, r, s))"

definition consul_UpdateHeartbeat ::
  "'s consul_ops \<Rightarrow> string \<Rightarrow> time \<Rightarrow> 's consul_state \<Rightarrow> error option \<times> 's consul_state" where
  "consul_UpdateHeartbeat C nodeID now = (\<lambda>(r, s).
     case co_UpdateTTL C (nodeID @ ''-check'') s of (err, s) \<Rightarrow> (err, r, s))"

text \<open>Reading a service as a node. A key that a Go map does not have reads as the empty string; a
  number or a time that cannot be read is the zero value.\<close>

definition meta_get :: "(string \<times> string) list \<Rightarrow> string \<Rightarrow> string" where
  "meta_get meta k = (case map_of meta k of None \<Rightarrow> [] | Some v \<Rightarrow> v)"

definition parse_or_zero :: "(string \<Rightarrow> time option) \<Rightarrow> string \<Rightarrow> time" where
  "parse_or_zero parse s = (case parse s of None \<Rightarrow> zero_time | Some t \<Rightarrow> t)"

definition consul_status :: "consul_service \<Rightarrow> NodeStatus" where
  "consul_status service = (if length (sv_Tags service) > 0 then sv_Tags service ! 0 else [])"

definition consul_node :: "(string \<Rightarrow> time option) \<Rightarrow> consul_service \<Rightarrow> Node" where
  "consul_node parse service =
     \<lparr>ID = sv_ID service, IP = meta_get (sv_Meta service) ''ip'', Hostname = meta_get (sv_Meta service) ''hostname'',
      LastAlive = parse_or_zero parse (meta_get (sv_Meta service) ''last_alive''),
      CreateTime = parse_or_zero parse (meta_get (sv_Meta service) ''create_time''),
      Status = consul_status service, Weight = Atoi (meta_get (sv_Meta service) ''weight'')\<rparr>"

definition consul_GetNodes ::
  "'s consul_ops \<Rightarrow> (string \<Rightarrow> time option) \<Rightarrow> 's consul_state \<Rightarrow> (error + Node list) \<times> 's consul_state" where
  "consul_GetNodes C parse = (\<lambda>(r, s).
     case co_Catalog C (cr_serviceName r) s of
       (Inl err, s) \<Rightarrow> (Inl (ErrWrapped [] err), r, s)
     | (Inr services, s) \<Rightarrow> (Inr (map (consul_node parse) services), r, s))"

definition consul_GetWorkingNodes ::
  "'s consul_ops \<Rightarrow> (string \<Rightarrow> time option) \<Rightarrow> 's consul_state \<Rightarrow> (error + Node list) \<times> 's consul_state" where
  "consul_GetWorkingNodes C parse = (\<lambda>(r, s).
     case co_Health C (cr_serviceName r) NodeStatusWorking s of
       (Inl err, s) \<Rightarrow> (Inl (ErrWrapped NodeStatusWorking err), r, s)
     | (Inr services, s) \<Rightarrow>
         (Inr (map (consul_node parse) (filter (\<lambda>service. consul_status service = NodeStatusWorking) services)), r, s))"

definition consul_CleanupExpiredNodes :: "duration \<Rightarrow> time \<Rightarrow> 's consul_state \<Rightarrow> error option \<times> 's consul_state" where
  "consul_CleanupExpiredNodes timeout now g = (None, g)"

text \<open>
  The watchers. The library calls the plan's handler with the whole list on every change. The
  handler compares it with the snapshot of the last call and sends the differences, one by one. When
  the context ends while a send waits, the handler returns without the rest and keeps the old
  snapshot: \<open>lim\<close> is \<open>None\<close>, or the number of sends before that. The order of the entries stands for any
  order of the \<open>range\<close> loops.
\<close>

definition watch_send :: "nat option \<Rightarrow> 'e list \<Rightarrow> 'm \<Rightarrow> 'm \<Rightarrow> 'e list \<times> 'm" where
  "watch_send lim events new old =
     (case lim of
        None \<Rightarrow> (events, new)
      | Some k \<Rightarrow> if k < length events then (take k events, old) else (events, new))"

definition consul_watch_node :: "consul_service \<Rightarrow> Node" where
  "consul_watch_node service =
     zero_node\<lparr>ID := sv_ID service, IP := meta_get (sv_Meta service) ''ip'',
       Hostname := meta_get (sv_Meta service) ''hostname'', Weight := Atoi (meta_get (sv_Meta service) ''weight''),
       Status := consul_status service\<rparr>"

fun consul_current_nodes :: "consul_service list \<Rightarrow> (string \<times> Node) list \<Rightarrow> (string \<times> Node) list" where
  "consul_current_nodes [] currentNodes = currentNodes"
| "consul_current_nodes (service # services) currentNodes =
     consul_current_nodes services (AList.update (sv_ID service) (consul_watch_node service) currentNodes)"

definition consul_node_put :: "(string \<times> Node) list \<Rightarrow> string \<times> Node \<Rightarrow> NodeEvent option" where
  "consul_node_put snapshot = (\<lambda>(id, node).
     case map_of snapshot id of
       None \<Rightarrow> Some \<lparr>NE_Type = NodeEventTypePut, NE_Node = node\<rparr>
     | Some oldNode \<Rightarrow> if oldNode \<noteq> node then Some \<lparr>NE_Type = NodeEventTypePut, NE_Node = node\<rparr> else None)"

definition consul_node_gone :: "(string \<times> Node) list \<Rightarrow> string \<times> Node \<Rightarrow> NodeEvent option" where
  "consul_node_gone currentNodes = (\<lambda>(id, node).
     case map_of currentNodes id of
       None \<Rightarrow> Some \<lparr>NE_Type = NodeEventTypeDelete, NE_Node = node\<rparr>
     | Some _ \<Rightarrow> None)"

definition consul_nodes_handler ::
  "nat option \<Rightarrow> consul_service list \<Rightarrow> (string \<times> Node) list \<Rightarrow> NodeEvent list \<times> (string \<times> Node) list" where
  "consul_nodes_handler lim services snapshot =
     (let currentNodes = consul_current_nodes services []
      in watch_send lim (List.map_filter (consul_node_put snapshot) currentNodes @
           List.map_filter (consul_node_gone currentNodes) snapshot) currentNodes snapshot)"

text \<open>The events of a sequence of handler calls.\<close>

fun watch_events :: "(nat option \<Rightarrow> 'd \<Rightarrow> 'm \<Rightarrow> 'e list \<times> 'm) \<Rightarrow> (nat option \<times> 'd) list \<Rightarrow> 'm \<Rightarrow> 'e list" where
  "watch_events handler [] snapshot = []"
| "watch_events handler ((lim, data) # calls) snapshot =
     (case handler lim data snapshot of (events, snapshot) \<Rightarrow> events @ watch_events handler calls snapshot)"

definition consul_WatchNodes :: "(nat option \<times> consul_service list) list \<Rightarrow> NodeEvent list" where
  "consul_WatchNodes calls =
     \<lparr>NE_Type = NodeEventTypeChanged, NE_Node = zero_node\<rparr> # watch_events consul_nodes_handler calls []"

section \<open>Tasks\<close>

definition consul_PutTask ::
  "'s consul_ops \<Rightarrow> json_codec \<Rightarrow> TaskMeta \<Rightarrow> 's consul_state \<Rightarrow> error option \<times> 's consul_state" where
  "consul_PutTask C J task = (\<lambda>(r, s).
     case js_TaskMeta J task of
       Inl err \<Rightarrow> (Some (ErrWrapped (Name task) err), r, s)
     | Inr data \<Rightarrow>
         (case co_Put C (consulKVTasksPrefix @ Name task) data s of
            (Some err, s) \<Rightarrow> (Some (ErrWrapped (Name task) err), r, s)
          | (None, s) \<Rightarrow> (None, r, s)))"

fun consul_store_tasks :: "json_codec \<Rightarrow> (string \<times> string) list \<Rightarrow> (string \<times> TaskMeta) list \<Rightarrow> (string \<times> TaskMeta) list" where
  "consul_store_tasks J [] tasks = tasks"
| "consul_store_tasks J ((key, data) # pairs) tasks =
     consul_store_tasks J pairs (case js_unTaskMeta J data of
       None \<Rightarrow> tasks | Some task \<Rightarrow> AList.update (Name task) task tasks)"

definition consul_GetAllTasks ::
  "'s consul_ops \<Rightarrow> json_codec \<Rightarrow> 's consul_state \<Rightarrow> (error + (string \<times> TaskMeta) list) \<times> 's consul_state" where
  "consul_GetAllTasks C J = (\<lambda>(r, s).
     case co_List C consulKVTasksPrefix s of
       (Inl err, s) \<Rightarrow> (Inl (ErrWrapped [] err), r, s)
     | (Inr pairs, s) \<Rightarrow> (Inr (consul_store_tasks J pairs []), r, s))"

text \<open>The task watcher: the initial pairs that can be read go into the snapshot and give an event
  each; then the handler.\<close>

definition consul_task_put :: "json_codec \<Rightarrow> (string \<times> string) list \<Rightarrow> string \<times> string \<Rightarrow> TaskMetaEvent option" where
  "consul_task_put J currentPairs = (\<lambda>(key, data).
     case js_unTaskMeta J data of
       None \<Rightarrow> None
     | Some task \<Rightarrow>
         if map_of currentPairs key = None \<or> map_of currentPairs key \<noteq> Some data
         then Some \<lparr>TE_Type = TaskEventTypePut, TE_Task = task\<rparr> else None)"

definition consul_task_gone :: "(string \<times> string) list \<Rightarrow> string \<times> string \<Rightarrow> TaskMetaEvent option" where
  "consul_task_gone newPairMap = (\<lambda>(key, data).
     if map_of newPairMap key = None
     then Some \<lparr>TE_Type = TaskEventTypeDelete,
            TE_Task = zero_task\<lparr>Name := TrimPrefix (TrimPrefix key consulKVTasksPrefix) ''/''\<rparr>\<rparr>
     else None)"

definition consul_tasks_handler ::
  "json_codec \<Rightarrow> nat option \<Rightarrow> (string \<times> string) list \<Rightarrow> (string \<times> string) list \<Rightarrow> TaskMetaEvent list \<times> (string \<times> string) list" where
  "consul_tasks_handler J lim newPairs currentPairs =
     (let newPairMap = fold (\<lambda>(key, data). AList.update key data) newPairs []
      in watch_send lim (List.map_filter (consul_task_put J currentPairs) newPairMap @
           List.map_filter (consul_task_gone newPairMap) currentPairs) newPairMap currentPairs)"

definition consul_initial_pairs :: "json_codec \<Rightarrow> (string \<times> string) list \<Rightarrow> (string \<times> string) list" where
  "consul_initial_pairs J pairs = fold (\<lambda>(key, data). AList.update key data) (filter (\<lambda>(key, data). js_unTaskMeta J data \<noteq> None) pairs) []"

text \<open>
  The initial events are sent before the channel is returned, so nobody receives yet. \<open>None\<close>: the
  call waits for ever, because the channel is full. \<open>cancel\<close> is \<open>None\<close>, or the number of the send at
  which the \<open>select\<close> takes the end of the context.
\<close>

definition consul_send_initial :: "nat option \<Rightarrow> 'e list \<Rightarrow> error option option" where
  "consul_send_initial cancel events =
     (if (\<exists>k \<in> set_option cancel. k < length events \<and> k \<le> TaskEventChannelSize) then Some (Some (ErrBackend ''context canceled''))
      else if length events \<le> TaskEventChannelSize then Some None
      else None)"

definition consul_WatchTaskEvent ::
  "'s consul_ops \<Rightarrow> json_codec \<Rightarrow> nat option \<Rightarrow> (nat option \<times> (string \<times> string) list) list \<Rightarrow> 's consul_state \<Rightarrow>
   ((error + TaskMetaEvent list) \<times> 's consul_state) option" where
  "consul_WatchTaskEvent C J cancel calls = (\<lambda>(r, s).
     case co_List C consulKVTasksPrefix s of
       (Inl err, s) \<Rightarrow> Some (Inl (ErrWrapped [] err), r, s)
     | (Inr initialPairs, s) \<Rightarrow>
         let events = List.map_filter (consul_task_put J []) initialPairs in
         case consul_send_initial cancel events of
           None \<Rightarrow> None
         | Some (Some err) \<Rightarrow> Some (Inl err, r, s)
         | Some None \<Rightarrow>
             Some (Inr (events @ watch_events (consul_tasks_handler J) calls (consul_initial_pairs J initialPairs)), r, s))"

definition consul_MarkTaskDeleted :: "'s consul_ops \<Rightarrow> string \<Rightarrow> 's consul_state \<Rightarrow> error option \<times> 's consul_state" where
  "consul_MarkTaskDeleted C taskName = (\<lambda>(r, s).
     case co_Put C (consulKVDeletedTaskPrefix @ taskName) [] s of
       (Some err, s) \<Rightarrow> (Some (ErrWrapped taskName err), r, s)
     | (None, s) \<Rightarrow> (None, r, s))"

definition consul_GetDeletedTaskNames :: "'s consul_ops \<Rightarrow> 's consul_state \<Rightarrow> string list \<times> 's consul_state" where
  "consul_GetDeletedTaskNames C = (\<lambda>(r, s).
     case co_List C consulKVDeletedTaskPrefix s of
       (Inl err, s) \<Rightarrow> ([], r, s)
     | (Inr pairs, s) \<Rightarrow> (map (\<lambda>(key, data). TrimPrefix key consulKVDeletedTaskPrefix) pairs, r, s))"

text \<open>
  The watcher of deleted tasks: the signals in its channel after the steps of the receiver (\<open>False\<close>)
  and of the handler (\<open>True\<close>), which drops the signal when the channel is full.
\<close>

fun consul_deleted_signals :: "bool list \<Rightarrow> nat \<Rightarrow> nat" where
  "consul_deleted_signals [] n = n"
| "consul_deleted_signals (True # steps) n =
     consul_deleted_signals steps (if n < NodeEventChannelSize then n + 1 else n)"
| "consul_deleted_signals (False # steps) n = consul_deleted_signals steps (n - 1)"

definition consul_WatchDeletedTaskEvent :: "bool list \<Rightarrow> nat" where
  "consul_WatchDeletedTaskEvent steps = consul_deleted_signals steps 1"

section \<open>The execution lock\<close>

definition consul_lock_key :: "(int \<Rightarrow> int) \<Rightarrow> string \<Rightarrow> time \<Rightarrow> string" where
  "consul_lock_key zone taskName execTime =
     consulKVTaskLastExec @ Format_RFC3339 zone execTime @ ''-'' @ taskName"

text \<open>A nil cleaner (before \<open>Register\<close>) makes the call panic, after the key was created.\<close>

definition consul_CanRunTask ::
  "'s consul_ops \<Rightarrow> (int \<Rightarrow> int) \<Rightarrow> select_choice \<Rightarrow> string \<Rightarrow> time \<Rightarrow> 's consul_state \<Rightarrow> (error + bool) go \<times> 's consul_state" where
  "consul_CanRunTask C zone ch taskName execTime = (\<lambda>(r, s).
     let key = consul_lock_key zone taskName execTime in
     case co_Create C key [] s of
       (Inl err, s) \<Rightarrow> (Inr (Inl (ErrWrapped [] err)), r, s)
     | (Inr False, s) \<Rightarrow> (Inr (Inr False), r, s)
     | (Inr True, s) \<Rightarrow>
         (case cr_cleaner r of
            None \<Rightarrow> (Inl NilDeref, r, s)
          | Some cleaner \<Rightarrow>
              (case send_event ch \<lparr>Key = key, Time = execTime\<rparr> cleaner of
                 (err, cleaner) \<Rightarrow> (Inr (Inr True), r\<lparr>cr_cleaner := Some cleaner\<rparr>, s))))"

text \<open>\<open>batchDeleteExecKeys\<close> and \<open>batchDelete\<close> differ in the texts of their errors only.\<close>

definition consul_batchDelete :: "'s consul_ops \<Rightarrow> string list \<Rightarrow> 's \<Rightarrow> error option \<times> 's" where
  "consul_batchDelete C keys s =
     (if keys = [] then (None, s)
      else case co_Txn C keys s of
             (Inl err, s) \<Rightarrow> (Some (ErrWrapped [] err), s)
           | (Inr (ok, errors), s) \<Rightarrow>
               if \<not> ok then (Some (if length errors > 0 then ErrBackend (errors ! 0) else ErrBackend []), s)
               else (None, s))"

definition consul_batchDeleteExecKeys :: "'s consul_ops \<Rightarrow> string list \<Rightarrow> 's \<Rightarrow> error option \<times> 's" where
  "consul_batchDeleteExecKeys C keys s = consul_batchDelete C keys s"

definition consul_expired :: "(string \<Rightarrow> time option) \<Rightarrow> time \<Rightarrow> string \<Rightarrow> bool" where
  "consul_expired parse now key =
     (let keyWithoutPrefix = TrimPrefix key consulKVTaskLastExec in
      if length keyWithoutPrefix < len_RFC3339 then False
      else case parse (take len_RFC3339 keyWithoutPrefix) of
             None \<Rightarrow> False
           | Some execTime \<Rightarrow> now - execTime \<ge> CleanupHistoryExecKeysThresholdDuration)"

function consul_delete_batches :: "'s consul_ops \<Rightarrow> string list \<Rightarrow> 's \<Rightarrow> error option \<times> 's" where
  "consul_delete_batches C toDelete s =
     (if toDelete = [] then (None, s)
      else case consul_batchDelete C (take (nat CleanerBatchSize) toDelete) s of
             (Some err, s) \<Rightarrow> (Some err, s)
           | (None, s) \<Rightarrow> consul_delete_batches C (drop (nat CleanerBatchSize) toDelete) s)"
  by pat_completeness auto
termination
  by (relation "measure (\<lambda>(C, toDelete, s). length toDelete)") (auto simp: CleanerBatchSize_def)

declare consul_delete_batches.simps [simp del]

text \<open>
  The loop over the pages of keys, with fuel for its iterations; \<open>None\<close>: it has not ended. The
  marker of the next page is passed as the separator of the listing.
\<close>

definition consul_pageSize :: nat where "consul_pageSize = 1000"

fun consul_pages ::
  "nat \<Rightarrow> 's consul_ops \<Rightarrow> (string \<Rightarrow> time option) \<Rightarrow> string \<Rightarrow> string list \<Rightarrow> 's \<Rightarrow> ((error + string list) \<times> 's) option" where
  "consul_pages 0 C parse after toDelete s = None"
| "consul_pages (Suc fuel) C parse after toDelete s =
     (case co_Keys C consulKVTaskLastExec after s of
        (Inl err, s) \<Rightarrow> Some (Inl (ErrWrapped [] err), s)
      | (Inr keys, s) \<Rightarrow>
          if keys = [] then Some (Inr toDelete, s)
          else
            let toDelete = toDelete @ filter (consul_expired parse (co_Now C s)) keys;
                allProcessed = (length keys < consul_pageSize);
                after = (if allProcessed then after else last keys)
            in if int (length toDelete) \<ge> CleanerBatchSize \<or> allProcessed
               then case consul_delete_batches C toDelete s of
                      (Some err, s) \<Rightarrow> Some (Inl err, s)
                    | (None, s) \<Rightarrow> if allProcessed then Some (Inr [], s) else consul_pages fuel C parse after [] s
               else consul_pages fuel C parse after toDelete s)"

definition consul_tryCleanupHistoryExecKeys ::
  "nat \<Rightarrow> 's consul_ops \<Rightarrow> (string \<Rightarrow> time option) \<Rightarrow> 's \<Rightarrow> (error option \<times> 's) option" where
  "consul_tryCleanupHistoryExecKeys fuel C parse s =
     (case consul_pages fuel C parse [] [] s of
        None \<Rightarrow> None
      | Some (Inl err, s) \<Rightarrow> Some (Some err, s)
      | Some (Inr toDelete, s) \<Rightarrow>
          if length toDelete > 0 then Some (consul_batchDelete C toDelete s) else Some (None, s))"

text \<open>The cleanup at the start and on every tick; \<open>env\<close> is what happens to the server before a tick.\<close>

fun consul_cleanupHistoryExecKeys ::
  "nat \<Rightarrow> 's consul_ops \<Rightarrow> (string \<Rightarrow> time option) \<Rightarrow> ('s \<Rightarrow> 's) list \<Rightarrow> 's \<Rightarrow> 's option" where
  "consul_cleanupHistoryExecKeys fuel C parse [] s = map_option snd (consul_tryCleanupHistoryExecKeys fuel C parse s)"
| "consul_cleanupHistoryExecKeys fuel C parse (env # ticks) s =
     (case consul_tryCleanupHistoryExecKeys fuel C parse s of
        None \<Rightarrow> None
      | Some (err, s) \<Rightarrow> consul_cleanupHistoryExecKeys fuel C parse ticks (env s))"

section \<open>Cleaning up\<close>

definition consul_ForceCleanupTask :: "'s consul_ops \<Rightarrow> string \<Rightarrow> 's consul_state \<Rightarrow> error option \<times> 's consul_state" where
  "consul_ForceCleanupTask C taskName = (\<lambda>(r, s).
     case co_Txn C [consulKVTasksPrefix @ taskName, consulKVDeletedTaskPrefix @ taskName, consulKVTaskLastExec @ taskName] s of
       (Inl err, s) \<Rightarrow> (Some (ErrWrapped taskName err), r, s)
     | (Inr _, s) \<Rightarrow> (None, r, s))"

definition consul_ForceCleanupAllTasks :: "'s consul_ops \<Rightarrow> 's consul_state \<Rightarrow> error option \<times> 's consul_state" where
  "consul_ForceCleanupAllTasks C = (\<lambda>(r, s).
     case co_DeleteTree C consulKVTasksPrefix s of
       (Some err, s) \<Rightarrow> (Some (ErrWrapped [] err), r, s)
     | (None, s) \<Rightarrow>
         (case co_DeleteTree C consulKVDeletedTaskPrefix s of
            (Some err, s) \<Rightarrow> (Some (ErrWrapped [] err), r, s)
          | (None, s) \<Rightarrow>
              (case co_DeleteTree C consulKVTaskLastExec s of
                 (Some err, s) \<Rightarrow> (Some (ErrWrapped [] err), r, s)
               | (None, s) \<Rightarrow> (None, r, s))))"

definition consul_RemoveTaskDeleted :: "'s consul_ops \<Rightarrow> string \<Rightarrow> 's consul_state \<Rightarrow> error option \<times> 's consul_state" where
  "consul_RemoveTaskDeleted C taskName = (\<lambda>(r, s).
     case co_Delete C (consulKVDeletedTaskPrefix @ taskName) s of
       (Some err, s) \<Rightarrow> (Some (ErrWrapped taskName err), r, s)
     | (None, s) \<Rightarrow> (None, r, s))"

text \<open>The back end behind the interface.\<close>

definition consul_registry ::
  "'s consul_ops \<Rightarrow> json_codec \<Rightarrow> (string \<Rightarrow> time option) \<Rightarrow> (int \<Rightarrow> int) \<Rightarrow> EventHandler \<Rightarrow> select_choice \<Rightarrow>
   's consul_state registry_ops" where
  "consul_registry C J parse zone handler ch = \<lparr>
     reg_Register = consul_Register C zone handler, reg_Unregister = consul_Unregister C,
     reg_UpdateStatus = consul_UpdateStatus C zone, reg_UpdateHeartbeat = consul_UpdateHeartbeat C,
     reg_GetNodes = consul_GetNodes C parse, reg_GetWorkingNodes = consul_GetWorkingNodes C parse,
     reg_CleanupExpiredNodes = consul_CleanupExpiredNodes, reg_PutTask = consul_PutTask C J,
     reg_MarkTaskDeleted = consul_MarkTaskDeleted C, reg_RemoveTaskDeleted = consul_RemoveTaskDeleted C,
     reg_ForceCleanupTask = consul_ForceCleanupTask C, reg_GetAllTasks = consul_GetAllTasks C J,
     reg_GetDeletedTaskNames = consul_GetDeletedTaskNames C,
     reg_ForceCleanupAllTasks = consul_ForceCleanupAllTasks C,
     reg_CanRunTask = (\<lambda>n t. recovered (consul_CanRunTask C zone ch n t))\<rparr>"

section \<open>What the code relies on\<close>

text \<open>
  \<open>kv s\<close>: the keys with their values; \<open>svc s\<close>: the registrations of the agents, which the catalog has
  after their synchronisation. A call without error has its documented effect; a write with an error
  has it or has none; a transaction is atomic. \<open>KV().Keys\<close> with a separator cuts the keys behind it
  and else lists every key with the prefix.
\<close>

definition consul_shows :: "consul_registration \<Rightarrow> consul_service \<Rightarrow> bool" where
  "consul_shows reg v \<longleftrightarrow> sv_ID v = ar_ID reg \<and> sv_Tags v = ar_Tags reg \<and> map_of (sv_Meta v) = map_of (ar_Meta reg)"

definition keys_under :: "string \<Rightarrow> (string \<rightharpoonup> string) \<Rightarrow> string set" where
  "keys_under p m = {k \<in> dom m. HasPrefix k p}"

locale consul_server =
  fixes C :: "'s consul_ops" and kv :: "'s \<Rightarrow> (string \<rightharpoonup> string)" and svc :: "'s \<Rightarrow> (string \<rightharpoonup> consul_registration)"
  assumes put: "co_Put C k v s = (None, s') \<Longrightarrow> kv s' = (kv s)(k \<mapsto> v)"
    and put_err: "co_Put C k v s = (Some e, s') \<Longrightarrow> kv s' = kv s \<or> kv s' = (kv s)(k \<mapsto> v)"
    and create: "co_Create C k v s = (Inr b, s') \<Longrightarrow> b = (kv s k = None) \<and> kv s' = (if b then (kv s)(k \<mapsto> v) else kv s)"
    and create_err: "co_Create C k v s = (Inl e, s') \<Longrightarrow> kv s' = kv s \<or> kv s' = (kv s)(k \<mapsto> v) \<and> kv s k = None"
    and kv_list: "co_List C p s = (Inr kvs, s') \<Longrightarrow>
      set kvs = {(k, v). kv s k = Some v \<and> HasPrefix k p} \<and> distinct (map fst kvs) \<and> kv s' = kv s"
    and kv_keys: "co_Keys C p sep s = (Inr ks, s') \<Longrightarrow>
      sep = [] \<or> (\<forall>k \<in> keys_under p (kv s). \<not> sublist sep (drop (length p) k)) \<Longrightarrow>
      set ks = keys_under p (kv s) \<and> distinct ks \<and> kv s' = kv s"
    and txn: "co_Txn C ks s = (Inr (b, es), s') \<Longrightarrow> kv s' = (if b then kv s |` (- set ks) else kv s)"
    and txn_err: "co_Txn C ks s = (Inl e, s') \<Longrightarrow> kv s' = kv s \<or> kv s' = kv s |` (- set ks)"
    and session_svc: "co_SessionCreate C se s = (Inr sid, s') \<Longrightarrow> svc s' = svc s"
    and service_register: "co_ServiceRegister C reg s = (None, s') \<Longrightarrow> svc s' = (svc s)(ar_ID reg \<mapsto> reg)"
    and agent_service: "co_AgentService C i s = (Inr (Some sv), s') \<Longrightarrow>
      (\<exists>rg. svc s i = Some rg \<and> consul_shows rg sv) \<and> svc s' = svc s"
    and svc_catalog: "co_Catalog C nm s = (Inr vs, s') \<Longrightarrow>
      (\<forall>v \<in> set vs. \<exists>reg \<in> ran (svc s). ar_Name reg = nm \<and> consul_shows reg v) \<and>
      (\<forall>reg \<in> ran (svc s). ar_Name reg = nm \<longrightarrow> (\<exists>v \<in> set vs. consul_shows reg v)) \<and> svc s' = svc s"

text \<open>The names for which no key of a task is a lock key.\<close>

definition consul_name :: "string \<Rightarrow> bool" where
  "consul_name n \<longleftrightarrow> n = [] \<or> \<not> is_digit (hd n) \<and> hd n \<noteq> CHR ''-''"

lemma consul_keys:
  assumes "zone_ok zone"
  shows "lock_keys (consul_lock_key zone) consul_name"
proof
  fix n n' t t'
  show "consul_lock_key zone n t = consul_lock_key zone n' t' \<longleftrightarrow> n = n' \<and> unix_second t = unix_second t'"
    using Format_prefix[OF assms assms, of t "''-'' @ n" t' "''-'' @ n'"] Format_second[OF assms, of t t']
    by (auto simp: consul_lock_key_def)
qed

lemma consul_no_lock_key:
  assumes "consul_name n"
  shows "consul_lock_key zone m t \<notin> {consulKVTasksPrefix @ n, consulKVDeletedTaskPrefix @ n, consulKVTaskLastExec @ n}"
proof -
  obtain c cs where "Format_RFC3339 zone t = c # cs" "is_digit c \<or> c = CHR ''-''" using Format_hd by blast
  then have "consul_lock_key zone m t \<noteq> consulKVTaskLastExec @ n"
    using assms by (auto simp: consul_lock_key_def consul_name_def)
  then show ?thesis by (simp add: consul_lock_key_def consul_prefixes)
qed

context consul_server
begin

lemma consul_run_registry:
  assumes "zone_ok zone"
  shows "run_registry (consul_registry C J parse zone handler ch)
    (\<lambda>g. lock_keys.locks_in (consul_lock_key zone) consul_name (dom (kv (snd g)))) unix_second consul_name"
proof (rule lock_keys.run_registryI[OF consul_keys[OF assms]])
  fix n t b and g g' :: "'s consul_state"
  assume "reg_CanRunTask (consul_registry C J parse zone handler ch) n t g = (Inr b, g')"
  then have "co_Create C (consul_lock_key zone n t) [] (snd g) = (Inr b, snd g')"
    by (cases g) (auto simp: consul_registry_def recovered_def consul_CanRunTask_def Let_def
        split: prod.splits sum.splits bool.splits option.splits)
  from create[OF this] show "b = (consul_lock_key zone n t \<notin> dom (kv (snd g))) \<and>
      dom (kv (snd g')) = insert (consul_lock_key zone n t) (dom (kv (snd g)))" by auto
next
  fix n t e and g g' :: "'s consul_state"
  assume "reg_CanRunTask (consul_registry C J parse zone handler ch) n t g = (Inl e, g')"
  then obtain r where r: "co_Create C (consul_lock_key zone n t) [] (snd g) = (r, snd g')" "r \<noteq> Inr False"
    by (cases g) (auto simp: consul_registry_def recovered_def consul_CanRunTask_def Let_def
        split: prod.splits sum.splits bool.splits option.splits)
  show "dom (kv (snd g')) = dom (kv (snd g)) \<or> dom (kv (snd g')) = insert (consul_lock_key zone n t) (dom (kv (snd g)))"
  proof (cases r)
    case (Inl e')
    then show ?thesis using create_err r(1) by (metis dom_fun_upd option.distinct(1))
  next
    case (Inr b)
    then show ?thesis using create r by (metis dom_fun_upd option.distinct(1))
  qed
next
  fix n and g :: "'s consul_state" and m t
  assume k: "consul_lock_key zone m t \<in> dom (kv (snd g))"
  let ?p = "co_Put C (consulKVDeletedTaskPrefix @ n) [] (snd g)"
  have "dom (kv (snd g)) \<subseteq> dom (kv (snd ?p))"
    using put[of "consulKVDeletedTaskPrefix @ n" "[]" "snd g"] put_err[of "consulKVDeletedTaskPrefix @ n" "[]" "snd g"]
    by (cases ?p; cases "fst ?p") auto
  moreover have "snd (snd (consul_MarkTaskDeleted C n g)) = snd ?p"
    by (cases g) (auto simp: consul_MarkTaskDeleted_def split: prod.splits option.splits)
  ultimately show "consul_lock_key zone m t \<in> dom (kv (snd (snd (reg_MarkTaskDeleted (consul_registry C J parse zone handler ch) n g))))"
    using k by (auto simp: consul_registry_def)
next
  fix n and g :: "'s consul_state" and m t
  assume n: "consul_name n" and k: "consul_lock_key zone m t \<in> dom (kv (snd g))"
  let ?ks = "[consulKVTasksPrefix @ n, consulKVDeletedTaskPrefix @ n, consulKVTaskLastExec @ n]"
  let ?t = "co_Txn C ?ks (snd g)"
  have "kv (snd ?t) = kv (snd g) \<or> kv (snd ?t) = kv (snd g) |` (- set ?ks)"
    using txn[of ?ks "snd g"] txn_err[of ?ks "snd g"] by (cases ?t; cases "fst ?t") (auto split: if_splits)
  moreover have "snd (snd (consul_ForceCleanupTask C n g)) = snd ?t"
    by (cases g) (auto simp: consul_ForceCleanupTask_def split: prod.splits sum.splits)
  ultimately show "consul_lock_key zone m t \<in> dom (kv (snd (snd (reg_ForceCleanupTask (consul_registry C J parse zone handler ch) n g))))"
    using k consul_no_lock_key[OF n, of zone m t] by (auto simp: consul_registry_def)
qed

end

section \<open>A server in memory\<close>

record mem_consul =
  mc_now :: time
  mc_kv :: "(string \<times> string) list"
  mc_svc :: "(string \<times> consul_registration) list"

definition mc_del :: "string list \<Rightarrow> mem_consul \<Rightarrow> mem_consul" where
  "mc_del ks s = s\<lparr>mc_kv := filter (\<lambda>(k, v). k \<notin> set ks) (mc_kv s)\<rparr>"

definition mc_cut :: "string \<Rightarrow> string \<Rightarrow> string \<Rightarrow> string" where
  "mc_cut p sep k =
     (if sep = [] then k
      else case find (\<lambda>i. HasPrefix (drop i k) sep) [length p..<length k] of
             None \<Rightarrow> k | Some i \<Rightarrow> take (i + length sep) k)"

definition mc_service :: "consul_registration \<Rightarrow> consul_service" where
  "mc_service reg = \<lparr>sv_ID = ar_ID reg, sv_Tags = ar_Tags reg, sv_Meta = ar_Meta reg\<rparr>"

definition mc_services :: "(consul_registration \<Rightarrow> bool) \<Rightarrow> mem_consul \<Rightarrow> consul_service list" where
  "mc_services P s = map mc_service (filter P (map snd (AList.clearjunk (mc_svc s))))"

definition mem_consul_ops :: "mem_consul consul_ops" where
  "mem_consul_ops = \<lparr>
     co_Now = mc_now,
     co_SessionCreate = (\<lambda>se s. (Inr (se_Name se), s)),
     co_SessionRenew = (\<lambda>i s. (None, s)),
     co_SessionDestroy = (\<lambda>i s. (None, s)),
     co_ServiceRegister = (\<lambda>reg s. (None, s\<lparr>mc_svc := AList.update (ar_ID reg) reg (mc_svc s)\<rparr>)),
     co_ServiceDeregister = (\<lambda>i s. (None, s\<lparr>mc_svc := AList.delete i (mc_svc s)\<rparr>)),
     co_UpdateTTL = (\<lambda>i s. (None, s)),
     co_AgentService = (\<lambda>i s. (Inr (map_option mc_service (map_of (mc_svc s) i)), s)),
     co_Catalog = (\<lambda>nm s. (Inr (mc_services (\<lambda>reg. ar_Name reg = nm) s), s)),
     co_Health = (\<lambda>nm tag s. (Inr (mc_services (\<lambda>reg. ar_Name reg = nm \<and> tag \<in> set (ar_Tags reg)) s), s)),
     co_Put = (\<lambda>k v s. (None, s\<lparr>mc_kv := AList.update k v (mc_kv s)\<rparr>)),
     co_Create = (\<lambda>k v s. if map_of (mc_kv s) k = None then (Inr True, s\<lparr>mc_kv := AList.update k v (mc_kv s)\<rparr>) else (Inr False, s)),
     co_List = (\<lambda>p s. (Inr (filter (\<lambda>(k, v). HasPrefix k p) (AList.clearjunk (mc_kv s))), s)),
     co_Keys = (\<lambda>p sep s. (Inr (remdups (map (mc_cut p sep) (filter (\<lambda>k. HasPrefix k p) (map fst (mc_kv s))))), s)),
     co_Delete = (\<lambda>k s. (None, mc_del [k] s)),
     co_DeleteTree = (\<lambda>p s. (None, s\<lparr>mc_kv := filter (\<lambda>(k, v). \<not> HasPrefix k p) (mc_kv s)\<rparr>)),
     co_Txn = (\<lambda>ks s. (Inr (True, []), mc_del ks s))\<rparr>"

definition mc_map :: "mem_consul \<Rightarrow> string \<rightharpoonup> string" where
  "mc_map s = map_of (mc_kv s)"

definition mc_regs :: "mem_consul \<Rightarrow> string \<rightharpoonup> consul_registration" where
  "mc_regs s = map_of (mc_svc s)"

lemma mc_del_map: "map_of (mc_kv (mc_del ks s)) = map_of (mc_kv s) |` (- set ks)"
proof -
  have "map_of (filter (\<lambda>(k, v). k \<notin> set ks) xs) = map_of xs |` (- set ks)" for xs :: "(string \<times> string) list"
    by (induction xs) (auto simp: restrict_map_def fun_eq_iff)
  then show ?thesis by (simp add: mc_del_def)
qed

lemma mc_cut_free:
  assumes "sep = [] \<or> \<not> sublist sep (drop (length p) k)"
  shows "mc_cut p sep k = k"
proof (cases "sep = []")
  case False
  have "\<not> HasPrefix (drop i k) sep" if "length p \<le> i" for i
  proof
    assume "HasPrefix (drop i k) sep"
    then obtain r where "drop i k = sep @ r" by (auto simp: HasPrefix_iff)
    moreover have "drop (length p) k = take (i - length p) (drop (length p) k) @ drop i k"
      using that by (metis append_take_drop_id drop_drop le_add_diff_inverse2)
    ultimately have "sublist sep (drop (length p) k)" by (metis sublist_appendI)
    with assms False show False by simp
  qed
  then have "find (\<lambda>i. HasPrefix (drop i k) sep) [length p..<length k] = None" by (simp add: find_None_iff)
  then show ?thesis by (simp add: mc_cut_def)
qed (simp add: mc_cut_def)

lemma mc_shows: "consul_shows reg (mc_service reg)"
  by (simp add: consul_shows_def mc_service_def)

lemma mc_service_set: "set (mc_services P s) = mc_service ` {reg \<in> ran (mc_regs s). P reg}"
proof -
  have d: "distinct (map fst (AList.clearjunk (mc_svc s)))" by (rule AList.distinct_clearjunk)
  have "snd ` set (AList.clearjunk (mc_svc s)) = ran (mc_regs s)"
    using ran_distinct[OF d] by (simp add: mc_regs_def AList.map_of_clearjunk)
  then show ?thesis by (auto simp: mc_services_def)
qed

interpretation mem_consul: consul_server mem_consul_ops mc_map mc_regs
proof
  fix p kvs and s s' :: mem_consul
  assume "co_List mem_consul_ops p s = (Inr kvs, s')"
  then have k: "kvs = filter (\<lambda>(k, v). HasPrefix k p) (AList.clearjunk (mc_kv s))" "s' = s" by (auto simp: mem_consul_ops_def)
  have d: "distinct (map fst (AList.clearjunk (mc_kv s)))" by (rule AList.distinct_clearjunk)
  have "(k, v) \<in> set (AList.clearjunk (mc_kv s)) \<longleftrightarrow> mc_map s k = Some v" for k v
    using map_of_eq_Some_iff[OF d, of k v] by (simp add: AList.map_of_clearjunk mc_map_def)
  then show "set kvs = {(k, v). mc_map s k = Some v \<and> HasPrefix k p} \<and> distinct (map fst kvs) \<and> mc_map s' = mc_map s"
    using d by (auto simp: k distinct_map_filter)
next
  fix p sep ks and s s' :: mem_consul
  assume *: "co_Keys mem_consul_ops p sep s = (Inr ks, s')"
    and "sep = [] \<or> (\<forall>k \<in> keys_under p (mc_map s). \<not> sublist sep (drop (length p) k))"
  then have "mc_cut p sep k = k" if "k \<in> keys_under p (mc_map s)" for k
    using that mc_cut_free by blast
  moreover have "set (filter (\<lambda>k. HasPrefix k p) (map fst (mc_kv s))) = keys_under p (mc_map s)"
    by (auto simp: keys_under_def mc_map_def map_of_dom)
  ultimately have "mc_cut p sep ` set (filter (\<lambda>k. HasPrefix k p) (map fst (mc_kv s))) = keys_under p (mc_map s)" by force
  then show "set ks = keys_under p (mc_map s) \<and> distinct ks \<and> mc_map s' = mc_map s"
    using * by (auto simp: mem_consul_ops_def)
next
  fix nm vs and s s' :: mem_consul
  assume "co_Catalog mem_consul_ops nm s = (Inr vs, s')"
  then have "set vs = mc_service ` {reg \<in> ran (mc_regs s). ar_Name reg = nm}" "s' = s"
    using mc_service_set[of "\<lambda>reg. ar_Name reg = nm" s] by (auto simp: mem_consul_ops_def)
  then show "(\<forall>v \<in> set vs. \<exists>reg \<in> ran (mc_regs s). ar_Name reg = nm \<and> consul_shows reg v) \<and>
      (\<forall>reg \<in> ran (mc_regs s). ar_Name reg = nm \<longrightarrow> (\<exists>v \<in> set vs. consul_shows reg v)) \<and> mc_regs s' = mc_regs s"
    using mc_shows by auto
qed (auto simp: mem_consul_ops_def mc_del_map mc_shows alist_simps mc_map_def mc_regs_def fun_eq_iff split: if_splits)

section \<open>Locks\<close>





definition mem_consul_empty :: mem_consul where
  "mem_consul_empty = \<lparr>mc_now = 1748432520 * Second, mc_kv = [], mc_svc = []\<rparr>"


section \<open>The cleanup of old locks\<close>

text \<open>
  When the cleanup takes a lock for old: exactly when its time was written with an offset other
  than zero and is ten minutes or more ago. The lock of a node in UTC is never old, because its time
  text is shorter than the layout and the cut takes a part of the task name with it.
\<close>

lemma lock_expired_iff:
  assumes "rfc3339_parser parse" and "zone_ok zone" and "four_digit_year zone t"
  shows "consul_expired parse now (consul_lock_key zone n t) \<longleftrightarrow>
    zone (unix_second t) \<noteq> 0 \<and> now - unix_second t * Second \<ge> CleanupHistoryExecKeysThresholdDuration"
proof -
  let ?k = "Format_RFC3339 zone t @ ''-'' @ n"
  have "consul_expired parse now (consul_lock_key zone n t) \<longleftrightarrow>
      len_RFC3339 \<le> length ?k \<and> (case parse (take len_RFC3339 ?k) of None \<Rightarrow> False
        | Some execTime \<Rightarrow> now - execTime \<ge> CleanupHistoryExecKeysThresholdDuration)"
    unfolding consul_expired_def consul_lock_key_def TrimPrefix_append Let_def not_le[symmetric] by (cases "len_RFC3339 \<le> length ?k") (simp_all only: simp_thms if_True if_False)
  then show ?thesis
    using rfc3339_parser.parse_cut[OF assms, of "''-'' @ n"] Format_length[OF assms(2,3)] by (simp add: len_RFC3339)
qed

definition consul_stuck :: "(string \<Rightarrow> time option) \<Rightarrow> (string \<rightharpoonup> string) \<Rightarrow> string set" where
  "consul_stuck parse m = {k \<in> keys_under consulKVTaskLastExec m. \<forall>now. \<not> consul_expired parse now k}"

text \<open>No key goes on with the prefix of the locks, so that no key is cut at a separator.\<close>

definition consul_uncut :: "(string \<rightharpoonup> string) \<Rightarrow> bool" where
  "consul_uncut m \<longleftrightarrow> (\<forall>k \<in> keys_under consulKVTaskLastExec m. \<not> sublist consulKVTaskLastExec (drop (length consulKVTaskLastExec) k))"

lemma consul_restrict:
  "consul_uncut m \<Longrightarrow> consul_uncut (m |` (- D))"
  "\<forall>k \<in> D. \<exists>now. consul_expired parse now k \<Longrightarrow> consul_stuck parse (m |` (- D)) = consul_stuck parse m"
  unfolding consul_uncut_def consul_stuck_def keys_under_def restrict_map_def by (auto split: if_splits) blast

context consul_server
begin

lemma batchDelete_ok: "consul_batchDelete C ks s = (None, s') \<Longrightarrow> kv s' = kv s |` (- set ks)"
  using txn[of ks s] by (auto simp: consul_batchDelete_def split: if_splits prod.splits sum.splits)

lemma delete_batches_ok: "consul_delete_batches C ks s = (None, s') \<Longrightarrow> kv s' = kv s |` (- set ks)"
proof (induction ks arbitrary: s rule: length_induct)
  case (1 ks)
  show ?case
  proof (cases "ks = []")
    case False
    let ?n = "nat CleanerBatchSize"
    obtain s1 where s1: "consul_batchDelete C (take ?n ks) s = (None, s1)" "consul_delete_batches C (drop ?n ks) s1 = (None, s')"
      using "1.prems" False consul_delete_batches.simps[of C ks s] by (auto split: prod.splits option.splits)
    have "length (drop ?n ks) < length ks" using False by (simp add: CleanerBatchSize_def)
    then have "kv s' = kv s1 |` (- set (drop ?n ks))" using "1.IH" s1(2) by blast
    moreover have "set ks = set (take ?n ks) \<union> set (drop ?n ks)" by (metis append_take_drop_id set_append)
    then have "- set (drop ?n ks) \<inter> - set (take ?n ks) = - set ks" by (simp add: Un_commute)
    ultimately show ?thesis using batchDelete_ok[OF s1(1)] by (metis restrict_restrict inf_commute)
  qed (use "1.prems" in \<open>simp add: consul_delete_batches.simps\<close>)
qed

lemma keys_all:
  assumes "co_Keys C consulKVTaskLastExec sep s = (Inr ks, s')" and "consul_uncut (kv s)"
    and "sep = [] \<or> HasPrefix sep consulKVTaskLastExec"
  shows "set ks = keys_under consulKVTaskLastExec (kv s) \<and> length ks = card (keys_under consulKVTaskLastExec (kv s)) \<and> kv s' = kv s"
proof -
  have "sep = [] \<or> (\<forall>k \<in> keys_under consulKVTaskLastExec (kv s). \<not> sublist sep (drop (length consulKVTaskLastExec) k))"
    using assms(2,3) unfolding consul_uncut_def HasPrefix_iff
    by (metis append_Nil sublist_append_rightI sublist_order.order_trans)
  from kv_keys[OF assms(1) this] show ?thesis using distinct_card[of ks] by simp
qed

lemma pages_stuck:
  assumes "consul_uncut (kv s)" and "consul_pageSize \<le> card (consul_stuck parse (kv s))"
    and "sep = [] \<or> HasPrefix sep consulKVTaskLastExec" and "\<forall>k \<in> set toDelete. \<exists>now. consul_expired parse now k"
  shows "consul_pages fuel C parse sep toDelete s \<noteq> Some (Inr ks, s')"
  using assms
proof (induction fuel arbitrary: sep toDelete s)
  case (Suc fuel)
  show ?case
  proof (cases "co_Keys C consulKVTaskLastExec sep s")
    case (Pair res s1)
    show ?thesis
    proof (cases res)
      case (Inr keys)
      let ?old = "toDelete @ filter (consul_expired parse (co_Now C s1)) keys"
      have k: "set keys = keys_under consulKVTaskLastExec (kv s)" "length keys = card (keys_under consulKVTaskLastExec (kv s))"
        and s1: "kv s1 = kv s"
        using keys_all[OF _ Suc.prems(1,3)] Pair Inr by blast+
      have "consul_stuck parse (kv s) \<subseteq> set keys" unfolding k(1) by (auto simp: consul_stuck_def)
      then have many: "consul_pageSize \<le> length keys" using Suc.prems(2) k card_mono[OF finite_set] by (metis le_trans)
      then have ne: "keys \<noteq> []" by (auto simp: consul_pageSize_def)
      then have sep: "HasPrefix (last keys) consulKVTaskLastExec" using last_in_set[OF ne] k(1) by (auto simp: keys_under_def)
      have old: "\<forall>k \<in> set ?old. \<exists>now. consul_expired parse now k" using Suc.prems(4) by auto
      have same: "consul_pages fuel C parse (last keys) ?old s1 \<noteq> Some (Inr ks, s')"
        using Suc.IH[of s1 "last keys" ?old] Suc.prems(1,2) sep old s1 by simp
      have del: "consul_pages fuel C parse (last keys) [] s2 \<noteq> Some (Inr ks, s')"
        if "consul_delete_batches C ?old s1 = (None, s2)" for s2
      proof -
        have "kv s2 = kv s |` (- set ?old)" using delete_batches_ok[OF that] s1 by (simp only:)
        then have "consul_uncut (kv s2)" "consul_stuck parse (kv s2) = consul_stuck parse (kv s)"
          using consul_restrict(1)[OF Suc.prems(1)] consul_restrict(2)[OF old] by (simp_all only:)
        then show ?thesis using Suc.IH[of s2 "last keys" "[]"] Suc.prems(2) sep by simp
      qed
      show ?thesis
        using Pair Inr ne many same del by (auto simp: Let_def split: prod.splits option.splits)
    qed (simp add: Pair)
  qed
qed simp

lemma pages_few:
  assumes "consul_uncut (kv s)" and "card (keys_under consulKVTaskLastExec (kv s)) < consul_pageSize"
  shows "\<exists>r s'. consul_tryCleanupHistoryExecKeys (Suc fuel) C parse s = Some (r, s') \<and>
    (r = None \<longrightarrow> kv s' = kv s |` (- {k \<in> keys_under consulKVTaskLastExec (kv s).
       consul_expired parse (co_Now C (snd (co_Keys C consulKVTaskLastExec [] s))) k}))"
proof (cases "co_Keys C consulKVTaskLastExec [] s")
  case (Pair res s1)
  show ?thesis
  proof (cases res)
    case (Inr keys)
    let ?old = "filter (consul_expired parse (co_Now C s1)) keys"
    have k: "set keys = keys_under consulKVTaskLastExec (kv s)" "length keys < consul_pageSize" and s1: "kv s1 = kv s"
      using keys_all[OF _ assms(1)] assms(2) Pair Inr by auto
    have old: "set ?old = {k \<in> keys_under consulKVTaskLastExec (kv s). consul_expired parse (co_Now C s1) k}" using k(1) by auto
    obtain r s2 where del: "consul_delete_batches C ?old s1 = (r, s2)" by (cases "consul_delete_batches C ?old s1")
    have "consul_tryCleanupHistoryExecKeys (Suc fuel) C parse s = Some (r, s2)"
    proof (cases "keys = []")
      case True
      then show ?thesis
        using del Pair Inr by (simp add: consul_tryCleanupHistoryExecKeys_def consul_delete_batches.simps)
    next
      case False
      then show ?thesis
        using del k(2) Pair Inr by (cases r) (simp_all add: consul_tryCleanupHistoryExecKeys_def)
    qed
    moreover have "r = None \<longrightarrow> kv s2 = kv s |` (- set ?old)" using delete_batches_ok del s1 by metis
    ultimately show ?thesis unfolding old by (simp only: Pair snd_conv) blast
  qed (simp add: Pair consul_tryCleanupHistoryExecKeys_def)
qed

end

text \<open>
  C23. The cleanup of old locks: with fewer than a thousand lock keys it returns after one listing,
  and without an error it has removed exactly the old ones. With a thousand keys that never become
  old (those of nodes in UTC), it never returns successfully, however long it runs and however the
  clock goes: the marker of the next page is no start but a separator, so that every listing has
  all keys.
\<close>

theorem consul_cleanup_returns:
  assumes "consul_server C kv svc" and "consul_uncut (kv s)"
  shows "(card (keys_under consulKVTaskLastExec (kv s)) < consul_pageSize \<longrightarrow>
      (\<forall>fuel. \<exists>r s'. consul_tryCleanupHistoryExecKeys (Suc fuel) C parse s = Some (r, s') \<and>
        (r = None \<longrightarrow> kv s' = kv s |` (- {k \<in> keys_under consulKVTaskLastExec (kv s).
           consul_expired parse (co_Now C (snd (co_Keys C consulKVTaskLastExec [] s))) k})))) \<and>
    (consul_pageSize \<le> card (consul_stuck parse (kv s)) \<longrightarrow>
      (\<forall>fuel s'. consul_tryCleanupHistoryExecKeys fuel C parse s \<noteq> Some (None, s')))"
proof (intro conjI impI allI)
  fix fuel assume "card (keys_under consulKVTaskLastExec (kv s)) < consul_pageSize"
  then show "\<exists>r s'. consul_tryCleanupHistoryExecKeys (Suc fuel) C parse s = Some (r, s') \<and>
        (r = None \<longrightarrow> kv s' = kv s |` (- {k \<in> keys_under consulKVTaskLastExec (kv s).
           consul_expired parse (co_Now C (snd (co_Keys C consulKVTaskLastExec [] s))) k}))"
    by (rule consul_server.pages_few[OF assms])
next
  fix fuel s' assume "consul_pageSize \<le> card (consul_stuck parse (kv s))"
  from consul_server.pages_stuck[OF assms(1,2) this, of "[]" "[]" fuel]
  show "consul_tryCleanupHistoryExecKeys fuel C parse s \<noteq> Some (None, s')"
    by (auto simp: consul_tryCleanupHistoryExecKeys_def split: option.splits sum.splits prod.splits)
qed

text \<open>A thousand keys of a node in UTC, from the first second of 1970.\<close>

definition mem_consul_many :: mem_consul where
  "mem_consul_many = mem_consul_empty\<lparr>mc_kv := map (\<lambda>i. (consul_lock_key (\<lambda>s. 0) (decimal i) 0, [])) [0..<consul_pageSize]\<rparr>"

lemma mem_consul_many:
  shows "consul_uncut (mc_map mem_consul_many)"
    and "consul_pageSize \<le> card (consul_stuck Parse_RFC3339 (mc_map mem_consul_many))"
proof -
  let ?key = "\<lambda>i. consul_lock_key (\<lambda>s. 0) (decimal i) 0"
  have zone: "zone_ok (\<lambda>s. 0)" by (simp add: zone_ok_def)
  have "fst (civil 0) = 1970" by code_simp
  then have year: "four_digit_year (\<lambda>s. 0) 0" by (simp add: four_digit_year_def unix_second_def)
  have dom: "keys_under consulKVTaskLastExec (mc_map mem_consul_many) = ?key ` {0..<consul_pageSize}"
    by (auto simp: keys_under_def mc_map_def mem_consul_many_def map_of_dom consul_lock_key_def)
  have "CHR ''d'' \<notin> set (Format_RFC3339 (\<lambda>s. 0) 0)" by code_simp
  moreover have "CHR ''d'' \<notin> set (decimal i)" for i using decimal_digits[of i] by (auto simp: is_digit_def)
  ultimately have "CHR ''d'' \<notin> set (drop (length consulKVTaskLastExec) (?key i))" for i
    by (simp add: consul_lock_key_def)
  moreover have "CHR ''d'' \<in> set consulKVTaskLastExec" by (simp add: consulKVTaskLastExec_def)
  ultimately show "consul_uncut (mc_map mem_consul_many)"
    unfolding consul_uncut_def dom by (auto dest: set_mono_sublist)
  have "consul_stuck Parse_RFC3339 (mc_map mem_consul_many) = ?key ` {0..<consul_pageSize}"
    unfolding consul_stuck_def dom using lock_expired_iff[OF strict.rfc3339_parser_axioms zone year] by auto
  moreover have "inj_on ?key {0..<consul_pageSize}"
    using lock_keys.key_inj[OF consul_keys[OF zone]] by (auto simp: inj_on_def consul_lock_key_def)
  ultimately show "consul_pageSize \<le> card (consul_stuck Parse_RFC3339 (mc_map mem_consul_many))"
    by (simp add: card_image)
qed

theorem consul_cleanup_returns_witness:
  "(\<forall>fuel. \<exists>r. consul_tryCleanupHistoryExecKeys (Suc fuel) mem_consul_ops Parse_RFC3339 mem_consul_empty = Some r) \<and>
   (\<forall>fuel s. consul_tryCleanupHistoryExecKeys fuel mem_consul_ops Parse_RFC3339 mem_consul_many \<noteq> Some (None, s))"
proof
  have "keys_under consulKVTaskLastExec (mc_map mem_consul_empty) = {}"
    by (simp add: keys_under_def mc_map_def mem_consul_empty_def)
  then have "consul_uncut (mc_map mem_consul_empty)"
    and "card (keys_under consulKVTaskLastExec (mc_map mem_consul_empty)) < consul_pageSize"
    by (simp_all add: consul_uncut_def consul_pageSize_def)
  then show "\<forall>fuel. \<exists>r. consul_tryCleanupHistoryExecKeys (Suc fuel) mem_consul_ops Parse_RFC3339 mem_consul_empty = Some r"
    using consul_cleanup_returns[OF mem_consul.consul_server_axioms, of mem_consul_empty Parse_RFC3339, THEN conjunct1] by metis
  show "\<forall>fuel s. consul_tryCleanupHistoryExecKeys fuel mem_consul_ops Parse_RFC3339 mem_consul_many \<noteq> Some (None, s)"
    using consul_cleanup_returns[OF mem_consul.consul_server_axioms mem_consul_many(1)] mem_consul_many(2) by blast
qed

section \<open>The watchers\<close>

text \<open>What a receiver knows that applies every event to its copy.\<close>

definition replay_node :: "NodeEvent \<Rightarrow> (string \<rightharpoonup> Node) \<Rightarrow> (string \<rightharpoonup> Node)" where
  "replay_node e m =
     (if NE_Type e = NodeEventTypePut then m(ID (NE_Node e) \<mapsto> NE_Node e)
      else if NE_Type e = NodeEventTypeDelete then m(ID (NE_Node e) := None) else m)"

definition replay_task :: "TaskMetaEvent \<Rightarrow> (string \<rightharpoonup> TaskMeta) \<Rightarrow> (string \<rightharpoonup> TaskMeta)" where
  "replay_task e m =
     (if TE_Type e = TaskEventTypePut then m(Name (TE_Task e) \<mapsto> TE_Task e)
      else if TE_Type e = TaskEventTypeDelete then m(Name (TE_Task e) := None) else m)"

text \<open>Events that set keys of a map to what they are in \<open>new\<close>, and miss no difference, lead from
  \<open>old\<close> to \<open>new\<close>. A sequence of handler calls leads to what the last call has shown.\<close>

lemma fold_changes:
  assumes "\<forall>e \<in> set es. \<forall>m. upd e m = m(key e := new (key e))" and "\<forall>x. old x \<noteq> new x \<longrightarrow> x \<in> key ` set es"
  shows "fold upd es old = new"
proof -
  have "fold upd es m = (\<lambda>x. if x \<in> key ` set es then new x else m x)" for m
    using assms(1) by (induction es arbitrary: m) (auto simp: fun_eq_iff)
  then show ?thesis using assms(2) by (auto simp: fun_eq_iff)
qed

lemma watch_replay:
  assumes "\<And>d snap. ok snap \<Longrightarrow> good d \<Longrightarrow>
      snd (H None d snap) = cur d \<and> ok (cur d) \<and> fold upd (fst (H None d snap)) (shown snap) = shown (cur d)"
    and "ok snap" and "\<forall>d \<in> set calls. good d"
  shows "fold upd (watch_events H (map (Pair None) calls) snap) (shown snap) = shown (last (snap # map cur calls))"
  using assms(2,3)
proof (induction calls arbitrary: snap)
  case (Cons d calls)
  have h: "snd (H None d snap) = cur d" "ok (cur d)" "fold upd (fst (H None d snap)) (shown snap) = shown (cur d)"
    using assms(1)[of snap d] Cons.prems by simp_all
  show ?case using Cons.IH[OF h(2)] Cons.prems h(1,3) by (cases "H None d snap") simp
qed simp

subsection \<open>Nodes\<close>

definition consul_listed :: "consul_service list \<Rightarrow> string \<rightharpoonup> Node" where
  "consul_listed services = map_of (rev (map (\<lambda>service. (sv_ID service, consul_watch_node service)) services))"

definition node_snapshot :: "(string \<times> Node) list \<Rightarrow> bool" where
  "node_snapshot m \<longleftrightarrow> distinct (map fst m) \<and> (\<forall>i node. map_of m i = Some node \<longrightarrow> ID node = i)"

lemma current_nodes_step:
  "map_of (consul_current_nodes services m) = map_of m ++ consul_listed services \<and>
   (node_snapshot m \<longrightarrow> node_snapshot (consul_current_nodes services m))"
proof (induction services arbitrary: m)
  case (Cons sv services)
  have "node_snapshot m \<Longrightarrow> node_snapshot (AList.update (sv_ID sv) (consul_watch_node sv) m)"
    by (auto simp: node_snapshot_def distinct_keys_update consul_watch_node_def alist_simps)
  then show ?case using Cons[of "AList.update (sv_ID sv) (consul_watch_node sv) m"]
    by (auto simp: consul_listed_def alist_simps map_add_def fun_eq_iff split: option.splits)
qed (simp add: consul_listed_def)

lemma current_nodes:
  "map_of (consul_current_nodes services []) = consul_listed services" "node_snapshot (consul_current_nodes services [])"
  using current_nodes_step[of services "[]"] by (simp_all add: node_snapshot_def)

lemma snapshot_mem: "node_snapshot m \<Longrightarrow> (i, node) \<in> set m \<longleftrightarrow> map_of m i = Some node \<and> ID node = i"
  using map_of_eq_Some_iff[of m i node] by (auto simp: node_snapshot_def)

lemma nodes_handler_replay:
  assumes "node_snapshot snap"
  shows "snd (consul_nodes_handler None services snap) = consul_current_nodes services [] \<and>
    fold replay_node (fst (consul_nodes_handler None services snap)) (map_of snap) = consul_listed services"
proof -
  let ?cur = "consul_current_nodes services []"
  let ?es = "List.map_filter (consul_node_put snap) ?cur @ List.map_filter (consul_node_gone ?cur) snap"
  have "fold replay_node ?es (map_of snap) = map_of ?cur"
  proof (rule fold_changes[where key = "\<lambda>e. ID (NE_Node e)"])
    show "\<forall>e \<in> set ?es. \<forall>m. replay_node e m = m(ID (NE_Node e) := map_of ?cur (ID (NE_Node e)))"
      using snapshot_mem[OF assms] snapshot_mem[OF current_nodes(2)]
      by (auto simp: set_map_filter consul_node_put_def consul_node_gone_def replay_node_def
          NodeEventTypePut_def NodeEventTypeDelete_def split: option.splits if_splits)
    show "\<forall>x. map_of snap x \<noteq> map_of ?cur x \<longrightarrow> x \<in> (\<lambda>e. ID (NE_Node e)) ` set ?es"
    proof (intro allI impI)
      fix x assume ne: "map_of snap x \<noteq> map_of ?cur x"
      show "x \<in> (\<lambda>e. ID (NE_Node e)) ` set ?es"
      proof (cases "map_of ?cur x")
        case (Some node)
        then have "(x, node) \<in> set ?cur" "ID node = x"
          using map_of_SomeD[OF Some] current_nodes(2)[of services] unfolding node_snapshot_def by blast+
        moreover have "consul_node_put snap (x, node) = Some \<lparr>NE_Type = NodeEventTypePut, NE_Node = node\<rparr>"
          using ne Some by (auto simp: consul_node_put_def split: option.splits)
        ultimately show ?thesis by (force simp: set_map_filter image_iff)
      next
        case None
        then obtain node where n: "map_of snap x = Some node" using ne by auto
        then have "(x, node) \<in> set snap" "ID node = x"
          using map_of_SomeD[OF n] assms unfolding node_snapshot_def by blast+
        moreover have "consul_node_gone ?cur (x, node) = Some \<lparr>NE_Type = NodeEventTypeDelete, NE_Node = node\<rparr>"
          using None by (simp add: consul_node_gone_def)
        ultimately show ?thesis by (force simp: set_map_filter image_iff)
      qed
    qed
  qed
  then show ?thesis by (simp add: consul_nodes_handler_def watch_send_def Let_def current_nodes(1))
qed

text \<open>
  A receiver that applies the node events to its copy has, after every call of the watch
  handler, exactly the nodes of that call: the last of the services with each ID, nothing else.
\<close>

theorem consul_node_watch_replays:
  "fold replay_node (consul_WatchNodes (map (Pair None) (calls @ [services]))) Map.empty = consul_listed services"
proof -
  have "fold replay_node (watch_events consul_nodes_handler (map (Pair None) (calls @ [services])) []) (map_of []) =
      map_of (last ([] # map (\<lambda>d. consul_current_nodes d []) (calls @ [services])))"
  proof (rule watch_replay[where ok = node_snapshot and good = "\<lambda>d. True"])
    show "node_snapshot []" by (simp add: node_snapshot_def)
  qed (use nodes_handler_replay current_nodes in auto)
  then show ?thesis
    by (simp add: consul_WatchNodes_def replay_node_def NodeEventTypeChanged_def NodeEventTypePut_def
        NodeEventTypeDelete_def current_nodes(1))
qed

subsection \<open>Tasks\<close>

text \<open>Every pair is the text of a task under its own name, and no name starts with a slash.\<close>

definition consul_pairs_typed :: "json_codec \<Rightarrow> (string \<times> string) list \<Rightarrow> bool" where
  "consul_pairs_typed J pairs \<longleftrightarrow> (\<forall>(key, data) \<in> set pairs. \<exists>task. js_unTaskMeta J data = Some task \<and>
     key = consulKVTasksPrefix @ Name task \<and> \<not> HasPrefix (Name task) ''/'')"

definition consul_tasks_of :: "json_codec \<Rightarrow> (string \<rightharpoonup> string) \<Rightarrow> string \<rightharpoonup> TaskMeta" where
  "consul_tasks_of J m n = Option.bind (m (consulKVTasksPrefix @ n)) (js_unTaskMeta J)"

definition pair_snapshot :: "json_codec \<Rightarrow> (string \<times> string) list \<Rightarrow> bool" where
  "pair_snapshot J m \<longleftrightarrow> distinct (map fst m) \<and> consul_pairs_typed J m"

lemma fold_update_pairs:
  "map_of (fold (\<lambda>(k, v). AList.update k v) pairs m) = map_of m ++ map_of (rev pairs) \<and>
   (distinct (map fst m) \<longrightarrow> distinct (map fst (fold (\<lambda>(k, v). AList.update k v) pairs m)))"
  by (induction pairs arbitrary: m)
    (auto simp: alist_simps map_add_def fun_eq_iff distinct_keys_update split: option.splits)

lemma pair_map:
  "map_of (fold (\<lambda>(k, v). AList.update k v) pairs []) = map_of (rev pairs)"
  "consul_pairs_typed J pairs \<Longrightarrow> pair_snapshot J (fold (\<lambda>(k, v). AList.update k v) pairs [])"
proof -
  let ?m = "fold (\<lambda>(k, v). AList.update k v) pairs []"
  show m: "map_of ?m = map_of (rev pairs)" using fold_update_pairs[of pairs "[]"] by simp
  have d: "distinct (map fst ?m)" using fold_update_pairs[of pairs "[]"] by simp
  have "set ?m \<subseteq> set pairs"
    using map_of_eq_Some_iff[OF d] m map_of_SomeD[of "rev pairs"] by auto
  then show "consul_pairs_typed J pairs \<Longrightarrow> pair_snapshot J ?m" using d by (auto simp: pair_snapshot_def consul_pairs_typed_def)
qed

lemma typed_entry:
  assumes "pair_snapshot J m" and "(key, data) \<in> set m"
  obtains task where "js_unTaskMeta J data = Some task" "key = consulKVTasksPrefix @ Name task"
    "TrimPrefix (TrimPrefix key consulKVTasksPrefix) ''/'' = Name task" "map_of m key = Some data"
    "consul_tasks_of J (map_of m) (Name task) = Some task"
proof -
  obtain task where t: "js_unTaskMeta J data = Some task" "key = consulKVTasksPrefix @ Name task" "\<not> HasPrefix (Name task) ''/''"
    using assms by (auto simp: pair_snapshot_def consul_pairs_typed_def)
  moreover have "map_of m key = Some data" using assms map_of_is_SomeI by (auto simp: pair_snapshot_def)
  ultimately show thesis using that[of task] by (simp add: TrimPrefix_def[of "Name task"] consul_tasks_of_def)
qed

lemma typed_task:
  assumes "pair_snapshot J m" and "map_of m (consulKVTasksPrefix @ n) = Some data"
  shows "\<exists>task. js_unTaskMeta J data = Some task \<and> Name task = n"
  using typed_entry[OF assms(1) map_of_SomeD[OF assms(2)]] by (metis same_append_eq)

lemma tasks_handler_replay:
  assumes old: "pair_snapshot J cur" and new: "consul_pairs_typed J pairs"
  shows "fold replay_task (fst (consul_tasks_handler J None pairs cur)) (consul_tasks_of J (map_of cur)) =
    consul_tasks_of J (map_of (rev pairs))"
proof -
  let ?new = "fold (\<lambda>(k, v). AList.update k v) pairs []"
  let ?es = "List.map_filter (consul_task_put J cur) ?new @ List.map_filter (consul_task_gone ?new) cur"
  note snap = pair_map(2)[OF new]
  have "fold replay_task ?es (consul_tasks_of J (map_of cur)) = consul_tasks_of J (map_of ?new)"
  proof (rule fold_changes[where key = "\<lambda>e. Name (TE_Task e)"], intro ballI allI)
    fix e m assume "e \<in> set ?es"
    then consider key data where "(key, data) \<in> set ?new" "consul_task_put J cur (key, data) = Some e"
      | key data where "(key, data) \<in> set cur" "consul_task_gone ?new (key, data) = Some e"
      by (auto simp: set_map_filter)
    then show "replay_task e m = m(Name (TE_Task e) := consul_tasks_of J (map_of ?new) (Name (TE_Task e)))"
    proof cases
      case 1
      obtain task where t: "js_unTaskMeta J data = Some task" "consul_tasks_of J (map_of ?new) (Name task) = Some task"
        by (rule typed_entry[OF snap 1(1)])
      then have "e = \<lparr>TE_Type = TaskEventTypePut, TE_Task = task\<rparr>"
        using 1(2) by (simp add: consul_task_put_def split: if_splits)
      then show ?thesis using t(2) by (simp add: replay_task_def)
    next
      case 2
      obtain task :: TaskMeta where t: "key = consulKVTasksPrefix @ Name task" "TrimPrefix (TrimPrefix key consulKVTasksPrefix) ''/'' = Name task"
        by (rule typed_entry[OF old 2(1)])
      have "map_of ?new key = None" and e: "e = \<lparr>TE_Type = TaskEventTypeDelete, TE_Task = zero_task\<lparr>Name := Name task\<rparr>\<rparr>"
        using 2(2) t(2) by (simp_all add: consul_task_gone_def split: if_splits)
      then have "consul_tasks_of J (map_of ?new) (Name task) = None" using t(1) by (simp add: consul_tasks_of_def)
      then show ?thesis using e by (simp add: replay_task_def TaskEventTypePut_def TaskEventTypeDelete_def)
    qed
  next
    show "\<forall>n. consul_tasks_of J (map_of cur) n \<noteq> consul_tasks_of J (map_of ?new) n \<longrightarrow> n \<in> (\<lambda>e. Name (TE_Task e)) ` set ?es"
    proof (intro allI impI)
      fix n assume ne: "consul_tasks_of J (map_of cur) n \<noteq> consul_tasks_of J (map_of ?new) n"
      let ?k = "consulKVTasksPrefix @ n"
      show "n \<in> (\<lambda>e. Name (TE_Task e)) ` set ?es"
      proof (cases "map_of ?new ?k")
        case (Some data)
        obtain task where t: "js_unTaskMeta J data = Some task" "Name task = n" using typed_task[OF snap Some] by blast
        then have "consul_task_put J cur (?k, data) = Some \<lparr>TE_Type = TaskEventTypePut, TE_Task = task\<rparr>"
          using ne Some by (auto simp: consul_task_put_def consul_tasks_of_def)
        then show ?thesis using map_of_SomeD[OF Some] t(2) by (force simp: set_map_filter image_iff)
      next
        case None
        then obtain data where d: "map_of cur ?k = Some data" using ne by (cases "map_of cur ?k") (auto simp: consul_tasks_of_def)
        obtain task :: TaskMeta where
          t: "?k = consulKVTasksPrefix @ Name task" "TrimPrefix (TrimPrefix ?k consulKVTasksPrefix) ''/'' = Name task"
          by (rule typed_entry[OF old map_of_SomeD[OF d]])
        then have "consul_task_gone ?new (?k, data) = Some \<lparr>TE_Type = TaskEventTypeDelete, TE_Task = zero_task\<lparr>Name := n\<rparr>\<rparr>"
          using None by (simp add: consul_task_gone_def)
        then show ?thesis using map_of_SomeD[OF d] by (force simp: set_map_filter image_iff)
      qed
    qed
  qed
  then show ?thesis by (simp add: consul_tasks_handler_def watch_send_def Let_def pair_map(1))
qed

lemma fold_update_distinct:
  "distinct (map fst (m @ pairs)) \<Longrightarrow> fold (\<lambda>(k, v). AList.update k v) pairs m = m @ pairs"
proof (induction pairs arbitrary: m)
  case (Cons p pairs)
  have "k \<notin> fst ` set m \<Longrightarrow> AList.update k v m = m @ [(k, v)]" for k v by (induction m) auto
  then show ?case using Cons by (cases p) auto
qed simp

lemma initial_events_length:
  "length (List.map_filter (consul_task_put J []) pairs) = length (filter (\<lambda>(k, d). js_unTaskMeta J d \<noteq> None) pairs)"
  by (induction pairs) (auto simp: List.map_filter_simps consul_task_put_def split: option.splits)

lemma initial_replay:
  assumes "distinct (map fst pairs)" and "consul_pairs_typed J pairs"
  shows "fold replay_task (List.map_filter (consul_task_put J []) pairs) Map.empty = consul_tasks_of J (map_of pairs)"
    and "consul_initial_pairs J pairs = pairs" and "map_of (rev pairs) = map_of pairs"
proof -
  have same: "fold (\<lambda>(k, v). AList.update k v) pairs [] = pairs" using fold_update_distinct[of "[]" pairs] assms(1) by simp
  then show rev: "map_of (rev pairs) = map_of pairs" using pair_map(1)[of pairs] by simp
  have "filter (\<lambda>(k, d). js_unTaskMeta J d \<noteq> None) pairs = pairs"
    using assms(2) by (force simp: filter_id_conv consul_pairs_typed_def)
  then show "consul_initial_pairs J pairs = pairs" using same by (simp add: consul_initial_pairs_def)
  have "fst (consul_tasks_handler J None pairs []) = List.map_filter (consul_task_put J []) pairs"
    by (simp add: consul_tasks_handler_def watch_send_def same)
  moreover have "pair_snapshot J []" by (simp add: pair_snapshot_def consul_pairs_typed_def)
  moreover have "consul_tasks_of J (map_of []) = Map.empty" by (simp add: fun_eq_iff consul_tasks_of_def)
  ultimately show "fold replay_task (List.map_filter (consul_task_put J []) pairs) Map.empty = consul_tasks_of J (map_of pairs)"
    using tasks_handler_replay[of J "[]" pairs] assms(2) rev by simp
qed

lemma tasks_watch_replay:
  assumes "pair_snapshot J snap" and "\<forall>pairs \<in> set calls. consul_pairs_typed J pairs" and "map_of (rev snap) = map_of snap"
  shows "fold replay_task (watch_events (consul_tasks_handler J) (map (Pair None) calls) snap) (consul_tasks_of J (map_of snap)) =
    consul_tasks_of J (map_of (rev (last (snap # calls))))"
proof -
  let ?cur = "\<lambda>ps. fold (\<lambda>(k, v). AList.update k v) ps []"
  have "fold replay_task (watch_events (consul_tasks_handler J) (map (Pair None) calls) snap) (consul_tasks_of J (map_of snap)) =
      consul_tasks_of J (map_of (last (snap # map ?cur calls)))"
  proof (rule watch_replay[where ok = "pair_snapshot J" and good = "consul_pairs_typed J"])
    show "snd (consul_tasks_handler J None ps cur) = ?cur ps \<and> pair_snapshot J (?cur ps) \<and>
        fold replay_task (fst (consul_tasks_handler J None ps cur)) (consul_tasks_of J (map_of cur)) = consul_tasks_of J (map_of (?cur ps))"
      if "pair_snapshot J cur" "consul_pairs_typed J ps" for ps cur
      using tasks_handler_replay[OF that] pair_map(1)[of ps] pair_map(2)[OF that(2)]
      by (simp add: consul_tasks_handler_def watch_send_def Let_def)
  qed (use assms in auto)
  then show ?thesis using assms(3) by (cases calls rule: rev_cases) (simp_all add: pair_map(1))
qed

text \<open>
  C22. \<open>WatchTaskEvent\<close> returns, in a context that does not end, exactly when the tasks that can be read
  at the start fit into the channel: it sends their events itself, before anybody can receive. When it
  returns and the tasks are stored under their names, a receiver that applies the events to its copy
  has, after every call of the watch handler, exactly the tasks of that call.
\<close>

theorem consul_task_watch:
  assumes "co_List C consulKVTasksPrefix s = (Inr initial, s1)" and "distinct (map fst initial)"
  shows "(consul_WatchTaskEvent C J None (map (Pair None) calls) (r, s) \<noteq> None \<longleftrightarrow>
      length (filter (\<lambda>(k, d). js_unTaskMeta J d \<noteq> None) initial) \<le> TaskEventChannelSize) \<and>
    (\<forall>events g. (\<forall>pairs \<in> set (initial # calls). consul_pairs_typed J pairs) \<longrightarrow>
      consul_WatchTaskEvent C J None (map (Pair None) calls) (r, s) = Some (Inr events, g) \<longrightarrow>
      fold replay_task events Map.empty = consul_tasks_of J (map_of (rev (last (initial # calls)))))"
proof (intro conjI allI impI)
  show "consul_WatchTaskEvent C J None (map (Pair None) calls) (r, s) \<noteq> None \<longleftrightarrow>
      length (filter (\<lambda>(k, d). js_unTaskMeta J d \<noteq> None) initial) \<le> TaskEventChannelSize"
    using initial_events_length[of J initial] assms(1) by (simp add: consul_WatchTaskEvent_def consul_send_initial_def)
  fix events g
  assume typed: "\<forall>pairs \<in> set (initial # calls). consul_pairs_typed J pairs"
    and ev: "consul_WatchTaskEvent C J None (map (Pair None) calls) (r, s) = Some (Inr events, g)"
  then have first: "consul_pairs_typed J initial" and rest: "\<forall>pairs \<in> set calls. consul_pairs_typed J pairs" by simp_all
  note init = initial_replay[OF assms(2) first]
  have "events = List.map_filter (consul_task_put J []) initial @ watch_events (consul_tasks_handler J) (map (Pair None) calls) initial"
    using ev assms(1) init(2) by (auto simp: consul_WatchTaskEvent_def consul_send_initial_def Let_def split: if_splits)
  moreover have "pair_snapshot J initial" using assms(2) first by (simp add: pair_snapshot_def)
  ultimately show "fold replay_task events Map.empty = consul_tasks_of J (map_of (rev (last (initial # calls))))"
    using tasks_watch_replay[OF _ rest init(3)] init(1) by simp
qed

definition demo_task :: TaskMeta where
  "demo_task = zero_task\<lparr>Name := ''job'', CronFormat := ''0 * * * * *''\<rparr>"

definition demo_pair :: "string \<times> string" where
  "demo_pair = (consulKVTasksPrefix @ ''job'', mark_fields (task_fields demo_task))"

theorem consul_task_watch_witness:
  "\<exists>events g. consul_WatchTaskEvent mem_consul_ops text_codec None (map (Pair None) [[demo_pair]])
     (NewConsulRegistry, mem_consul_empty) = Some (Inr events, g) \<and>
     fold replay_task events Map.empty = consul_tasks_of text_codec (map_of [demo_pair])"
proof -
  have "js_TaskMeta text_codec demo_task = Inr (snd demo_pair)" by (simp add: text_codec_def demo_pair_def)
  from text_codec.unTaskMeta[OF this] have "consul_pairs_typed text_codec [demo_pair]"
    by (auto simp: consul_pairs_typed_def demo_pair_def demo_task_def HasPrefix_def)
  moreover have "consul_pairs_typed text_codec []" by (simp add: consul_pairs_typed_def)
  moreover have ls: "co_List mem_consul_ops consulKVTasksPrefix mem_consul_empty = (Inr [], mem_consul_empty)"
    by (simp add: mem_consul_ops_def mem_consul_empty_def)
  moreover have "\<exists>events g. consul_WatchTaskEvent mem_consul_ops text_codec None (map (Pair None) [[demo_pair]])
     (NewConsulRegistry, mem_consul_empty) = Some (Inr events, g)"
    using ls by (simp add: consul_WatchTaskEvent_def consul_send_initial_def)
  ultimately show ?thesis
    using consul_task_watch[of mem_consul_ops mem_consul_empty "[]" mem_consul_empty text_codec "[[demo_pair]]" NewConsulRegistry]
    by auto
qed

section \<open>Nodes\<close>



lemma consul_node_shows:
  "consul_shows reg v \<Longrightarrow> consul_node parse v = consul_node parse (mc_service reg)"
  by (simp add: consul_shows_def consul_node_def meta_get_def consul_status_def mc_service_def)

context consul_server
begin

lemma catalog_nodes:
  assumes "consul_GetNodes C parse (r, s) = (Inr nodes, g)"
  shows "set nodes = (\<lambda>reg. consul_node parse (mc_service reg)) ` {reg \<in> ran (svc s). ar_Name reg = cr_serviceName r}"
proof -
  obtain vs s' where v: "co_Catalog C (cr_serviceName r) s = (Inr vs, s')" "nodes = map (consul_node parse) vs"
    using assms by (auto simp: consul_GetNodes_def split: prod.splits sum.splits)
  note c = svc_catalog[OF v(1)]
  have "consul_node parse v \<in> (\<lambda>reg. consul_node parse (mc_service reg)) ` {reg \<in> ran (svc s). ar_Name reg = cr_serviceName r}"
    if "v \<in> set vs" for v using c that consul_node_shows by fast
  moreover have "consul_node parse (mc_service reg) \<in> consul_node parse ` set vs"
    if "reg \<in> ran (svc s)" "ar_Name reg = cr_serviceName r" for reg
    using c that consul_node_shows by (metis image_eqI)
  ultimately show ?thesis unfolding v(2) by auto
qed

text \<open>A registration replaces the node of its service ID in the list.\<close>

lemma register_nodes:
  assumes "\<forall>i reg. svc s i = Some reg \<longrightarrow> ar_ID reg = i" and "svc s' = (svc s)(ar_ID reg \<mapsto> reg)"
    and "ar_Name reg = cr_serviceName r" and "cr_serviceName r' = cr_serviceName r"
    and "consul_GetNodes C parse (r, s) = (Inr before, g)" and "consul_GetNodes C parse (r', s') = (Inr nodes, g')"
  shows "set nodes = insert (consul_node parse (mc_service reg)) {n \<in> set before. ID n \<noteq> ar_ID reg}"
proof -
  have "ran (svc s') = insert reg {x \<in> ran (svc s). ar_ID x \<noteq> ar_ID reg}"
    using assms(1,2) by (auto simp: ran_def split: if_splits)
  then show ?thesis
    using catalog_nodes[OF assms(5)] catalog_nodes[OF assms(6)] assms(3,4)
    by (auto simp: consul_node_def mc_service_def image_iff)
qed

end

text \<open>What is read back from the metadata of a node.\<close>

definition consul_reg_of :: "(int \<Rightarrow> int) \<Rightarrow> consul_registration \<Rightarrow> Node \<Rightarrow> bool" where
  "consul_reg_of zone reg node \<longleftrightarrow> ar_ID reg = ID node \<and> ar_Tags reg = [Status node] \<and>
     map_of (ar_Meta reg) = map_of (consul_node_meta zone node)"


context consul_server
begin

text \<open>The registration that \<open>Register\<close> and \<open>UpdateStatus\<close> leave for a node.\<close>

lemma Register_svc:
  assumes "consul_Register C zone handler node (r, s) = (None, r1, s1)"
  shows "cr_serviceName r1 = cr_serviceName r \<and> (\<exists>reg. svc s1 = (svc s)(ar_ID reg \<mapsto> reg) \<and>
    ar_Name reg = cr_serviceName r \<and> consul_reg_of zone reg node)"
proof -
  obtain sid s0 where s0: "co_SessionCreate C \<lparr>se_Name = ID node @ ''-session'', se_TTL = consulSessionTTL,
      se_LockDelay = 5 * Second, se_Behavior = ''delete''\<rparr> s = (Inr sid, s0)"
    using assms by (auto simp: consul_Register_def split: prod.splits sum.splits)
  define reg where "reg = \<lparr>ar_ID = ID node, ar_Name = cr_serviceName r, ar_Tags = [Status node],
      ar_Meta = consul_node_meta zone node, ar_Check = consul_node_check (ID node)\<rparr>"
  have "co_ServiceRegister C reg s0 = (None, s1)" and r1: "cr_serviceName r1 = cr_serviceName r"
    using assms s0 by (auto simp: consul_Register_def reg_def Let_def split: prod.splits option.splits)
  then have "svc s1 = (svc s)(ar_ID reg \<mapsto> reg)" using service_register session_svc[OF s0] by metis
  moreover have "ar_Name reg = cr_serviceName r" "consul_reg_of zone reg node" by (simp_all add: consul_reg_of_def reg_def)
  ultimately show ?thesis using r1 by blast
qed

lemma UpdateStatus_svc:
  assumes "consul_UpdateStatus C zone (ID node) status (r, s) = (None, r', s')"
    and "svc s (ID node) = Some reg" and "consul_reg_of zone reg node"
    and "now = co_Now C (snd (co_AgentService C (ID node) s))"
  shows "r' = r \<and> (\<exists>reg'. svc s' = (svc s)(ar_ID reg' \<mapsto> reg') \<and> ar_Name reg' = cr_serviceName r \<and>
    consul_reg_of zone reg' (node\<lparr>Status := status, LastAlive := now\<rparr>))"
proof -
  obtain v u where v: "co_AgentService C (ID node) s = (Inr (Some v), u)"
    using assms(1) by (auto simp: consul_UpdateStatus_def split: prod.splits sum.splits option.splits)
  have u: "svc u = svc s" and now: "now = co_Now C u" and vreg: "consul_shows reg v"
    using agent_service[OF v] v assms(2,4) by auto
  define reg' where "reg' = \<lparr>ar_ID = ID node, ar_Name = cr_serviceName r, ar_Tags = [status],
      ar_Meta = AList.update ''last_alive'' (Format_RFC3339 zone (co_Now C u)) (sv_Meta v), ar_Check = consul_node_check (ID node)\<rparr>"
  have "co_ServiceRegister C reg' u = (None, s')" and r: "r' = r"
    using assms(1) v by (auto simp: consul_UpdateStatus_def reg'_def Let_def split: prod.splits option.splits)
  then have "svc s' = (svc s)(ar_ID reg' \<mapsto> reg')" using service_register u by metis
  moreover have "consul_reg_of zone reg' (node\<lparr>Status := status, LastAlive := now\<rparr>)"
    using vreg assms(3) by (auto simp: now consul_reg_of_def reg'_def consul_shows_def consul_node_meta_def alist_simps fun_eq_iff)
  moreover have "ar_Name reg' = cr_serviceName r" by (simp add: reg'_def)
  ultimately show ?thesis using r by blast
qed

end




end
