(* ===== verification/Zookeeper_Registry.thy ===== *)
theory Zookeeper_Registry
  imports Backend
begin

text \<open>
  The ZooKeeper back end, \<open>src/zookeeper.go\<close>. The client is the parameter \<open>zk_ops\<close>: the calls the code
  makes, on the state \<open>'s\<close> of the server. The state of the back end is the struct of the process and
  the server. What the code relies on is the locale \<open>zk_server\<close>; \<open>mem_zk_ops\<close> is a server in memory that
  has its laws.
\<close>

section \<open>The client\<close>

datatype zk_error = ZkNoNode | ZkNodeExists | ZkBadVersion | ZkNotEmpty | ZkOther string

definition zk_err :: "zk_error \<Rightarrow> error" where
  "zk_err e = ErrBackend (case e of ZkNoNode \<Rightarrow> ''zk: node does not exist'' | ZkNodeExists \<Rightarrow> ''zk: node already exists''
     | ZkBadVersion \<Rightarrow> ''zk: version conflict'' | ZkNotEmpty \<Rightarrow> ''zk: node has children'' | ZkOther m \<Rightarrow> m)"

text \<open>
  \<open>zk_Get\<close> gives the data and the version, \<open>zk_Set\<close> takes the expected version (-1: any). \<open>zk_Delete\<close> is
  with version -1. \<open>zk_ChildrenW\<close> also sets a watch, which fires once: the client sends one event
  and closes the channel. \<open>zk_Multi ks\<close> is a transaction of deletes, with the error of each.
\<close>

record 's zk_ops =
  zk_Now :: "'s \<Rightarrow> time"
  zk_Exists :: "string \<Rightarrow> 's \<Rightarrow> (zk_error + bool) \<times> 's"
  zk_Create :: "string \<Rightarrow> string \<Rightarrow> 's \<Rightarrow> zk_error option \<times> 's"
  zk_CreateProtectedEphemeralSequential :: "string \<Rightarrow> string \<Rightarrow> 's \<Rightarrow> (zk_error + string) \<times> 's"
  zk_Get :: "string \<Rightarrow> 's \<Rightarrow> (zk_error + string \<times> int) \<times> 's"
  zk_Set :: "string \<Rightarrow> string \<Rightarrow> int \<Rightarrow> 's \<Rightarrow> zk_error option \<times> 's"
  zk_Delete :: "string \<Rightarrow> 's \<Rightarrow> zk_error option \<times> 's"
  zk_Children :: "string \<Rightarrow> 's \<Rightarrow> (zk_error + string list) \<times> 's"
  zk_ChildrenW :: "string \<Rightarrow> 's \<Rightarrow> (zk_error + string list) \<times> 's"
  zk_Multi :: "string list \<Rightarrow> 's \<Rightarrow> (zk_error + zk_error option list) \<times> 's"

datatype zk_event_type =
    EventNodeCreated
  | EventNodeDeleted
  | EventNodeDataChanged
  | EventNodeChildrenChanged
  | EventSession
  | EventNotWatching
  | EventNone

record zk_event =
  ze_Type :: zk_event_type
  ze_Path :: string
  ze_Err :: "error option"

text \<open>What a receive from a closed watch channel gives.\<close>

definition zk_zero_event :: zk_event where
  "zk_zero_event = \<lparr>ze_Type = EventNone, ze_Path = [], ze_Err = None\<rparr>"

definition zkPrefix :: string where "zkPrefix = ''/distributed_cron''"
definition zkNodePrefix :: string where "zkNodePrefix = ''/distributed_cron/nodes''"
definition zkTasksPrefix :: string where "zkTasksPrefix = ''/distributed_cron/tasks''"
definition zkDeletedTasks :: string where "zkDeletedTasks = ''/distributed_cron/deleted_tasks''"
definition zkTaskLastExec :: string where "zkTaskLastExec = ''/distributed_cron/last_exec''"

lemmas zk_prefixes = zkPrefix_def zkNodePrefix_def zkTasksPrefix_def zkDeletedTasks_def zkTaskLastExec_def

record zookeeperRegistry =
  zr_nodePath :: string
  zr_cleaner :: "EventCleaner option"

definition NewZookeeperRegistry :: zookeeperRegistry where
  "NewZookeeperRegistry = \<lparr>zr_nodePath = [], zr_cleaner = None\<rparr>"

type_synonym 's zk_state = "zookeeperRegistry \<times> 's"

section \<open>Nodes\<close>

definition zk_create_missing :: "'s zk_ops \<Rightarrow> string \<Rightarrow> 's \<Rightarrow> error option \<times> 's" where
  "zk_create_missing Z p s =
     (case zk_Create Z p [] s of
        (Some e, s) \<Rightarrow> if e = ZkNodeExists then (None, s) else (Some (ErrWrapped p (zk_err e)), s)
      | (None, s) \<Rightarrow> (None, s))"

definition zk_ensure_path :: "'s zk_ops \<Rightarrow> string \<Rightarrow> 's \<Rightarrow> error option \<times> 's" where
  "zk_ensure_path Z p s =
     (case zk_Exists Z p s of
        (Inl e, s) \<Rightarrow> if e \<noteq> ZkNoNode then (Some (ErrWrapped p (zk_err e)), s) else zk_create_missing Z p s
      | (Inr exists, s) \<Rightarrow> if \<not> exists then zk_create_missing Z p s else (None, s))"

fun zk_ensure_paths :: "'s zk_ops \<Rightarrow> string list \<Rightarrow> 's \<Rightarrow> error option \<times> 's" where
  "zk_ensure_paths Z [] s = (None, s)"
| "zk_ensure_paths Z (p # rootPaths) s =
     (case zk_ensure_path Z p s of
        (Some err, s) \<Rightarrow> (Some err, s)
      | (None, s) \<Rightarrow> zk_ensure_paths Z rootPaths s)"

text \<open>\<open>handler\<close> is what \<open>batchDeleteExecKeys\<close> answers to the cleaner.\<close>

definition zk_Register ::
  "'s zk_ops \<Rightarrow> json_codec \<Rightarrow> EventHandler \<Rightarrow> Node \<Rightarrow> 's zk_state \<Rightarrow> error option \<times> 's zk_state" where
  "zk_Register Z J handler node = (\<lambda>(r, s).
     case zk_ensure_paths Z [zkPrefix, zkNodePrefix, zkTasksPrefix, zkDeletedTasks, zkTaskLastExec] s of
       (Some err, s) \<Rightarrow> (Some err, r, s)
     | (None, s) \<Rightarrow>
         (case js_Node J node of
            Inl err \<Rightarrow> (Some (ErrWrapped [] err), r, s)
          | Inr data \<Rightarrow>
              (case zk_CreateProtectedEphemeralSequential Z (path_Join zkNodePrefix (ID node)) data s of
                 (Inl e, s) \<Rightarrow> (Some (ErrWrapped [] (zk_err e)), r, s)
               | (Inr pathCreated, s) \<Rightarrow>
                   (None, r\<lparr>zr_nodePath := pathCreated, zr_cleaner := Some (registry_cleaner handler)\<rparr>, s))))"

text \<open>The loops that look for a node by its ID: its path, the node and the version.\<close>

fun zk_find_node ::
  "'s zk_ops \<Rightarrow> json_codec \<Rightarrow> string \<Rightarrow> string list \<Rightarrow> 's \<Rightarrow> (string \<times> Node \<times> int) option \<times> 's" where
  "zk_find_node Z J nodeID [] s = (None, s)"
| "zk_find_node Z J nodeID (child # children) s =
     (let fullPath = path_Join zkNodePrefix child in
      case zk_Get Z fullPath s of
        (Inl e, s) \<Rightarrow> zk_find_node Z J nodeID children s
      | (Inr (data, version), s) \<Rightarrow>
          (case js_unNode J data of
             None \<Rightarrow> zk_find_node Z J nodeID children s
           | Some node \<Rightarrow>
               if ID node = nodeID then (Some (fullPath, node, version), s)
               else zk_find_node Z J nodeID children s))"

definition zk_delete :: "'s zk_ops \<Rightarrow> string \<Rightarrow> 's \<Rightarrow> error option \<times> 's" where
  "zk_delete Z p s = (case zk_Delete Z p s of (e, s) \<Rightarrow> (map_option zk_err e, s))"

definition zk_Unregister :: "'s zk_ops \<Rightarrow> json_codec \<Rightarrow> string \<Rightarrow> 's zk_state \<Rightarrow> error option \<times> 's zk_state" where
  "zk_Unregister Z J nodeID = (\<lambda>(r, s).
     if zr_nodePath r \<noteq> [] then (case zk_delete Z (zr_nodePath r) s of (err, s) \<Rightarrow> (err, r, s))
     else case zk_Children Z zkNodePrefix s of
            (Inl e, s) \<Rightarrow> (Some (ErrWrapped [] (zk_err e)), r, s)
          | (Inr children, s) \<Rightarrow>
              (case zk_find_node Z J nodeID children s of
                 (Some (fullPath, _), s) \<Rightarrow> (case zk_delete Z fullPath s of (err, s) \<Rightarrow> (err, r, s))
               | (None, s) \<Rightarrow> (None, r, s)))"

definition zk_write_node :: "'s zk_ops \<Rightarrow> json_codec \<Rightarrow> string \<Rightarrow> Node \<Rightarrow> int \<Rightarrow> 's \<Rightarrow> error option \<times> 's" where
  "zk_write_node Z J p node version s =
     (case js_Node J node of
        Inl err \<Rightarrow> (Some (ErrWrapped p err), s)
      | Inr newData \<Rightarrow>
          (case zk_Set Z p newData version s of
             (Some e, s) \<Rightarrow> (Some (ErrWrapped p (zk_err e)), s)
           | (None, s) \<Rightarrow> (None, s)))"

text \<open>The node at the path of this process, if it is the one asked for.\<close>

definition zk_own_node :: "'s zk_ops \<Rightarrow> json_codec \<Rightarrow> string \<Rightarrow> zookeeperRegistry \<Rightarrow> 's \<Rightarrow> (Node \<times> int) option \<times> 's" where
  "zk_own_node Z J nodeID r s =
     (if zr_nodePath r \<noteq> [] then
        case zk_Get Z (zr_nodePath r) s of
          (Inl e, s) \<Rightarrow> (None, s)
        | (Inr (data, version), s) \<Rightarrow>
            (case js_unNode J data of
               None \<Rightarrow> (None, s)
             | Some currentNode \<Rightarrow> (if ID currentNode = nodeID then Some (currentNode, version) else None, s))
      else (None, s))"

definition zk_updateNodeField ::
  "'s zk_ops \<Rightarrow> json_codec \<Rightarrow> string \<Rightarrow> (Node \<Rightarrow> Node) \<Rightarrow> 's zk_state \<Rightarrow> error option \<times> 's zk_state" where
  "zk_updateNodeField Z J nodeID updateFn = (\<lambda>(r, s).
     case zk_own_node Z J nodeID r s of
       (Some (currentNode, version), s) \<Rightarrow>
         (case zk_write_node Z J (zr_nodePath r) (updateFn currentNode) version s of (err, s) \<Rightarrow> (err, r, s))
     | (None, s) \<Rightarrow>
         (case zk_Children Z zkNodePrefix s of
            (Inl e, s) \<Rightarrow> (Some (ErrWrapped nodeID (zk_err e)), r, s)
          | (Inr children, s) \<Rightarrow>
              (case zk_find_node Z J nodeID children s of
                 (Some (fullPath, node, version), s) \<Rightarrow>
                   (case zk_write_node Z J fullPath (updateFn node) version s of (err, s) \<Rightarrow> (err, r, s))
               | (None, s) \<Rightarrow> (Some ErrNodeNotFound, r, s))))"

definition zk_UpdateStatus ::
  "'s zk_ops \<Rightarrow> json_codec \<Rightarrow> string \<Rightarrow> NodeStatus \<Rightarrow> 's zk_state \<Rightarrow> error option \<times> 's zk_state" where
  "zk_UpdateStatus Z J nodeID status = zk_updateNodeField Z J nodeID (\<lambda>node. node\<lparr>Status := status\<rparr>)"

definition zk_UpdateHeartbeat ::
  "'s zk_ops \<Rightarrow> json_codec \<Rightarrow> string \<Rightarrow> time \<Rightarrow> 's zk_state \<Rightarrow> error option \<times> 's zk_state" where
  "zk_UpdateHeartbeat Z J nodeID now = zk_updateNodeField Z J nodeID (\<lambda>node. node\<lparr>LastAlive := now\<rparr>)"

fun zk_read_nodes :: "'s zk_ops \<Rightarrow> json_codec \<Rightarrow> string list \<Rightarrow> 's \<Rightarrow> Node list \<times> 's" where
  "zk_read_nodes Z J [] s = ([], s)"
| "zk_read_nodes Z J (child # children) s =
     (case zk_Get Z (path_Join zkNodePrefix child) s of
        (Inl e, s) \<Rightarrow> zk_read_nodes Z J children s
      | (Inr (data, version), s) \<Rightarrow>
          (case zk_read_nodes Z J children s of (nodes, s) \<Rightarrow>
             (case js_unNode J data of None \<Rightarrow> nodes | Some node \<Rightarrow> node # nodes, s)))"

definition zk_GetNodes :: "'s zk_ops \<Rightarrow> json_codec \<Rightarrow> 's zk_state \<Rightarrow> (error + Node list) \<times> 's zk_state" where
  "zk_GetNodes Z J = (\<lambda>(r, s).
     case zk_Children Z zkNodePrefix s of
       (Inl e, s) \<Rightarrow> (Inl (ErrWrapped [] (zk_err e)), r, s)
     | (Inr children, s) \<Rightarrow> (case zk_read_nodes Z J children s of (nodes, s) \<Rightarrow> (Inr nodes, r, s)))"

definition zk_GetWorkingNodes :: "'s zk_ops \<Rightarrow> json_codec \<Rightarrow> 's zk_state \<Rightarrow> (error + Node list) \<times> 's zk_state" where
  "zk_GetWorkingNodes Z J g =
     (case zk_GetNodes Z J g of
        (Inl err, g) \<Rightarrow> (Inl err, g)
      | (Inr nodes, g) \<Rightarrow> (Inr (filter (\<lambda>node. Status node = NodeStatusWorking) nodes), g))"

definition zk_CleanupExpiredNodes :: "duration \<Rightarrow> time \<Rightarrow> 's zk_state \<Rightarrow> error option \<times> 's zk_state" where
  "zk_CleanupExpiredNodes timeout now g = (None, g)"

section \<open>The node watcher\<close>

text \<open>
  A watch channel: \<open>WatchOpen\<close> before its event, \<open>WatchClosed\<close> after it, \<open>WatchNil\<close> when there is none. A
  receive from an open channel gives the next event or, as \<open>None\<close>, that the channel was closed; from a
  closed one it gives \<open>None\<close> at once; from a nil one it waits for ever.
\<close>

datatype zk_watch = WatchOpen | WatchClosed | WatchNil

definition zk_reestablishWatch :: "'s zk_ops \<Rightarrow> 's \<Rightarrow> error option \<times> 's" where
  "zk_reestablishWatch Z s =
     (case zk_Exists Z zkNodePrefix s of
        (Inl e, s) \<Rightarrow> (Some (ErrWrapped [] (zk_err e)), s)
      | (Inr exists, s) \<Rightarrow>
          if \<not> exists then (Some (ErrBackend zkNodePrefix), s)
          else case zk_ChildrenW Z zkNodePrefix s of
                 (Inl e, s) \<Rightarrow> (Some (ErrWrapped [] (zk_err e)), s)
               | (Inr _, s) \<Rightarrow> (None, s))"

text \<open>One turn of the goroutine: the events sent, the watcher and the delay after it.\<close>

definition zk_nodes_turn ::
  "'s zk_ops \<Rightarrow> zk_event option \<Rightarrow> duration \<Rightarrow> 's \<Rightarrow> NodeEvent list \<times> zk_watch \<times> duration \<times> 's" where
  "zk_nodes_turn Z received retryDelay s =
     (case received of
        None \<Rightarrow>
          (case zk_reestablishWatch Z s of
             (None, s) \<Rightarrow> ([], WatchOpen, Second, s)
           | (Some err, s) \<Rightarrow> ([], WatchClosed, min (retryDelay * 2) (30 * Second), s))
      | Some event \<Rightarrow>
          if ze_Type event = EventNotWatching \<or> ze_Type event = EventNodeDeleted \<or> ze_Type event = EventSession
          then case zk_reestablishWatch Z s of
                 (None, s) \<Rightarrow> ([], WatchOpen, retryDelay, s)
               | (Some err, s) \<Rightarrow> ([], WatchClosed, retryDelay, s)
          else if ze_Type event \<noteq> EventNodeChildrenChanged then ([], WatchClosed, retryDelay, s)
          else case zk_ChildrenW Z zkNodePrefix s of
                 (Inl e, s) \<Rightarrow> ([], WatchClosed, retryDelay, s)
               | (Inr newNodes, s) \<Rightarrow>
                   ([\<lparr>NE_Type = NodeEventTypeChanged, NE_Node = zero_node\<rparr>], WatchOpen, retryDelay, s))"

text \<open>The loop: each input is what happens to the server and, for an open channel, what is received.\<close>

fun zk_nodes_loop ::
  "'s zk_ops \<Rightarrow> (('s \<Rightarrow> 's) \<times> zk_event option) list \<Rightarrow> zk_watch \<Rightarrow> duration \<Rightarrow> 's \<Rightarrow> NodeEvent list \<times> zk_watch \<times> duration \<times> 's" where
  "zk_nodes_loop Z [] watcher retryDelay s = ([], watcher, retryDelay, s)"
| "zk_nodes_loop Z ((env, received) # inputs) watcher retryDelay s =
     (case zk_nodes_turn Z (if watcher = WatchOpen then received else None) retryDelay (env s) of
        (events, watcher, retryDelay, s) \<Rightarrow>
          (case zk_nodes_loop Z inputs watcher retryDelay s of (events', rest) \<Rightarrow> (events @ events', rest)))"

definition zk_WatchNodes ::
  "'s zk_ops \<Rightarrow> (('s \<Rightarrow> 's) \<times> zk_event option) list \<Rightarrow> 's zk_state \<Rightarrow> (error + NodeEvent list) \<times> 's zk_state" where
  "zk_WatchNodes Z inputs = (\<lambda>(r, s).
     case zk_ChildrenW Z zkNodePrefix s of
       (Inl e, s) \<Rightarrow> (Inl (ErrWrapped [] (zk_err e)), r, s)
     | (Inr _, s) \<Rightarrow>
         (case zk_nodes_loop Z inputs WatchOpen Second s of (events, _, _, s) \<Rightarrow>
            (Inr (\<lparr>NE_Type = NodeEventTypeChanged, NE_Node = zero_node\<rparr> # events), r, s)))"

section \<open>Tasks\<close>

definition zk_PutTask :: "'s zk_ops \<Rightarrow> json_codec \<Rightarrow> TaskMeta \<Rightarrow> 's zk_state \<Rightarrow> error option \<times> 's zk_state" where
  "zk_PutTask Z J task = (\<lambda>(r, s).
     case js_TaskMeta J task of
       Inl err \<Rightarrow> (Some (ErrWrapped [] err), r, s)
     | Inr data \<Rightarrow>
         let taskPath = path_Join zkTasksPrefix (Name task) in
         case zk_Exists Z taskPath s of (res, s) \<Rightarrow>
         case res of
           Inl e \<Rightarrow>
             if e \<noteq> ZkNoNode then (Some (ErrWrapped taskPath (zk_err e)), r, s)
             else (case zk_Create Z taskPath data s of (e, s) \<Rightarrow> (map_option zk_err e, r, s))
         | Inr exists \<Rightarrow>
             (case (if exists then zk_Set Z taskPath data (- 1) s else zk_Create Z taskPath data s) of
                (e, s) \<Rightarrow> (map_option zk_err e, r, s)))"

fun zk_store_tasks ::
  "'s zk_ops \<Rightarrow> json_codec \<Rightarrow> string list \<Rightarrow> (string \<times> TaskMeta) list \<Rightarrow> 's \<Rightarrow> (string \<times> TaskMeta) list \<times> 's" where
  "zk_store_tasks Z J [] tasks s = (tasks, s)"
| "zk_store_tasks Z J (child # children) tasks s =
     (case zk_Get Z (path_Join zkTasksPrefix child) s of
        (Inl e, s) \<Rightarrow> zk_store_tasks Z J children tasks s
      | (Inr (data, version), s) \<Rightarrow>
          zk_store_tasks Z J children (case js_unTaskMeta J data of
            None \<Rightarrow> tasks | Some task \<Rightarrow> AList.update (Name task) task tasks) s)"

definition zk_GetAllTasks ::
  "'s zk_ops \<Rightarrow> json_codec \<Rightarrow> 's zk_state \<Rightarrow> (error + (string \<times> TaskMeta) list) \<times> 's zk_state" where
  "zk_GetAllTasks Z J = (\<lambda>(r, s).
     case zk_Children Z zkTasksPrefix s of
       (Inl e, s) \<Rightarrow> if e = ZkNoNode then (Inr [], r, s) else (Inl (ErrWrapped [] (zk_err e)), r, s)
     | (Inr children, s) \<Rightarrow> (case zk_store_tasks Z J children [] s of (tasks, s) \<Rightarrow> (Inr tasks, r, s)))"

text \<open>The put events for those of the children that can be read.\<close>

fun zk_child_puts :: "'s zk_ops \<Rightarrow> json_codec \<Rightarrow> string list \<Rightarrow> 's \<Rightarrow> TaskMetaEvent list \<times> 's" where
  "zk_child_puts Z J [] s = ([], s)"
| "zk_child_puts Z J (child # children) s =
     (case zk_Get Z (path_Join zkTasksPrefix child) s of
        (Inl e, s) \<Rightarrow> zk_child_puts Z J children s
      | (Inr (data, version), s) \<Rightarrow>
          (case zk_child_puts Z J children s of (events, s) \<Rightarrow>
             (case js_unTaskMeta J data of
                None \<Rightarrow> events
              | Some taskMeta \<Rightarrow> \<lparr>TE_Type = TaskEventTypePut, TE_Task = taskMeta\<rparr> # events, s)))"

definition zk_delete_event :: "string \<Rightarrow> TaskMetaEvent" where
  "zk_delete_event child = \<lparr>TE_Type = TaskEventTypeDelete, TE_Task = zero_task\<lparr>Name := child\<rparr>\<rparr>"

text \<open>
  One turn of the task watcher with the event received; \<open>currentTasks\<close> are the children it knows.
  After a failed \<open>ChildrenW\<close> the watch is the nil channel that came with the error.
\<close>

definition zk_tasks_turn ::
  "'s zk_ops \<Rightarrow> json_codec \<Rightarrow> zk_event \<Rightarrow> string list \<Rightarrow> 's \<Rightarrow> TaskMetaEvent list \<times> zk_watch \<times> string list \<times> 's" where
  "zk_tasks_turn Z J event currentTasks s =
     (if ze_Err event \<noteq> None then ([], WatchClosed, currentTasks, s)
      else if ze_Type event = EventNodeChildrenChanged then
        (case zk_ChildrenW Z zkTasksPrefix s of
           (Inl e, s) \<Rightarrow> ([], WatchNil, currentTasks, s)
         | (Inr newChildren, s) \<Rightarrow>
             (case zk_child_puts Z J (filter (\<lambda>child. child \<notin> set currentTasks) newChildren) s of (puts, s) \<Rightarrow>
                (puts @ map zk_delete_event (filter (\<lambda>child. child \<notin> set newChildren) currentTasks), WatchOpen, newChildren, s)))
      else if ze_Type event = EventNodeDataChanged then
        (if path_Base (ze_Path event) \<in> set currentTasks then
           case zk_Get Z (ze_Path event) s of
             (Inl e, s) \<Rightarrow> ([], WatchClosed, currentTasks, s)
           | (Inr (data, version), s) \<Rightarrow>
               (case js_unTaskMeta J data of
                  None \<Rightarrow> []
                | Some taskMeta \<Rightarrow> [\<lparr>TE_Type = TaskEventTypePut, TE_Task = taskMeta\<rparr>], WatchClosed, currentTasks, s)
         else ([], WatchClosed, currentTasks, s))
      else if ze_Type event = EventNodeDeleted \<and> path_Base (ze_Path event) \<in> set currentTasks then
        ([zk_delete_event (path_Base (ze_Path event))], WatchClosed, removeAll (path_Base (ze_Path event)) currentTasks, s)
      else ([], WatchClosed, currentTasks, s))"

text \<open>The loop. A nil channel is never ready, so the loop waits; a closed one is always ready, with
  the zero event.\<close>

fun zk_tasks_loop ::
  "'s zk_ops \<Rightarrow> json_codec \<Rightarrow> (('s \<Rightarrow> 's) \<times> zk_event option) list \<Rightarrow> zk_watch \<Rightarrow> string list \<Rightarrow> 's \<Rightarrow> TaskMetaEvent list \<times> zk_watch \<times> 's" where
  "zk_tasks_loop Z J [] childWatch currentTasks s = ([], childWatch, s)"
| "zk_tasks_loop Z J ((env, received) # inputs) childWatch currentTasks s =
     (if childWatch = WatchNil then zk_tasks_loop Z J inputs childWatch currentTasks (env s)
      else
        let event = (if childWatch = WatchOpen then (case received of Some e \<Rightarrow> e | None \<Rightarrow> zk_zero_event) else zk_zero_event)
        in case zk_tasks_turn Z J event currentTasks (env s) of
             (events, childWatch, currentTasks, s) \<Rightarrow>
               (case zk_tasks_loop Z J inputs childWatch currentTasks s of (events', rest) \<Rightarrow> (events @ events', rest)))"

text \<open>\<open>None\<close>: the call waits for ever. The events of the tasks there are at first are sent before the
  channel is returned, so they must fit into it.\<close>

definition zk_WatchTaskEvent ::
  "'s zk_ops \<Rightarrow> json_codec \<Rightarrow> (('s \<Rightarrow> 's) \<times> zk_event option) list \<Rightarrow> 's zk_state \<Rightarrow>
   ((error + TaskMetaEvent list) \<times> 's zk_state) option" where
  "zk_WatchTaskEvent Z J inputs = (\<lambda>(r, s).
     case zk_ChildrenW Z zkTasksPrefix s of
       (Inl e, s) \<Rightarrow> Some (Inl (ErrWrapped [] (zk_err e)), r, s)
     | (Inr tasks, s) \<Rightarrow>
         (case zk_child_puts Z J tasks s of (puts, s) \<Rightarrow>
            if length puts > TaskEventChannelSize then None
            else case zk_tasks_loop Z J inputs WatchOpen tasks s of (events, _, s) \<Rightarrow> Some (Inr (puts @ events), r, s)))"

definition zk_MarkTaskDeleted :: "'s zk_ops \<Rightarrow> string \<Rightarrow> 's zk_state \<Rightarrow> error option \<times> 's zk_state" where
  "zk_MarkTaskDeleted Z taskName = (\<lambda>(r, s).
     case zk_Create Z (path_Join zkDeletedTasks taskName) [] s of
       (Some e, s) \<Rightarrow> if e \<noteq> ZkNodeExists then (Some (ErrWrapped taskName (zk_err e)), r, s) else (None, r, s)
     | (None, s) \<Rightarrow> (None, r, s))"

definition zk_GetDeletedTaskNames :: "'s zk_ops \<Rightarrow> 's zk_state \<Rightarrow> string list \<times> 's zk_state" where
  "zk_GetDeletedTaskNames Z = (\<lambda>(r, s).
     case zk_Children Z (path_Clean zkDeletedTasks) s of
       (Inl e, s) \<Rightarrow> ([], r, s)
     | (Inr deletedTasks, s) \<Rightarrow> (deletedTasks, r, s))"

text \<open>The watcher of the deleted tasks: the number of signals of its loop.\<close>

fun zk_deleted_loop ::
  "'s zk_ops \<Rightarrow> (('s \<Rightarrow> 's) \<times> zk_event option) list \<Rightarrow> zk_watch \<Rightarrow> 's \<Rightarrow> nat \<times> zk_watch \<times> 's" where
  "zk_deleted_loop Z [] childWatch s = (0, childWatch, s)"
| "zk_deleted_loop Z ((env, received) # inputs) childWatch s =
     (let event = (if childWatch = WatchOpen then (case received of Some e \<Rightarrow> e | None \<Rightarrow> zk_zero_event) else zk_zero_event)
      in if ze_Type event = EventNodeChildrenChanged
         then case zk_ChildrenW Z zkDeletedTasks (env s) of
                (Inl e, s) \<Rightarrow> zk_deleted_loop Z inputs WatchClosed s
              | (Inr _, s) \<Rightarrow> (case zk_deleted_loop Z inputs WatchOpen s of (n, rest) \<Rightarrow> (n + 1, rest))
         else zk_deleted_loop Z inputs WatchClosed (env s))"

definition zk_WatchDeletedTaskEvent ::
  "'s zk_ops \<Rightarrow> (('s \<Rightarrow> 's) \<times> zk_event option) list \<Rightarrow> 's zk_state \<Rightarrow> (error + nat) \<times> 's zk_state" where
  "zk_WatchDeletedTaskEvent Z inputs = (\<lambda>(r, s).
     case zk_Exists Z zkDeletedTasks s of
       (Inl e, s) \<Rightarrow> (Inl (ErrWrapped [] (zk_err e)), r, s)
     | (Inr exists, s) \<Rightarrow>
         (case (if \<not> exists then zk_create_missing Z zkDeletedTasks s else (None, s)) of
            (Some err, s) \<Rightarrow> (Inl err, r, s)
          | (None, s) \<Rightarrow>
              (case zk_ChildrenW Z zkDeletedTasks s of
                 (Inl e, s) \<Rightarrow> (Inl (ErrWrapped [] (zk_err e)), r, s)
               | (Inr _, s) \<Rightarrow> (case zk_deleted_loop Z inputs WatchOpen s of (n, _, s) \<Rightarrow> (Inr (1 + n), r, s)))))"

section \<open>The execution lock\<close>

definition zk_lock_key :: "(int \<Rightarrow> int) \<Rightarrow> string \<Rightarrow> time \<Rightarrow> string" where
  "zk_lock_key zone taskName execTime =
     path_Join zkTaskLastExec (Format_RFC3339 zone execTime @ ''-'' @ taskName)"

text \<open>A nil cleaner (before \<open>Register\<close>) makes the call panic, after the node was created. \<open>zone\<close> is the
  location of the process.\<close>

definition zk_CanRunTask ::
  "'s zk_ops \<Rightarrow> (int \<Rightarrow> int) \<Rightarrow> select_choice \<Rightarrow> string \<Rightarrow> time \<Rightarrow> 's zk_state \<Rightarrow> (error + bool) go \<times> 's zk_state" where
  "zk_CanRunTask Z zone ch taskName execTime = (\<lambda>(r, s).
     let key = zk_lock_key zone taskName execTime in
     case zk_Create Z key [] s of
       (Some e, s) \<Rightarrow>
         if e = ZkNodeExists then (Inr (Inr False), r, s) else (Inr (Inl (ErrWrapped key (zk_err e))), r, s)
     | (None, s) \<Rightarrow>
         (case zr_cleaner r of
            None \<Rightarrow> (Inl NilDeref, r, s)
          | Some cleaner \<Rightarrow>
              (case send_event ch \<lparr>Key = key, Time = execTime\<rparr> cleaner of
                 (err, cleaner) \<Rightarrow> (Inr (Inr True), r\<lparr>zr_cleaner := Some cleaner\<rparr>, s))))"

definition zk_RemoveTaskDeleted :: "'s zk_ops \<Rightarrow> string \<Rightarrow> 's zk_state \<Rightarrow> error option \<times> 's zk_state" where
  "zk_RemoveTaskDeleted Z taskName = (\<lambda>(r, s).
     case zk_Delete Z (path_Join zkDeletedTasks taskName) s of
       (Some e, s) \<Rightarrow> if e \<noteq> ZkNoNode then (Some (ErrWrapped taskName (zk_err e)), r, s) else (None, r, s)
     | (None, s) \<Rightarrow> (None, r, s))"

text \<open>The first result with an error, and its path.\<close>

fun zk_first_error :: "string list \<Rightarrow> zk_error option list \<Rightarrow> error option" where
  "zk_first_error (key # keys) (Some e # resp) = Some (ErrWrapped key (zk_err e))"
| "zk_first_error (key # keys) (None # resp) = zk_first_error keys resp"
| "zk_first_error _ _ = None"

definition zk_batchDeleteExecKeys :: "'s zk_ops \<Rightarrow> string list \<Rightarrow> 's \<Rightarrow> error option \<times> 's" where
  "zk_batchDeleteExecKeys Z keys s =
     (case zk_Multi Z keys s of
        (Inl e, s) \<Rightarrow> (Some (ErrWrapped [] (zk_err e)), s)
      | (Inr resp, s) \<Rightarrow> (zk_first_error keys resp, s))"

text \<open>
  The cleanup of old locks. The time is cut out of the name of the child, which panics when the
  child is shorter. The result is the number of nodes deleted.
\<close>

definition zk_expired :: "(string \<Rightarrow> time option) \<Rightarrow> time \<Rightarrow> string \<Rightarrow> bool" where
  "zk_expired parse now child =
     (case parse (take len_RFC3339 child) of
        None \<Rightarrow> False
      | Some nodeTime \<Rightarrow> now - nodeTime > CleanupHistoryExecKeysThresholdDuration)"

fun zk_cleanup_children ::
  "'s zk_ops \<Rightarrow> (string \<Rightarrow> time option) \<Rightarrow> string list \<Rightarrow> nat \<Rightarrow> 's \<Rightarrow> nat go \<times> 's" where
  "zk_cleanup_children Z parse [] counter s = (Inr counter, s)"
| "zk_cleanup_children Z parse (child # children) counter s =
     (if length child < len_RFC3339 then (Inl IndexOutOfRange, s)
      else if zk_expired parse (zk_Now Z s) child
      then case zk_Delete Z (zkTaskLastExec @ ''/'' @ child) s of
             (Some e, s) \<Rightarrow> zk_cleanup_children Z parse children counter s
           | (None, s) \<Rightarrow> zk_cleanup_children Z parse children (counter + 1) s
      else zk_cleanup_children Z parse children counter s)"

definition zk_tryCleanupHistoryExecKeys ::
  "'s zk_ops \<Rightarrow> (string \<Rightarrow> time option) \<Rightarrow> 's \<Rightarrow> error option go \<times> 's" where
  "zk_tryCleanupHistoryExecKeys Z parse s =
     (case zk_Children Z zkTaskLastExec s of
        (Inl e, s) \<Rightarrow> (Inr (Some (zk_err e)), s)
      | (Inr children, s) \<Rightarrow>
          (case zk_cleanup_children Z parse children 0 s of
             (Inl p, s) \<Rightarrow> (Inl p, s)
           | (Inr counter, s) \<Rightarrow> (Inr None, s)))"

text \<open>The cleanup at the start and on every tick; \<open>env\<close> is what happens to the server before a tick. A
  panic is not recovered: it ends the process.\<close>

fun zk_cleanupHistoryExecKeys ::
  "'s zk_ops \<Rightarrow> (string \<Rightarrow> time option) \<Rightarrow> ('s \<Rightarrow> 's) list \<Rightarrow> 's \<Rightarrow> unit go \<times> 's" where
  "zk_cleanupHistoryExecKeys Z parse [] s =
     (case zk_tryCleanupHistoryExecKeys Z parse s of (Inl p, s) \<Rightarrow> (Inl p, s) | (Inr err, s) \<Rightarrow> (Inr (), s))"
| "zk_cleanupHistoryExecKeys Z parse (env # ticks) s =
     (case zk_tryCleanupHistoryExecKeys Z parse s of
        (Inl p, s) \<Rightarrow> (Inl p, s)
      | (Inr err, s) \<Rightarrow> zk_cleanupHistoryExecKeys Z parse ticks (env s))"

section \<open>Cleaning up\<close>

definition zk_ForceCleanupTask :: "'s zk_ops \<Rightarrow> string \<Rightarrow> 's zk_state \<Rightarrow> error option \<times> 's zk_state" where
  "zk_ForceCleanupTask Z taskName = (\<lambda>(r, s).
     case zk_Delete Z (path_Join zkTasksPrefix taskName) s of (_, s) \<Rightarrow>
     case zk_Delete Z (path_Join zkDeletedTasks taskName) s of (_, s) \<Rightarrow>
     case zk_Delete Z (path_Join zkTaskLastExec taskName) s of (_, s) \<Rightarrow> (None, r, s))"

text \<open>The recursion over the tree of nodes, with fuel for its depth; \<open>None\<close>: it has not ended.\<close>

fun zk_deleteRecursively :: "nat \<Rightarrow> 's zk_ops \<Rightarrow> string \<Rightarrow> 's \<Rightarrow> (zk_error option \<times> 's) option"
  and zk_delete_children :: "nat \<Rightarrow> 's zk_ops \<Rightarrow> string \<Rightarrow> string list \<Rightarrow> 's \<Rightarrow> 's option" where
  "zk_deleteRecursively 0 Z p s = None"
| "zk_deleteRecursively (Suc fuel) Z p s =
     (case zk_Children Z p s of
        (Inl e, s) \<Rightarrow> Some (zk_Delete Z p s)
      | (Inr children, s) \<Rightarrow>
          (case zk_delete_children fuel Z p children s of
             None \<Rightarrow> None
           | Some s \<Rightarrow> Some (zk_Delete Z p s)))"
| "zk_delete_children fuel Z p [] s = Some s"
| "zk_delete_children fuel Z p (child # children) s =
     (case zk_deleteRecursively fuel Z (p @ ''/'' @ child) s of
        None \<Rightarrow> None
      | Some (_, s) \<Rightarrow> zk_delete_children fuel Z p children s)"

definition zk_clean_dir :: "nat \<Rightarrow> 's zk_ops \<Rightarrow> string \<Rightarrow> 's \<Rightarrow> 's option" where
  "zk_clean_dir fuel Z dir s =
     (case zk_Children Z dir s of
        (Inl e, s) \<Rightarrow> Some s
      | (Inr children, s) \<Rightarrow> zk_delete_children fuel Z dir children s)"

definition zk_ForceCleanupAllTasks :: "nat \<Rightarrow> 's zk_ops \<Rightarrow> 's zk_state \<Rightarrow> (error option \<times> 's zk_state) option" where
  "zk_ForceCleanupAllTasks fuel Z = (\<lambda>(r, s).
     map_option (\<lambda>s. (None, r, s))
       (Option.bind (zk_clean_dir fuel Z zkTasksPrefix s) (\<lambda>s.
        Option.bind (zk_clean_dir fuel Z zkDeletedTasks s) (zk_clean_dir fuel Z zkTaskLastExec))))"

text \<open>The back end behind the interface; \<open>cleanAll\<close> is what \<open>zk_ForceCleanupAllTasks\<close> returns.\<close>

definition zk_registry ::
  "'s zk_ops \<Rightarrow> json_codec \<Rightarrow> (int \<Rightarrow> int) \<Rightarrow> EventHandler \<Rightarrow> select_choice \<Rightarrow>
   ('s zk_state \<Rightarrow> error option \<times> 's zk_state) \<Rightarrow> 's zk_state registry_ops" where
  "zk_registry Z J zone handler ch cleanAll = \<lparr>
     reg_Register = zk_Register Z J handler, reg_Unregister = zk_Unregister Z J,
     reg_UpdateStatus = zk_UpdateStatus Z J, reg_UpdateHeartbeat = zk_UpdateHeartbeat Z J,
     reg_GetNodes = zk_GetNodes Z J, reg_GetWorkingNodes = zk_GetWorkingNodes Z J,
     reg_CleanupExpiredNodes = zk_CleanupExpiredNodes, reg_PutTask = zk_PutTask Z J,
     reg_MarkTaskDeleted = zk_MarkTaskDeleted Z, reg_RemoveTaskDeleted = zk_RemoveTaskDeleted Z,
     reg_ForceCleanupTask = zk_ForceCleanupTask Z, reg_GetAllTasks = zk_GetAllTasks Z J,
     reg_GetDeletedTaskNames = zk_GetDeletedTaskNames Z,
     reg_ForceCleanupAllTasks = cleanAll,
     reg_CanRunTask = (\<lambda>n t. recovered (zk_CanRunTask Z zone ch n t))\<rparr>"

section \<open>What the code relies on\<close>

text \<open>
  \<open>tree s\<close>: the nodes with their data and versions. A call without error has its documented effect, a
  call with an error changes nothing, except that a create or delete whose answer was lost may have
  had its effect. A parent exists before its children are created, and is not deleted before them.
\<close>

definition zk_children_of :: "string \<Rightarrow> (string \<rightharpoonup> 'v) \<Rightarrow> string set" where
  "zk_children_of p m = {c. CHR ''/'' \<notin> set c \<and> p @ ''/'' @ c \<in> dom m}"

locale zk_server =
  fixes Z :: "'s zk_ops" and tree :: "'s \<Rightarrow> (string \<rightharpoonup> string \<times> int)"
  assumes create: "zk_Create Z p d s = (None, s') \<Longrightarrow> tree s p = None \<and> (\<exists>v. tree s' = (tree s)(p \<mapsto> (d, v)))"
    and create_exists: "zk_Create Z p d s = (Some ZkNodeExists, s') \<Longrightarrow> tree s p \<noteq> None \<and> tree s' = tree s"
    and create_err: "zk_Create Z p d s = (Some e, s') \<Longrightarrow> tree s' = tree s \<or> tree s p = None \<and> (\<exists>v. tree s' = (tree s)(p \<mapsto> (d, v)))"
    and delete: "zk_Delete Z p s = (None, s') \<Longrightarrow> tree s' = (tree s)(p := None)"
    and delete_err: "zk_Delete Z p s = (Some e, s') \<Longrightarrow> tree s' = tree s \<or> tree s' = (tree s)(p := None)"
    and zget: "zk_Get Z p s = (Inr dv, s') \<Longrightarrow> tree s p = Some dv \<and> tree s' = tree s"
    and zget_err: "zk_Get Z p s = (Inl e, s') \<Longrightarrow> tree s' = tree s"
    and zset: "zk_Set Z p d v s = (None, s') \<Longrightarrow> (\<exists>d0 v0. tree s p = Some (d0, v0) \<and> (v = -1 \<or> v = v0)) \<and>
      (\<exists>v1. v1 \<noteq> v \<and> tree s' = (tree s)(p \<mapsto> (d, v1)))"
    and children: "zk_Children Z p s = (Inr cs, s') \<Longrightarrow> set cs = zk_children_of p (tree s) \<and> distinct cs \<and> tree s' = tree s"
    and children_err: "zk_Children Z p s = (Inl e, s') \<Longrightarrow> tree s' = tree s"

section \<open>Locks\<close>

text \<open>The names for which no node of a task is a lock.\<close>

definition zk_name :: "string \<Rightarrow> bool" where
  "zk_name n \<longleftrightarrow> path_name n \<and> \<not> is_digit (hd n) \<and> hd n \<noteq> CHR ''-''"

lemma zk_join:
  assumes "path_name n"
  shows "path_Join zkTasksPrefix n = zkTasksPrefix @ ''/'' @ n" and "path_Join zkDeletedTasks n = zkDeletedTasks @ ''/'' @ n"
    and "path_Join zkNodePrefix n = zkNodePrefix @ ''/'' @ n" and "path_Join zkTaskLastExec n = zkTaskLastExec @ ''/'' @ n"
proof -
  have c: "path_Clean zkTasksPrefix = zkTasksPrefix" "path_Clean zkDeletedTasks = zkDeletedTasks"
    "path_Clean zkNodePrefix = zkNodePrefix" "path_Clean zkTaskLastExec = zkTaskLastExec" by code_simp+
  show "path_Join zkTasksPrefix n = zkTasksPrefix @ ''/'' @ n" "path_Join zkDeletedTasks n = zkDeletedTasks @ ''/'' @ n"
    "path_Join zkNodePrefix n = zkNodePrefix @ ''/'' @ n" "path_Join zkTaskLastExec n = zkTaskLastExec @ ''/'' @ n"
    using path_Join_name[OF assms c(1)[unfolded zk_prefixes]] path_Join_name[OF assms c(2)[unfolded zk_prefixes]]
      path_Join_name[OF assms c(3)[unfolded zk_prefixes]] path_Join_name[OF assms c(4)[unfolded zk_prefixes]]
    by (simp_all add: zk_prefixes)
qed

lemma appendInt_no_slash: "CHR ''/'' \<notin> set (appendInt y w)"
proof (cases "y < 0")
  case True
  then show ?thesis using appendInt_digits[of "- y" w] appendInt_sign[of y w] by (auto simp: is_digit_def)
next
  case False
  then show ?thesis using appendInt_digits[of y w] by (auto simp: is_digit_def)
qed

lemma Format_no_slash: "CHR ''/'' \<notin> set (Format_RFC3339 zone t)"
proof -
  obtain y r where yr: "civil (unix_second t + zone (unix_second t)) = (y, r)" by (cases "civil (unix_second t + zone (unix_second t))")
  obtain m d hh mm ss where "r = (m, d, hh, mm, ss)" by (cases r) auto
  then have "CHR ''/'' \<notin> set (format_body r)" by (simp add: format_body_def appendInt_no_slash)
  moreover have "CHR ''/'' \<notin> set (format_zone (zone (unix_second t)))" by (simp add: format_zone_def Let_def appendInt_no_slash)
  ultimately show ?thesis using yr by (simp add: Format_RFC3339_def Let_def appendInt_no_slash)
qed

lemma zk_lock_key_eq:
  assumes "CHR ''/'' \<notin> set n"
  shows "zk_lock_key zone n t = zkTaskLastExec @ ''/'' @ Format_RFC3339 zone t @ ''-'' @ n"
proof -
  obtain c cs where f: "Format_RFC3339 zone t = c # cs" "is_digit c \<or> c = CHR ''-''" using Format_hd by blast
  then have "path_name (Format_RFC3339 zone t @ ''-'' @ n)"
    using assms Format_no_slash[of zone t] by (auto simp: path_name_def is_digit_def)
  from zk_join(4)[OF this] show ?thesis by (simp add: zk_lock_key_def)
qed

lemma zk_keys:
  assumes "zone_ok zone"
  shows "lock_keys (zk_lock_key zone) zk_name"
proof
  fix n n' t t' assume "zk_name n" "zk_name n'"
  then have "CHR ''/'' \<notin> set n" "CHR ''/'' \<notin> set n'" by (simp_all add: zk_name_def path_name_def)
  then show "zk_lock_key zone n t = zk_lock_key zone n' t' \<longleftrightarrow> n = n' \<and> unix_second t = unix_second t'"
    using Format_prefix[OF assms assms, of t "''-'' @ n" t' "''-'' @ n'"] Format_second[OF assms, of t t']
    by (auto simp: zk_lock_key_eq)
qed

lemma zk_no_lock_key:
  assumes "zk_name n" and "CHR ''/'' \<notin> set m"
  shows "zk_lock_key zone m t \<notin> {path_Join zkTasksPrefix n, path_Join zkDeletedTasks n, path_Join zkTaskLastExec n}"
proof -
  have n: "path_name n" using assms by (simp add: zk_name_def)
  obtain c cs where f: "Format_RFC3339 zone t = c # cs" "is_digit c \<or> c = CHR ''-''" using Format_hd by blast
  then have "zk_lock_key zone m t \<noteq> path_Join zkTaskLastExec n"
    using assms zk_join(4)[OF n] zk_lock_key_eq[OF assms(2)] by (auto simp: zk_name_def)
  then show ?thesis using zk_join(1,2)[OF n] zk_lock_key_eq[OF assms(2)] by (simp add: zk_prefixes)
qed

context zk_server
begin

lemma create_any: "zk_Create Z p d s = (r, s') \<Longrightarrow> tree s' = tree s \<or> tree s p = None \<and> (\<exists>v. tree s' = (tree s)(p \<mapsto> (d, v)))"
  using create create_err by (cases r) metis+

lemma delete_any: "tree (snd (zk_Delete Z p s)) = tree s \<or> tree (snd (zk_Delete Z p s)) = (tree s)(p := None)"
  using delete[of p s] delete_err[of p s] by (cases "zk_Delete Z p s"; cases "fst (zk_Delete Z p s)") auto

lemma zk_run_registry:
  assumes "zone_ok zone"
  shows "run_registry (zk_registry Z J zone handler ch cleanAll)
    (\<lambda>g. lock_keys.locks_in (zk_lock_key zone) zk_name (dom (tree (snd g)))) unix_second zk_name"
proof (rule lock_keys.run_registryI[OF zk_keys[OF assms]])
  fix n t b and g g' :: "'s zk_state"
  assume "reg_CanRunTask (zk_registry Z J zone handler ch cleanAll) n t g = (Inr b, g')"
  then have "zk_Create Z (zk_lock_key zone n t) [] (snd g) = (if b then None else Some ZkNodeExists, snd g')"
    by (cases g) (auto simp: zk_registry_def recovered_def zk_CanRunTask_def Let_def
        split: prod.splits sum.splits option.splits if_splits)
  then show "b = (zk_lock_key zone n t \<notin> dom (tree (snd g))) \<and>
      dom (tree (snd g')) = insert (zk_lock_key zone n t) (dom (tree (snd g)))"
    using create create_exists by (cases b) fastforce+
next
  fix n t e and g g' :: "'s zk_state"
  assume "reg_CanRunTask (zk_registry Z J zone handler ch cleanAll) n t g = (Inl e, g')"
  then obtain r where "zk_Create Z (zk_lock_key zone n t) [] (snd g) = (r, snd g')"
    by (cases g) (auto simp: zk_registry_def recovered_def zk_CanRunTask_def Let_def
        split: prod.splits sum.splits option.splits if_splits)
  from create_any[OF this] show "dom (tree (snd g')) = dom (tree (snd g)) \<or>
      dom (tree (snd g')) = insert (zk_lock_key zone n t) (dom (tree (snd g)))" by (metis dom_fun_upd option.distinct(1))
next
  fix n and g :: "'s zk_state" and m t
  assume k: "zk_lock_key zone m t \<in> dom (tree (snd g))"
  have "snd (snd (zk_MarkTaskDeleted Z n g)) = snd (zk_Create Z (path_Join zkDeletedTasks n) [] (snd g))"
    by (cases g) (auto simp: zk_MarkTaskDeleted_def split: prod.splits option.splits)
  then show "zk_lock_key zone m t \<in> dom (tree (snd (snd (reg_MarkTaskDeleted (zk_registry Z J zone handler ch cleanAll) n g))))"
    using k create_any[of "path_Join zkDeletedTasks n" "[]" "snd g"]
    by (cases "zk_Create Z (path_Join zkDeletedTasks n) [] (snd g)") (auto simp: zk_registry_def)
next
  fix n and g :: "'s zk_state" and m t
  assume n: "zk_name n" and "zk_name m" and k: "zk_lock_key zone m t \<in> dom (tree (snd g))"
  then have ne: "zk_lock_key zone m t \<notin> {path_Join zkTasksPrefix n, path_Join zkDeletedTasks n, path_Join zkTaskLastExec n}"
    using zk_no_lock_key by (simp add: zk_name_def path_name_def)
  have keep: "k \<in> dom (tree (snd (zk_Delete Z p s)))" if "k \<in> dom (tree s)" "k \<noteq> p" for k p s
    using delete_any[of p s] that by auto
  have "zk_lock_key zone m t \<in> dom (tree (snd (snd (zk_ForceCleanupTask Z n g))))"
    using k ne by (cases g) (simp add: zk_ForceCleanupTask_def case_prod_beta keep)
  then show "zk_lock_key zone m t \<in> dom (tree (snd (snd (reg_ForceCleanupTask (zk_registry Z J zone handler ch cleanAll) n g))))"
    by (simp add: zk_registry_def)
qed

end

section \<open>A server in memory\<close>

record mem_zk =
  mz_now :: time
  mz_tree :: "(string \<times> (string \<times> int)) list"
  mz_seq :: nat

definition mz_map :: "mem_zk \<Rightarrow> string \<rightharpoonup> string \<times> int" where
  "mz_map s = map_of (mz_tree s)"

text \<open>The parent of a path; the root is the empty path.\<close>

definition zk_parent :: "string \<Rightarrow> string" where
  "zk_parent p = rev (drop 1 (dropWhile (\<lambda>c. c \<noteq> CHR ''/'') (rev p)))"

definition mz_children :: "string \<Rightarrow> mem_zk \<Rightarrow> string list" where
  "mz_children p s = remdups (map (\<lambda>k. drop (length p + 1) k) (filter (\<lambda>k. HasPrefix k (p @ ''/'') \<and>
     CHR ''/'' \<notin> set (drop (length p + 1) k)) (map fst (mz_tree s))))"

definition mz_list :: "string \<Rightarrow> mem_zk \<Rightarrow> (zk_error + string list) \<times> mem_zk" where
  "mz_list p s = (if mz_map s p = None then (Inl ZkNoNode, s) else (Inr (mz_children p s), s))"

definition mz_create :: "string \<Rightarrow> string \<Rightarrow> mem_zk \<Rightarrow> zk_error option \<times> mem_zk" where
  "mz_create p d s =
     (if mz_map s p \<noteq> None then (Some ZkNodeExists, s)
      else if zk_parent p \<noteq> [] \<and> mz_map s (zk_parent p) = None then (Some ZkNoNode, s)
      else (None, s\<lparr>mz_tree := AList.update p (d, 0) (mz_tree s)\<rparr>))"

definition mz_delete :: "string \<Rightarrow> mem_zk \<Rightarrow> zk_error option \<times> mem_zk" where
  "mz_delete p s =
     (if mz_map s p = None then (Some ZkNoNode, s)
      else if mz_children p s \<noteq> [] then (Some ZkNotEmpty, s)
      else (None, s\<lparr>mz_tree := AList.delete p (mz_tree s)\<rparr>))"

definition mem_zk_ops :: "mem_zk zk_ops" where
  "mem_zk_ops = \<lparr>
     zk_Now = mz_now,
     zk_Exists = (\<lambda>p s. (Inr (mz_map s p \<noteq> None), s)),
     zk_Create = mz_create,
     zk_CreateProtectedEphemeralSequential = (\<lambda>p d s.
       let q = p @ ''-'' @ decimal (mz_seq s) in
       case mz_create q d (s\<lparr>mz_seq := mz_seq s + 1\<rparr>) of (Some e, s) \<Rightarrow> (Inl e, s) | (None, s) \<Rightarrow> (Inr q, s)),
     zk_Get = (\<lambda>p s. (case mz_map s p of None \<Rightarrow> Inl ZkNoNode | Some dv \<Rightarrow> Inr dv, s)),
     zk_Set = (\<lambda>p d v s. case mz_map s p of
       None \<Rightarrow> (Some ZkNoNode, s)
     | Some (d0, v0) \<Rightarrow> if v = -1 \<or> v = v0 then (None, s\<lparr>mz_tree := AList.update p (d, \<bar>v0\<bar> + \<bar>v\<bar> + 1) (mz_tree s)\<rparr>) else (Some ZkBadVersion, s)),
     zk_Delete = mz_delete,
     zk_Children = mz_list, zk_ChildrenW = mz_list,
     zk_Multi = (\<lambda>ks s.
       if list_all (\<lambda>k. mz_map s k \<noteq> None \<and> mz_children k s = []) ks
       then (Inr (map (\<lambda>k. None) ks), fold (\<lambda>k s. s\<lparr>mz_tree := AList.delete k (mz_tree s)\<rparr>) ks s)
       else (Inl ZkNoNode, s))\<rparr>"

lemma mz_children: "set (mz_children p s) = zk_children_of p (mz_map s)" "distinct (mz_children p s)"
proof -
  let ?K = "{k \<in> dom (mz_map s). HasPrefix k (p @ ''/'') \<and> CHR ''/'' \<notin> set (drop (length p + 1) k)}"
  have "set (mz_children p s) = drop (length p + 1) ` ?K" by (auto simp: mz_children_def mz_map_def map_of_dom)
  moreover have "?K = (\<lambda>c. p @ ''/'' @ c) ` zk_children_of p (mz_map s)"
    by (auto simp: zk_children_of_def HasPrefix_iff image_iff)
  ultimately show "set (mz_children p s) = zk_children_of p (mz_map s)" by (simp add: image_image)
qed (simp add: mz_children_def)

lemma mz_map_simps [simp]:
  "mz_map (s\<lparr>mz_tree := AList.update p x (mz_tree s)\<rparr>) = (mz_map s)(p \<mapsto> x)"
  "mz_map (s\<lparr>mz_tree := AList.delete p (mz_tree s)\<rparr>) = (mz_map s)(p := None)"
  "mz_map (s\<lparr>mz_seq := n\<rparr>) = mz_map s"
  by (auto simp: mz_map_def alist_simps fun_eq_iff)

interpretation mem_zk: zk_server mem_zk_ops mz_map
proof
  fix p d v and s s' :: mem_zk
  assume "zk_Set mem_zk_ops p d v s = (None, s')"
  then obtain d0 v0 where o: "mz_map s p = Some (d0, v0)" "v = -1 \<or> v = v0" "s' = s\<lparr>mz_tree := AList.update p (d, \<bar>v0\<bar> + \<bar>v\<bar> + 1) (mz_tree s)\<rparr>"
    by (auto simp: mem_zk_ops_def split: option.splits if_splits)
  then show "(\<exists>d0 v0. mz_map s p = Some (d0, v0) \<and> (v = -1 \<or> v = v0)) \<and> (\<exists>v1. v1 \<noteq> v \<and> mz_map s' = (mz_map s)(p \<mapsto> (d, v1)))"
    by (intro conjI exI[of _ "\<bar>v0\<bar> + \<bar>v\<bar> + 1"]) auto
next
  fix p cs and s s' :: mem_zk
  assume "zk_Children mem_zk_ops p s = (Inr cs, s')"
  then show "set cs = zk_children_of p (mz_map s) \<and> distinct cs \<and> mz_map s' = mz_map s"
    using mz_children[of p s] by (auto simp: mem_zk_ops_def mz_list_def split: if_splits)
qed (auto simp: mem_zk_ops_def mz_create_def mz_delete_def mz_list_def simp del: not_None_eq split: option.splits if_splits)

section \<open>One run per second\<close>





definition mem_zk_roots :: mem_zk where
  "mem_zk_roots = \<lparr>mz_now = 1748432520 * Second,
     mz_tree = map (\<lambda>p. (p, [], 0)) [zkPrefix, zkNodePrefix, zkTasksPrefix, zkDeletedTasks, zkTaskLastExec], mz_seq = 0\<rparr>"


section \<open>The watchers\<close>

text \<open>
  C37. The task watcher does not survive its first failure. Its watch is lost with an event that has
  an error, with an event of another type than a change of the children, with a closed channel, and
  with a failed renewal; once the watch is lost no event is ever sent again, whatever the server does
  and whatever is received.
\<close>

theorem zk_task_watch_dies:
  "(ze_Err event \<noteq> None \<or> ze_Type event \<noteq> EventNodeChildrenChanged \<or> (\<exists>e. fst (zk_ChildrenW Z zkTasksPrefix s) = Inl e) \<longrightarrow>
      fst (snd (zk_tasks_turn Z J event currentTasks s)) \<noteq> WatchOpen) \<and>
   (watch \<noteq> WatchOpen \<longrightarrow> fst (zk_tasks_loop Z J inputs watch known s) = [])"
proof (intro conjI impI)
  assume "ze_Err event \<noteq> None \<or> ze_Type event \<noteq> EventNodeChildrenChanged \<or> (\<exists>e. fst (zk_ChildrenW Z zkTasksPrefix s) = Inl e)"
  then show "fst (snd (zk_tasks_turn Z J event currentTasks s)) \<noteq> WatchOpen"
    by (auto simp: zk_tasks_turn_def split: prod.splits sum.splits)
next
  assume "watch \<noteq> WatchOpen"
  then show "fst (zk_tasks_loop Z J inputs watch known s) = []"
  proof (induction inputs arbitrary: s)
    case (Cons input inputs)
    obtain env received where i: "input = (env, received)" by (cases input)
    have "zk_tasks_turn Z J zk_zero_event known (env s) = ([], WatchClosed, known, env s)"
      by (simp add: zk_tasks_turn_def zk_zero_event_def)
    then show ?case using Cons.IH[OF Cons.prems, of "env s"] Cons.prems
      by (cases watch) (auto simp: i split: prod.splits)
  qed simp
qed

theorem zk_task_watch_dies_witness:
  "fst (zk_tasks_loop mem_zk_ops text_codec
     [(id, Some \<lparr>ze_Type = EventSession, ze_Path = [], ze_Err = None\<rparr>), (id, Some \<lparr>ze_Type = EventNodeChildrenChanged, ze_Path = zkTasksPrefix, ze_Err = None\<rparr>)]
     WatchOpen [] mem_zk_roots) = []"
  using zk_task_watch_dies[of "\<lparr>ze_Type = EventSession, ze_Path = [], ze_Err = None\<rparr>" mem_zk_ops mem_zk_roots text_codec "[]" WatchClosed
    "[(id, Some \<lparr>ze_Type = EventNodeChildrenChanged, ze_Path = zkTasksPrefix, ze_Err = None\<rparr>)]" "[]"]
  by (simp add: zk_tasks_turn_def split: prod.splits)

text \<open>
  The node watcher survives failures: whenever its watch is lost and the server answers again, the
  next turn has a new watch and the delay is reset; between attempts it waits between one second and
  thirty, whatever has happened.
\<close>

theorem zk_node_watch_recovers:
  assumes "Second \<le> retryDelay" and "retryDelay \<le> 30 * Second"
  shows "fst (snd (snd (zk_nodes_loop Z inputs watch retryDelay s))) \<in> {Second..30 * Second} \<and>
    (watch \<noteq> WatchOpen \<and> fst (zk_reestablishWatch Z (env s)) = None \<longrightarrow>
      fst (snd (zk_nodes_loop Z [(env, received)] watch retryDelay s)) = WatchOpen \<and>
      fst (snd (snd (zk_nodes_loop Z [(env, received)] watch retryDelay s))) = Second)"
proof (intro conjI impI)
  have pos: "0 < Second" by (simp add: Second_def)
  have turn: "fst (snd (snd (zk_nodes_turn Z rec d u))) \<in> {Second..30 * Second}" if "d \<in> {Second..30 * Second}" for rec d u
    using that pos by (auto simp: zk_nodes_turn_def split: prod.splits option.splits sum.splits)
  show "fst (snd (snd (zk_nodes_loop Z inputs watch retryDelay s))) \<in> {Second..30 * Second}"
    using assms
  proof (induction inputs arbitrary: watch retryDelay s)
    case (Cons input inputs)
    obtain env rec where i: "input = (env, rec)" by (cases input)
    obtain evs w d u where t: "zk_nodes_turn Z (if watch = WatchOpen then rec else None) retryDelay (env s) = (evs, w, d, u)"
      by (metis surj_pair)
    then have "d \<in> {Second..30 * Second}" using turn[of retryDelay "if watch = WatchOpen then rec else None" "env s"] Cons.prems by simp
    then show ?case using Cons.IH[of d w u] t by (cases "zk_nodes_loop Z inputs w d u") (auto simp: i)
  qed simp
qed (auto simp: zk_nodes_turn_def split: prod.splits option.splits)

theorem zk_node_watch_recovers_witness:
  "fst (snd (snd (zk_nodes_loop mem_zk_ops [(id, None)] WatchClosed (16 * Second) (mem_zk_roots\<lparr>mz_tree := []\<rparr>)))) \<in> {Second..30 * Second} \<and>
   fst (snd (zk_nodes_loop mem_zk_ops [(\<lambda>s. mem_zk_roots, None)] WatchClosed (16 * Second) (mem_zk_roots\<lparr>mz_tree := []\<rparr>))) = WatchOpen"
proof -
  have "fst (zk_reestablishWatch mem_zk_ops mem_zk_roots) = None"
    by (simp add: zk_reestablishWatch_def mem_zk_ops_def mz_list_def mz_map_def mem_zk_roots_def zk_prefixes)
  then show ?thesis
    using zk_node_watch_recovers[of "16 * Second" mem_zk_ops "[(id, None)]" WatchClosed "mem_zk_roots\<lparr>mz_tree := []\<rparr>" "\<lambda>s. mem_zk_roots" None]
    by (simp add: Second_def)
qed

section \<open>The cleanup of old locks\<close>

context zk_server
begin

lemma cleanup_short: "fst (zk_cleanup_children Z parse cs n s) = Inl IndexOutOfRange \<longleftrightarrow> (\<exists>c \<in> set cs. length c < len_RFC3339)"
  by (induction cs arbitrary: n s) (auto split: prod.splits option.splits)

lemma try_cleanup_short:
  assumes "zk_Children Z zkTaskLastExec s = (Inr cs, s1)"
  shows "fst (zk_tryCleanupHistoryExecKeys Z parse s) = Inl IndexOutOfRange \<longleftrightarrow>
    (\<exists>c \<in> zk_children_of zkTaskLastExec (tree s). length c < len_RFC3339)"
  using cleanup_short[of parse cs 0 s1] children[OF assms] assms
  by (auto simp: zk_tryCleanupHistoryExecKeys_def split: prod.splits sum.splits)

lemma cleanup_clock:
  assumes "\<forall>p u. zk_Now Z u \<le> zk_Now Z (snd (zk_Delete Z p u))"
  shows "zk_Now Z s \<le> zk_Now Z (snd (zk_cleanup_children Z parse cs n s))"
proof (induction cs arbitrary: n s)
  case (Cons c cs)
  let ?d = "zk_Delete Z (zkTaskLastExec @ ''/'' @ c) s"
  have "zk_Now Z s \<le> zk_Now Z (snd ?d)" using assms by blast
  then show ?case
    using Cons order_trans[OF _ Cons, of "zk_Now Z s" "snd ?d"] by (cases ?d; cases "fst ?d") auto
qed simp

lemma cleanup_removes:
  assumes mono: "\<forall>p u. zk_Now Z u \<le> zk_Now Z (snd (zk_Delete Z p u))"
    and "tree (snd (zk_cleanup_children Z parse cs n s)) q \<noteq> tree s q"
  shows "tree (snd (zk_cleanup_children Z parse cs n s)) q = None \<and>
    (\<exists>c \<in> set cs. q = zkTaskLastExec @ ''/'' @ c \<and>
      (\<exists>now \<le> zk_Now Z (snd (zk_cleanup_children Z parse cs n s)). zk_expired parse now c))"
  using assms(2)
proof (induction cs arbitrary: n s)
  case (Cons c cs)
  let ?q = "zkTaskLastExec @ ''/'' @ c" and ?go = "\<lambda>n s. tree (snd (zk_cleanup_children Z parse cs n s)) q"
  have long: "\<not> length c < len_RFC3339" using Cons.prems by auto
  show ?case
  proof (cases "zk_expired parse (zk_Now Z s) c")
    case True
    obtain r s2 where d: "zk_Delete Z ?q s = (r, s2)" by (cases "zk_Delete Z ?q s")
    then obtain m where loop: "zk_cleanup_children Z parse (c # cs) n s = zk_cleanup_children Z parse cs m s2"
      using long True by (cases r) auto
    show ?thesis
    proof (cases "tree s2 q = tree s q")
      case False
      then have "tree s2 q = None" "q = ?q" using delete_any[of ?q s] d by (auto split: if_splits)
      moreover have "zk_Now Z s \<le> zk_Now Z (snd (zk_cleanup_children Z parse cs m s2))"
        using cleanup_clock[OF mono, of s2 parse cs m] mono[rule_format, of s ?q] d by simp
      ultimately show ?thesis using Cons.IH[of m s2] True loop by (cases "?go m s2 = tree s2 q") auto
    qed (use Cons.IH[of m s2] Cons.prems loop in auto)
  next
    case False
    then show ?thesis using Cons long by auto
  qed
qed simp

end

text \<open>
  C38. The cleanup crashes on short names: when a node in UTC has left the lock of a task whose name has
  at most three bytes, the name of the lock is shorter than the layout of the time, and the next
  cleanup of any process panics on the slice, outside of any recover.
\<close>

theorem zk_cleanup_panics:
  assumes "zk_server Z tree" and "zk_Children Z zkTaskLastExec s = (Inr cs, s1)"
    and "zone_ok zone" and "four_digit_year zone t" and "zone (unix_second t) = 0"
    and "zk_name n" and "length n \<le> 3" and "zk_lock_key zone n t \<in> dom (tree s)"
  shows "fst (zk_cleanupHistoryExecKeys Z parse ticks s) = Inl IndexOutOfRange"
proof -
  have n: "CHR ''/'' \<notin> set n" using assms(6) by (simp add: zk_name_def path_name_def)
  let ?c = "Format_RFC3339 zone t @ ''-'' @ n"
  have "?c \<in> zk_children_of zkTaskLastExec (tree s)"
    using assms(8) n Format_no_slash[of zone t] by (simp add: zk_children_of_def zk_lock_key_eq)
  moreover have "length ?c < len_RFC3339" using Format_length[OF assms(3,4)] assms(5,7) by (simp add: len_RFC3339)
  ultimately have "fst (zk_tryCleanupHistoryExecKeys Z parse s) = Inl IndexOutOfRange"
    using zk_server.try_cleanup_short[OF assms(1,2)] by blast
  then show ?thesis by (cases ticks) (auto split: prod.splits sum.splits)
qed

definition mem_zk_utc :: mem_zk where
  "mem_zk_utc = mem_zk_roots\<lparr>mz_tree := (zk_lock_key (\<lambda>s. 0) ''job'' 0, [], 0) # mz_tree mem_zk_roots\<rparr>"

theorem zk_cleanup_panics_witness:
  "fst (zk_cleanupHistoryExecKeys mem_zk_ops Parse_RFC3339 [] mem_zk_utc) = Inl IndexOutOfRange"
proof -
  have "mz_map mem_zk_utc zkTaskLastExec \<noteq> None"
    by (simp add: mz_map_def mem_zk_utc_def mem_zk_roots_def)
  then obtain cs where cs: "zk_Children mem_zk_ops zkTaskLastExec mem_zk_utc = (Inr cs, mem_zk_utc)"
    by (auto simp: mem_zk_ops_def mz_list_def)
  have "fst (civil 0) = 1970" by code_simp
  then have y: "four_digit_year (\<lambda>s. 0) 0" by (simp add: four_digit_year_def unix_second_def)
  have "zk_name ''job''" by code_simp
  then show ?thesis
    by (intro zk_cleanup_panics[OF mem_zk.zk_server_axioms cs _ y, of "''job''"])
      (simp_all add: zone_ok_def mz_map_def mem_zk_utc_def)
qed

text \<open>
  The cleanup removes no lock too early: whatever it takes away is below the node of the locks, and
  the lock of a task run is taken away only when the run was more than ten minutes before the end
  of the cleanup (with a clock that does not go back) and its time was not written in UTC.
\<close>

theorem zk_cleanup_only_old:
  assumes "zk_server Z tree" and "rfc3339_parser parse" and "\<forall>p u. zk_Now Z u \<le> zk_Now Z (snd (zk_Delete Z p u))"
    and "zk_tryCleanupHistoryExecKeys Z parse s = (res, s')" and "tree s' q \<noteq> tree s q"
  shows "tree s' q = None \<and> HasPrefix q (zkTaskLastExec @ ''/'') \<and>
    (\<forall>zone n t. zone_ok zone \<and> four_digit_year zone t \<and> zk_name n \<and> q = zk_lock_key zone n t \<longrightarrow>
      zone (unix_second t) \<noteq> 0 \<and> zk_Now Z s' - unix_second t * Second > CleanupHistoryExecKeysThresholdDuration)"
proof -
  obtain cs s1 where cs: "zk_Children Z zkTaskLastExec s = (Inr cs, s1)"
    using assms(4,5) zk_server.children_err[OF assms(1)] by (auto simp: zk_tryCleanupHistoryExecKeys_def split: prod.splits sum.splits)
  have s1: "tree s1 = tree s" using zk_server.children[OF assms(1) cs] by simp
  have "s' = snd (zk_cleanup_children Z parse cs 0 s1)"
    using assms(4) cs by (auto simp: zk_tryCleanupHistoryExecKeys_def split: prod.splits sum.splits)
  then obtain c now where none: "tree s' q = None" and q: "q = zkTaskLastExec @ ''/'' @ c"
    and old: "zk_expired parse now c" "now \<le> zk_Now Z s'"
    using zk_server.cleanup_removes[OF assms(1,3), of parse cs 0 s1 q] assms(5) s1 by auto
  have "zone (unix_second t) \<noteq> 0 \<and> zk_Now Z s' - unix_second t * Second > CleanupHistoryExecKeysThresholdDuration"
    if "zone_ok zone" "four_digit_year zone t" "zk_name n" "q = zk_lock_key zone n t" for zone n t
  proof -
    have "c = Format_RFC3339 zone t @ ''-'' @ n" using that(3,4) q by (simp add: zk_lock_key_eq zk_name_def path_name_def)
    then show ?thesis
      using old rfc3339_parser.parse_cut[OF assms(2) that(1,2), of "''-'' @ n"]
      by (auto simp: zk_expired_def split: option.splits if_splits)
  qed
  then show ?thesis using none q by (auto simp: HasPrefix_iff)
qed

definition mem_zk_old :: mem_zk where
  "mem_zk_old = mem_zk_roots\<lparr>mz_tree := (zk_lock_key (\<lambda>s. 28800) ''job'' 0, [], 0) # mz_tree mem_zk_roots\<rparr>"

theorem zk_cleanup_only_old_witness:
  "mz_map (snd (zk_tryCleanupHistoryExecKeys mem_zk_ops Parse_RFC3339 mem_zk_old)) (zk_lock_key (\<lambda>s. 28800) ''job'' 0) = None \<and>
   mz_now (snd (zk_tryCleanupHistoryExecKeys mem_zk_ops Parse_RFC3339 mem_zk_old)) > CleanupHistoryExecKeysThresholdDuration"
proof -
  let ?k = "zk_lock_key (\<lambda>s. 28800) ''job'' 0"
  obtain res s' where r: "zk_tryCleanupHistoryExecKeys mem_zk_ops Parse_RFC3339 mem_zk_old = (res, s')"
    by (cases "zk_tryCleanupHistoryExecKeys mem_zk_ops Parse_RFC3339 mem_zk_old")
  let ?c = "Format_RFC3339 (\<lambda>s. 28800) 0 @ ''-job''"
  have zone: "zone_ok (\<lambda>s. 28800)" by (simp add: zone_ok_def)
  have "fst (civil 28800) = 1970" by code_simp
  then have year: "four_digit_year (\<lambda>s. 28800) 0" by (simp add: four_digit_year_def unix_second_def)
  have c: "?c = ''1970-01-01T08:00:00+08:00-job''" by code_simp
  then have k: "?k = ''/distributed_cron/last_exec/1970-01-01T08:00:00+08:00-job''"
    by (simp add: zk_lock_key_eq zkTaskLastExec_def)
  have ch: "mz_children zkTaskLastExec mem_zk_old = [?c]"
    unfolding mem_zk_old_def k c by code_simp
  have none: "mz_children ?k mem_zk_old = []" unfolding mem_zk_old_def k by code_simp
  have len: "\<not> length ?c < len_RFC3339" unfolding c by (simp add: len_RFC3339)
  have path: "zkTaskLastExec @ ''/'' @ ?c = ?k" by (simp add: zk_lock_key_eq)
  have old: "mz_now mem_zk_old = 1748432520 * Second" "mz_map mem_zk_old ?k \<noteq> None" "mz_map mem_zk_old zkTaskLastExec \<noteq> None"
    by (simp_all add: mem_zk_old_def mem_zk_roots_def mz_map_def)
  have ops: "zk_Now mem_zk_ops = mz_now" "zk_Children mem_zk_ops = mz_list" "zk_Delete mem_zk_ops = mz_delete" by (simp_all add: mem_zk_ops_def)
  have "zk_expired Parse_RFC3339 (1748432520 * Second) ?c"
    using strict.parse_cut[OF zone year, of "''-job''"]
    by (simp add: zk_expired_def CleanupHistoryExecKeysThresholdDuration_def Minute_def Second_def unix_second_def)
  then have "mz_map (snd (zk_tryCleanupHistoryExecKeys mem_zk_ops Parse_RFC3339 mem_zk_old)) ?k = None"
    using len none old path by (simp add: zk_tryCleanupHistoryExecKeys_def ops mz_list_def mz_delete_def ch del: not_None_eq)
  then have gone: "mz_map s' ?k = None" "mz_map s' ?k \<noteq> mz_map mem_zk_old ?k"
    using r by (simp_all add: mem_zk_old_def mz_map_def)
  have "\<forall>p u. zk_Now mem_zk_ops u \<le> zk_Now mem_zk_ops (snd (zk_Delete mem_zk_ops p u))"
    by (simp add: mem_zk_ops_def mz_delete_def)
  note zk_cleanup_only_old[OF mem_zk.zk_server_axioms strict.rfc3339_parser_axioms this r gone(2)]
  moreover have "zk_name ''job''" by code_simp
  ultimately have "zk_Now mem_zk_ops s' - unix_second 0 * Second > CleanupHistoryExecKeysThresholdDuration"
    using zone year by blast
  then show ?thesis using r gone(1) by (simp add: ops unix_second_def)
qed

section \<open>Updates of a node\<close>

context zk_server
begin

lemma find_node:
  assumes "zk_find_node Z J nodeID cs s = (Some (p, node, v), s')"
  shows "tree s' = tree s \<and> (\<exists>d. tree s p = Some (d, v) \<and> js_unNode J d = Some node \<and> ID node = nodeID)"
  using assms
proof (induction cs arbitrary: s)
  case (Cons c cs)
  obtain r s1 where g: "zk_Get Z (path_Join zkNodePrefix c) s = (r, s1)" by (cases "zk_Get Z (path_Join zkNodePrefix c) s")
  then have s1: "tree s1 = tree s" using zget zget_err by (cases r) auto
  show ?case
  proof (cases r)
    case (Inl e)
    then show ?thesis using Cons.IH[of s1] Cons.prems g s1 by simp
  next
    case (Inr dv)
    obtain d w where dv: "dv = (d, w)" by (cases dv)
    then have "tree s (path_Join zkNodePrefix c) = Some (d, w)" using zget g Inr by blast
    then show ?thesis
      using Cons.IH[of s1] Cons.prems g s1 Inr dv by (auto simp: Let_def split: option.splits if_splits)
  qed
qed simp

lemma find_node_none: "zk_find_node Z J nodeID cs s = (None, s') \<Longrightarrow> tree s' = tree s"
proof (induction cs arbitrary: s)
  case (Cons c cs)
  obtain r s1 where g: "zk_Get Z (path_Join zkNodePrefix c) s = (r, s1)" by (cases "zk_Get Z (path_Join zkNodePrefix c) s")
  then have "tree s1 = tree s" using zget zget_err by (cases r) auto
  then show ?case using Cons.IH[of s1] Cons.prems g by (auto simp: Let_def split: sum.splits option.splits if_splits prod.splits)
qed simp

lemma own_node:
  assumes "zk_own_node Z J nodeID r s = (res, s')"
  shows "tree s' = tree s \<and> (\<forall>node v. res = Some (node, v) \<longrightarrow>
    (\<exists>d. tree s (zr_nodePath r) = Some (d, v) \<and> js_unNode J d = Some node \<and> ID node = nodeID))"
  using assms zget[of "zr_nodePath r" s] zget_err[of "zr_nodePath r" s]
  by (auto simp: zk_own_node_def split: if_splits prod.splits sum.splits option.splits)

lemma write_node:
  assumes "zk_write_node Z J p node v s = (None, s')"
  shows "\<exists>d v1. js_Node J node = Inr d \<and> v1 \<noteq> v \<and> tree s' = (tree s)(p \<mapsto> (d, v1))"
  using assms zset[of p _ v s] by (fastforce simp: zk_write_node_def split: sum.splits prod.splits option.splits)

end

text \<open>
  C40. An update of a node that reports success has replaced the data of one node with this ID by the
  updated node, under a new version, and nothing else; and a write with a version that is no longer
  the current one fails, so that an update between the read and the write is never lost.
\<close>

theorem zk_update_replaces:
  assumes "zk_server Z tree" and "zk_updateNodeField Z J nodeID f (r, s) = (None, r', s')"
  shows "r' = r \<and> (\<exists>p node d v d' v'. tree s p = Some (d, v) \<and> js_unNode J d = Some node \<and> ID node = nodeID \<and>
      js_Node J (f node) = Inr d' \<and> v' \<noteq> v \<and> tree s' = (tree s)(p \<mapsto> (d', v'))) \<and>
    (\<forall>p node d v v0 u. tree u p = Some (d, v0) \<and> v \<noteq> v0 \<and> v \<noteq> - 1 \<longrightarrow> fst (zk_write_node Z J p node v u) \<noteq> None)"
proof (intro conjI)
  obtain own s1 where o: "zk_own_node Z J nodeID r s = (own, s1)" by (cases "zk_own_node Z J nodeID r s")
  note own = zk_server.own_node[OF assms(1) o]
  obtain p node v s2 d where w: "zk_write_node Z J p (f node) v s2 = (None, s')" "tree s2 = tree s"
    and n: "tree s p = Some (d, v)" "js_unNode J d = Some node" "ID node = nodeID"
  proof (cases own)
    case (Some nv)
    obtain node v where nv: "nv = (node, v)" by (cases nv)
    then obtain d where "tree s (zr_nodePath r) = Some (d, v)" "js_unNode J d = Some node" "ID node = nodeID"
      using own Some by blast
    moreover have "zk_write_node Z J (zr_nodePath r) (f node) v s1 = (None, s')"
      using assms(2) o Some nv by (auto simp: zk_updateNodeField_def split: prod.splits)
    ultimately show thesis using that own by blast
  next
    case None
    then obtain cs s2 where cs: "zk_Children Z zkNodePrefix s1 = (Inr cs, s2)"
      using assms(2) o by (auto simp: zk_updateNodeField_def split: prod.splits sum.splits)
    then obtain p node v s3 where f: "zk_find_node Z J nodeID cs s2 = (Some (p, node, v), s3)"
      using assms(2) o None by (auto simp: zk_updateNodeField_def split: prod.splits option.splits)
    have "tree s2 = tree s" using zk_server.children[OF assms(1) cs] own by simp
    moreover have "zk_write_node Z J p (f node) v s3 = (None, s')"
      using assms(2) o None cs f by (auto simp: zk_updateNodeField_def split: prod.splits)
    ultimately show thesis using that zk_server.find_node[OF assms(1) f] by metis
  qed
  show "\<exists>p node d v d' v'. tree s p = Some (d, v) \<and> js_unNode J d = Some node \<and> ID node = nodeID \<and>
      js_Node J (f node) = Inr d' \<and> v' \<noteq> v \<and> tree s' = (tree s)(p \<mapsto> (d', v'))"
    using zk_server.write_node[OF assms(1) w(1)] w(2) n by metis
  show "r' = r" using assms(2) by (auto simp: zk_updateNodeField_def split: prod.splits sum.splits option.splits)
  show "\<forall>p node d v v0 u. tree u p = Some (d, v0) \<and> v \<noteq> v0 \<and> v \<noteq> - 1 \<longrightarrow> fst (zk_write_node Z J p node v u) \<noteq> None"
    using zk_server.zset[OF assms(1)] by (fastforce simp: zk_write_node_def split: sum.splits prod.splits option.splits)
qed

definition demo_zk_node :: Node where
  "demo_zk_node = \<lparr>ID = ''n1'', IP = ''10.0.0.1'', Hostname = [], LastAlive = 0, CreateTime = 0,
     Status = NodeStatusStarting, Weight = 1\<rparr>"

theorem zk_update_replaces_witness:
  "\<exists>r' s' p d' v'. zk_updateNodeField mem_zk_ops text_codec ''n1'' (\<lambda>node. node\<lparr>Status := NodeStatusWorking\<rparr>)
     (\<lparr>zr_nodePath = ''/n'', zr_cleaner = None\<rparr>, mem_zk_roots\<lparr>mz_tree := [(''/n'', mark_fields (node_fields demo_zk_node), 0)]\<rparr>) = (None, r', s') \<and>
     js_Node text_codec (demo_zk_node\<lparr>Status := NodeStatusWorking\<rparr>) = Inr d' \<and> mz_map s' p = Some (d', v')"
proof -
  let ?d = "mark_fields (node_fields demo_zk_node)" and ?r = "\<lparr>zr_nodePath = ''/n'', zr_cleaner = None\<rparr>"
  let ?s = "mem_zk_roots\<lparr>mz_tree := [(''/n'', ?d, 0)]\<rparr>" and ?f = "\<lambda>node :: Node. node\<lparr>Status := NodeStatusWorking\<rparr>"
  have "js_Node text_codec demo_zk_node = Inr ?d" by (simp add: text_codec_def)
  from text_codec.unNode[OF this] have un: "js_unNode text_codec ?d = Some demo_zk_node" .
  have get: "zk_Get mem_zk_ops ''/n'' ?s = (Inr (?d, 0), ?s)" by (simp add: mem_zk_ops_def mz_map_def)
  have set: "\<exists>s'. zk_Set mem_zk_ops ''/n'' d 0 ?s = (None, s')" for d by (simp add: mem_zk_ops_def mz_map_def)
  obtain d' where d': "js_Node text_codec (?f demo_zk_node) = Inr d'" by (simp add: text_codec_def)
  have "ID demo_zk_node = ''n1''" by (simp add: demo_zk_node_def)
  then have own: "zk_own_node mem_zk_ops text_codec ''n1'' ?r ?s = (Some (demo_zk_node, 0), ?s)"
    using un get by (simp add: zk_own_node_def)
  obtain s' where s': "zk_updateNodeField mem_zk_ops text_codec ''n1'' ?f (?r, ?s) = (None, ?r, s')"
    using set[of d'] d' own by (auto simp: zk_updateNodeField_def zk_write_node_def)
  obtain p node d v e' v' where h: "mz_map ?s p = Some (d, v)" "js_unNode text_codec d = Some node"
    "js_Node text_codec (?f node) = Inr e'" "mz_map s' = (mz_map ?s)(p \<mapsto> (e', v'))"
    using zk_update_replaces[OF mem_zk.zk_server_axioms s'] by blast
  then have "node = demo_zk_node" using un by (auto simp: mz_map_def split: if_splits)
  then show ?thesis using s' d' h(3,4) by (metis fun_upd_same)
qed

section \<open>Deleting everything\<close>

text \<open>The nodes at and below a path, and trees where every node has its parent.\<close>

definition zk_below :: "string \<Rightarrow> string set" where
  "zk_below p = {q. HasPrefix q (p @ ''/'')}"

definition zk_closed :: "(string \<rightharpoonup> 'v) \<Rightarrow> bool" where
  "zk_closed m \<longleftrightarrow> (\<forall>p c. p \<noteq> [] \<and> CHR ''/'' \<notin> set c \<and> p @ ''/'' @ c \<in> dom m \<longrightarrow> p \<in> dom m)"

lemma last_slash:
  assumes "CHR ''/'' \<in> set r"
  obtains a b where "r = a @ ''/'' @ b" "CHR ''/'' \<notin> set b"
  using split_list_last[OF assms] that by auto

lemma closed_up:
  assumes "zk_closed m" and "p @ ''/'' @ r \<in> dom m" and "p \<noteq> []"
  shows "p \<in> dom m"
  using assms(2)
proof (induction r rule: length_induct)
  case (1 r)
  show ?case
  proof (cases "CHR ''/'' \<in> set r")
    case True
    then obtain a b where ab: "r = a @ ''/'' @ b" "CHR ''/'' \<notin> set b" by (rule last_slash)
    then have "p @ ''/'' @ a \<in> dom m" using assms(1) "1.prems" unfolding zk_closed_def
      by (metis append.assoc append_is_Nil_conv assms(3))
    moreover have "length a < length r" using ab(1) by simp
    ultimately show ?thesis using "1.IH" by blast
  next
    case False
    then show ?thesis using assms(1,3) "1.prems" unfolding zk_closed_def by blast
  qed
qed

lemma first_slash: "\<exists>c t. r = c @ t \<and> CHR ''/'' \<notin> set c \<and> (t = [] \<or> (\<exists>u. t = ''/'' @ u))"
proof (intro exI conjI)
  show "r = takeWhile (\<lambda>x. x \<noteq> CHR ''/'') r @ dropWhile (\<lambda>x. x \<noteq> CHR ''/'') r" by simp
  show "CHR ''/'' \<notin> set (takeWhile (\<lambda>x. x \<noteq> CHR ''/'') r)" by (auto dest: set_takeWhileD)
  show "dropWhile (\<lambda>x. x \<noteq> CHR ''/'') r = [] \<or> (\<exists>u. dropWhile (\<lambda>x. x \<noteq> CHR ''/'') r = ''/'' @ u)"
    using hd_dropWhile[of "\<lambda>x. x \<noteq> CHR ''/''" r] by (cases "dropWhile (\<lambda>x. x \<noteq> CHR ''/'') r") auto
qed

text \<open>What is below a node is its children and what is below them.\<close>

lemma below_children:
  assumes "zk_closed m"
  shows "zk_below p \<inter> dom m = (\<Union>c \<in> zk_children_of p m. insert (p @ ''/'' @ c) (zk_below (p @ ''/'' @ c))) \<inter> dom m"
proof (intro equalityI subsetI)
  fix q assume q: "q \<in> zk_below p \<inter> dom m"
  then obtain r where r: "q = p @ ''/'' @ r" by (auto simp: zk_below_def HasPrefix_iff)
  obtain c t where ct: "r = c @ t" "CHR ''/'' \<notin> set c" "t = [] \<or> (\<exists>u. t = ''/'' @ u)" using first_slash by blast
  have "p @ ''/'' @ c \<in> dom m"
  proof (cases "t = []")
    case False
    then obtain u where "q = (p @ ''/'' @ c) @ ''/'' @ u" using ct(3) r ct(1) by auto
    then show ?thesis using closed_up[OF assms, of "p @ ''/'' @ c" u] q by simp
  qed (use q r ct in simp)
  then have "c \<in> zk_children_of p m" using ct(2) by (simp add: zk_children_of_def)
  moreover have "q \<in> insert (p @ ''/'' @ c) (zk_below (p @ ''/'' @ c))" using r ct by (auto simp: zk_below_def HasPrefix_iff)
  ultimately show "q \<in> (\<Union>c \<in> zk_children_of p m. insert (p @ ''/'' @ c) (zk_below (p @ ''/'' @ c))) \<inter> dom m" using q by blast
qed (auto simp: zk_below_def HasPrefix_iff)

lemma restrict_below:
  assumes "zk_closed m"
  shows "m |` (- (\<Union>c \<in> zk_children_of p m. insert (p @ ''/'' @ c) (zk_below (p @ ''/'' @ c)))) = m |` (- zk_below p)"
    (is "m |` (- ?B) = _")
proof
  fix x
  show "(m |` (- ?B)) x = (m |` (- zk_below p)) x"
  proof (cases "x \<in> dom m")
    case True
    then have "x \<in> zk_below p \<longleftrightarrow> x \<in> ?B" using below_children[OF assms, of p] by blast
    then show ?thesis by (simp only: restrict_map_def Compl_iff)
  next
    case False
    then have "m x = None" by blast
    then show ?thesis by (simp add: restrict_map_def)
  qed
qed

lemma parent_child: "CHR ''/'' \<notin> set c \<Longrightarrow> zk_parent (p @ ''/'' @ c) = p"
proof -
  assume "CHR ''/'' \<notin> set c"
  then have "dropWhile (\<lambda>x. x \<noteq> CHR ''/'') (rev c @ ''/'' @ rev p) = ''/'' @ rev p"
    by (subst dropWhile_append2) auto
  then show ?thesis by (simp add: zk_parent_def)
qed

lemma closedI: "(\<And>q. q \<in> dom m \<Longrightarrow> zk_parent q = [] \<or> zk_parent q \<in> dom m) \<Longrightarrow> zk_closed m"
  unfolding zk_closed_def by (metis parent_child)

text \<open>A server that answers: it lists the children of a node that exists, and deletes one without.\<close>

definition zk_answers :: "'s zk_ops \<Rightarrow> ('s \<Rightarrow> (string \<rightharpoonup> string \<times> int)) \<Rightarrow> bool" where
  "zk_answers Z tree \<longleftrightarrow> (\<forall>p s. tree s p \<noteq> None \<longrightarrow> (\<exists>cs s'. zk_Children Z p s = (Inr cs, s')) \<and>
     (zk_children_of p (tree s) = {} \<longrightarrow> (\<exists>s'. zk_Delete Z p s = (None, s'))))"

lemma closed_cut:
  assumes "zk_closed m"
  shows "zk_closed (m |` (- insert p (zk_below p)))"
  unfolding zk_closed_def
proof (intro allI impI, elim conjE)
  fix q c assume q: "q \<noteq> []" "CHR ''/'' \<notin> set c" "q @ ''/'' @ c \<in> dom (m |` (- insert p (zk_below p)))"
  then have "q \<in> dom m" using assms unfolding zk_closed_def by auto
  moreover have "q \<notin> insert p (zk_below p)" using q(3) by (auto simp: zk_below_def HasPrefix_iff)
  ultimately show "q \<in> dom (m |` (- insert p (zk_below p)))" by auto
qed

lemma siblings_apart:
  assumes "CHR ''/'' \<notin> set c" and "CHR ''/'' \<notin> set d" and "c \<noteq> d"
  shows "p @ ''/'' @ d \<notin> insert (p @ ''/'' @ c) (zk_below (p @ ''/'' @ c))"
  using assms by (auto simp: zk_below_def HasPrefix_iff)

context zk_server
begin

definition deletes :: "nat \<Rightarrow> bool" where
  "deletes fuel \<longleftrightarrow> (\<forall>p s. (\<forall>q \<in> dom (tree s). length q < length p + fuel) \<longrightarrow>
     (\<exists>r s'. zk_deleteRecursively fuel Z p s = Some (r, s') \<and> tree s' \<subseteq>\<^sub>m tree s \<and>
       (zk_answers Z tree \<and> zk_closed (tree s) \<and> p \<in> dom (tree s) \<longrightarrow> tree s' = tree s |` (- insert p (zk_below p)))))"

lemma delete_children:
  assumes "deletes fuel" and "\<forall>q \<in> dom (tree s). length q < length p + 1 + fuel"
  shows "\<exists>s'. zk_delete_children fuel Z p cs s = Some s' \<and> tree s' \<subseteq>\<^sub>m tree s \<and>
    (zk_answers Z tree \<and> zk_closed (tree s) \<and> distinct cs \<and> set cs \<subseteq> zk_children_of p (tree s) \<longrightarrow>
      zk_closed (tree s') \<and> tree s' = tree s |` (- (\<Union>c \<in> set cs. insert (p @ ''/'' @ c) (zk_below (p @ ''/'' @ c)))))"
  using assms(2)
proof (induction cs arbitrary: s)
  case Nil
  then show ?case by (auto simp: restrict_map_def)
next
  case (Cons c cs)
  let ?q = "p @ ''/'' @ c" and ?U = "\<Union>c \<in> set cs. insert (p @ ''/'' @ c) (zk_below (p @ ''/'' @ c))"
  have "length p + 1 + fuel \<le> length ?q + fuel" by simp
  then have "\<forall>q \<in> dom (tree s). length q < length ?q + fuel" using Cons.prems less_le_trans by blast
  then obtain r s1 where d: "zk_deleteRecursively fuel Z ?q s = Some (r, s1)" "tree s1 \<subseteq>\<^sub>m tree s"
    "zk_answers Z tree \<and> zk_closed (tree s) \<and> ?q \<in> dom (tree s) \<longrightarrow> tree s1 = tree s |` (- insert ?q (zk_below ?q))"
    using assms(1) unfolding deletes_def by meson
  have "dom (tree s1) \<subseteq> dom (tree s)" using d(2) by (rule map_le_implies_dom_le)
  then obtain s' where s': "zk_delete_children fuel Z p cs s1 = Some s'" "tree s' \<subseteq>\<^sub>m tree s1"
    "zk_answers Z tree \<and> zk_closed (tree s1) \<and> distinct cs \<and> set cs \<subseteq> zk_children_of p (tree s1) \<longrightarrow>
      zk_closed (tree s') \<and> tree s' = tree s1 |` (- ?U)"
    using Cons.IH[of s1] Cons.prems by blast
  have "zk_closed (tree s') \<and> tree s' = tree s |` (- (insert ?q (zk_below ?q) \<union> ?U))"
    if h: "zk_answers Z tree" "zk_closed (tree s)" "distinct (c # cs)" "set (c # cs) \<subseteq> zk_children_of p (tree s)"
  proof -
    have s1: "tree s1 = tree s |` (- insert ?q (zk_below ?q))" using d(3) h by (auto simp: zk_children_of_def)
    then have "zk_closed (tree s1)" using closed_cut[OF h(2)] by simp
    moreover have "x \<in> zk_children_of p (tree s1)" if "x \<in> set cs" for x
      using that h(3,4) siblings_apart[of c x p] unfolding s1 by (auto simp: zk_children_of_def)
    ultimately have "zk_closed (tree s')" "tree s' = tree s1 |` (- ?U)" using s'(3) h(1,3) by auto
    then show ?thesis by (simp only: s1 restrict_restrict Compl_Un simp_thms)
  qed
  note all = this
  show ?case
  proof (intro exI[of _ s'] conjI impI; (elim conjE)?)
    show "zk_delete_children fuel Z p (c # cs) s = Some s'" using d(1) s'(1) by simp
    show "tree s' \<subseteq>\<^sub>m tree s" using map_le_trans[OF s'(2) d(2)] .
    assume "zk_answers Z tree" "zk_closed (tree s)" "distinct (c # cs)" "set (c # cs) \<subseteq> zk_children_of p (tree s)"
    note fin = all[OF this]
    show "zk_closed (tree s')" using fin ..
    show "tree s' = tree s |` (- (\<Union>c \<in> set (c # cs). insert (p @ ''/'' @ c) (zk_below (p @ ''/'' @ c))))"
      using fin by (simp only: list.set UN_insert)
  qed
qed

text \<open>The loop over the children that were listed, and the node itself after it.\<close>

lemma listed_children:
  assumes "zk_Children Z p s = (Inr cs, s1)" and "cs = [] \<or> deletes fuel"
    and "\<forall>q \<in> dom (tree s). length q < length p + 1 + fuel"
  shows "\<exists>s2. zk_delete_children fuel Z p cs s1 = Some s2 \<and> tree s2 \<subseteq>\<^sub>m tree s \<and>
    (zk_answers Z tree \<and> zk_closed (tree s) \<longrightarrow> zk_closed (tree s2) \<and> tree s2 = tree s |` (- zk_below p))"
proof -
  have cs: "set cs = zk_children_of p (tree s)" "distinct cs" "tree s1 = tree s" using children[OF assms(1)] by blast+
  have "\<exists>s2. zk_delete_children fuel Z p cs s1 = Some s2 \<and> tree s2 \<subseteq>\<^sub>m tree s1 \<and>
    (zk_answers Z tree \<and> zk_closed (tree s1) \<and> distinct cs \<and> set cs \<subseteq> zk_children_of p (tree s1) \<longrightarrow>
      zk_closed (tree s2) \<and> tree s2 = tree s1 |` (- (\<Union>c \<in> set cs. insert (p @ ''/'' @ c) (zk_below (p @ ''/'' @ c)))))"
  proof (cases "cs = []")
    case True
    then show ?thesis by (auto simp: restrict_map_def)
  next
    case False
    then show ?thesis using delete_children[of fuel s1 p cs] assms(2,3) cs(3) by simp
  qed
  then show ?thesis using cs restrict_below[of "tree s" p] by simp
qed

lemma delete_emptied:
  assumes "zk_answers Z tree" and "p \<in> dom m" and "tree s = m |` (- zk_below p)" and "zk_Delete Z p s = (r, s')"
  shows "tree s' = m |` (- insert p (zk_below p))"
proof -
  have "p \<notin> zk_below p" by (auto simp: zk_below_def HasPrefix_iff)
  then have "tree s p \<noteq> None" using assms(2,3) by auto
  moreover have "zk_children_of p (tree s) = {}"
    by (auto simp: assms(3) zk_children_of_def zk_below_def HasPrefix_iff restrict_map_def split: if_splits)
  ultimately have "r = None" using assms(1,4) unfolding zk_answers_def by (metis prod.inject)
  then have "tree s' = (tree s)(p := None)" using delete assms(4) by simp
  then show ?thesis unfolding assms(3) by (auto simp: restrict_map_def fun_eq_iff)
qed

lemma delete_shrinks: "zk_Delete Z p s = (r, s') \<Longrightarrow> tree s' \<subseteq>\<^sub>m tree s"
  using delete_any[of p s] by (auto simp: map_le_def split: if_splits)

lemma deletes: "0 < fuel \<Longrightarrow> deletes fuel"
proof (induction fuel)
  case (Suc fuel)
  show ?case
    unfolding deletes_def
  proof (intro allI impI)
    fix p :: string and s assume len: "\<forall>q \<in> dom (tree s). length q < length p + Suc fuel"
    obtain res s1 where c: "zk_Children Z p s = (res, s1)" by (cases "zk_Children Z p s")
    show "\<exists>r s'. zk_deleteRecursively (Suc fuel) Z p s = Some (r, s') \<and> tree s' \<subseteq>\<^sub>m tree s \<and>
       (zk_answers Z tree \<and> zk_closed (tree s) \<and> p \<in> dom (tree s) \<longrightarrow> tree s' = tree s |` (- insert p (zk_below p)))"
    proof (cases res)
      case (Inl e)
      have "\<not> (zk_answers Z tree \<and> p \<in> dom (tree s))"
        using c Inl unfolding zk_answers_def by (metis domIff old.sum.distinct(1) prod.inject)
      moreover have "tree s1 = tree s" using children_err c Inl by blast
      ultimately show ?thesis using c Inl delete_shrinks[of p s1] by (cases "zk_Delete Z p s1") auto
    next
      case (Inr cs)
      have "cs = [] \<or> deletes fuel"
      proof (cases "cs = []")
        case False
        then have "hd cs \<in> zk_children_of p (tree s)" using children c Inr hd_in_set by blast
        then have "p @ ''/'' @ hd cs \<in> dom (tree s)" by (simp add: zk_children_of_def)
        then have "length (p @ ''/'' @ hd cs) < length p + Suc fuel" using len by blast
        then show ?thesis using Suc.IH by simp
      qed simp
      then obtain s2 where s2: "zk_delete_children fuel Z p cs s1 = Some s2" "tree s2 \<subseteq>\<^sub>m tree s"
        "zk_answers Z tree \<and> zk_closed (tree s) \<longrightarrow> tree s2 = tree s |` (- zk_below p)"
        using listed_children[of p s cs s1 fuel] c Inr len by auto
      obtain r s3 where d: "zk_Delete Z p s2 = (r, s3)" by (cases "zk_Delete Z p s2")
      have "tree s3 \<subseteq>\<^sub>m tree s" using delete_shrinks[OF d] s2(2) map_le_trans by blast
      then show ?thesis using c Inr s2(1,3) d delete_emptied[OF _ _ _ d, of "tree s"] by simp
    qed
  qed
qed simp

lemma clean_dir:
  assumes "\<forall>q \<in> dom (tree s). length q \<le> fuel" and "0 < fuel"
  shows "\<exists>s'. zk_clean_dir fuel Z dir s = Some s' \<and> tree s' \<subseteq>\<^sub>m tree s \<and>
    (zk_answers Z tree \<and> zk_closed (tree s) \<and> dir \<noteq> [] \<longrightarrow> zk_closed (tree s') \<and> tree s' = tree s |` (- zk_below dir))"
proof (cases "zk_Children Z dir s")
  case (Pair res s1)
  show ?thesis
  proof (cases res)
    case (Inl e)
    have same: "tree s1 = tree s" using children_err Pair Inl by blast
    have "tree s = tree s |` (- zk_below dir)" if h: "zk_answers Z tree" "zk_closed (tree s)" "dir \<noteq> []"
    proof -
      have "tree s dir = None" using h(1) Pair Inl unfolding zk_answers_def by (metis old.sum.distinct(1) prod.inject)
      then have "zk_below dir \<inter> dom (tree s) = {}"
        using closed_up[OF h(2) _ h(3)] by (auto simp: zk_below_def HasPrefix_iff)
      then show ?thesis by (auto simp: restrict_map_def fun_eq_iff)
    qed
    then show ?thesis using Pair Inl same by (auto simp: zk_clean_dir_def)
  next
    case (Inr cs)
    have "length q < length dir + 1 + fuel" if "q \<in> dom (tree s)" for q
      using assms(1)[rule_format, of q] that by simp
    then show ?thesis
      using listed_children[of dir s cs s1 fuel] deletes[OF assms(2)] Pair Inr by (auto simp: zk_clean_dir_def)
  qed
qed

end

text \<open>
  C39. \<open>ForceCleanupAllTasks\<close> ends, whatever fails on the way: the recursion is no deeper than the longest
  path. On a server that answers it has removed exactly the nodes below the tasks, the deleted tasks
  and the locks.
\<close>

theorem zk_cleanup_all:
  assumes "zk_server Z tree" and "0 < fuel" and "\<forall>q \<in> dom (tree s). length q \<le> fuel"
  shows "\<exists>s'. zk_ForceCleanupAllTasks fuel Z (r, s) = Some (None, r, s') \<and>
    (zk_answers Z tree \<and> zk_closed (tree s) \<longrightarrow>
      tree s' = tree s |` (- (zk_below zkTasksPrefix \<union> zk_below zkDeletedTasks \<union> zk_below zkTaskLastExec)))"
proof -
  note dir = zk_server.clean_dir[OF assms(1) _ assms(2)]
  have ne: "zkTasksPrefix \<noteq> []" "zkDeletedTasks \<noteq> []" "zkTaskLastExec \<noteq> []" by (simp_all add: zk_prefixes)
  obtain s1 where s1: "zk_clean_dir fuel Z zkTasksPrefix s = Some s1" "tree s1 \<subseteq>\<^sub>m tree s"
    "zk_answers Z tree \<and> zk_closed (tree s) \<longrightarrow> zk_closed (tree s1) \<and> tree s1 = tree s |` (- zk_below zkTasksPrefix)"
    using dir[OF assms(3), of zkTasksPrefix] ne(1) by blast
  then have l1: "\<forall>q \<in> dom (tree s1). length q \<le> fuel" using assms(3) map_le_implies_dom_le by blast
  obtain s2 where s2: "zk_clean_dir fuel Z zkDeletedTasks s1 = Some s2" "tree s2 \<subseteq>\<^sub>m tree s1"
    "zk_answers Z tree \<and> zk_closed (tree s1) \<longrightarrow> zk_closed (tree s2) \<and> tree s2 = tree s1 |` (- zk_below zkDeletedTasks)"
    using dir[OF l1, of zkDeletedTasks] ne(2) by blast
  then have l2: "\<forall>q \<in> dom (tree s2). length q \<le> fuel" using l1 map_le_implies_dom_le by blast
  obtain s3 where s3: "zk_clean_dir fuel Z zkTaskLastExec s2 = Some s3"
    "zk_answers Z tree \<and> zk_closed (tree s2) \<longrightarrow> tree s3 = tree s2 |` (- zk_below zkTaskLastExec)"
    using dir[OF l2, of zkTaskLastExec] ne(3) by blast
  have "tree s3 = tree s |` (- (zk_below zkTasksPrefix \<union> zk_below zkDeletedTasks \<union> zk_below zkTaskLastExec))"
    if "zk_answers Z tree" "zk_closed (tree s)"
  proof -
    have t1: "zk_closed (tree s1)" "tree s1 = tree s |` (- zk_below zkTasksPrefix)" using s1(3) that by blast+
    then have t2: "zk_closed (tree s2)" "tree s2 = tree s1 |` (- zk_below zkDeletedTasks)" using s2(3) that(1) by blast+
    then have "tree s3 = tree s2 |` (- zk_below zkTaskLastExec)" using s3(2) that(1) by blast
    then show ?thesis by (simp only: t1(2) t2(2) restrict_restrict Compl_Un Int_assoc)
  qed
  then show ?thesis using s1(1) s2(1) s3(1) by (simp add: zk_ForceCleanupAllTasks_def)
qed

theorem zk_cleanup_all_witness:
  "\<exists>s'. zk_ForceCleanupAllTasks 100 mem_zk_ops (NewZookeeperRegistry, mem_zk_old) = Some (None, NewZookeeperRegistry, s') \<and>
     mz_map s' (zk_lock_key (\<lambda>s. 28800) ''job'' 0) = None"
proof -
  have answers: "zk_answers mem_zk_ops mz_map"
  proof -
    have "zk_children_of p (mz_map s) = {} \<Longrightarrow> mz_children p s = []" for p s using mz_children(1)[of p s] by simp
    then show ?thesis by (auto simp: zk_answers_def mem_zk_ops_def mz_list_def mz_delete_def)
  qed
  let ?k = "zk_lock_key (\<lambda>s. 28800) ''job'' 0" and ?roots = "[zkPrefix, zkNodePrefix, zkTasksPrefix, zkDeletedTasks, zkTaskLastExec]"
  have k: "?k = zkTaskLastExec @ ''/'' @ Format_RFC3339 (\<lambda>s. 28800) 0 @ ''-job''" by (simp add: zk_lock_key_eq)
  have "fst (civil 28800) = 1970" by code_simp
  then have "four_digit_year (\<lambda>s. 28800) 0" by (simp add: four_digit_year_def unix_second_def)
  then have "length (Format_RFC3339 (\<lambda>s. 28800) 0) = 25" using Format_length[of "\<lambda>s. 28800" 0] by (simp add: zone_ok_def)
  then have len: "length ?k \<le> 100" by (simp add: k zkTaskLastExec_def)
  have dom: "dom (mz_map mem_zk_old) = insert ?k (set ?roots)" by (auto simp: mz_map_def map_of_dom mem_zk_old_def mem_zk_roots_def)
  have below: "?k \<in> zk_below zkTaskLastExec" by (simp add: k zk_below_def HasPrefix_iff)
  have "\<forall>q \<in> dom (mz_map mem_zk_old). length q \<le> 100" using len by (simp add: dom zk_prefixes)
  moreover have "zk_parent ?k = zkTaskLastExec" unfolding k using Format_no_slash by (intro parent_child) simp
  then have "zk_closed (mz_map mem_zk_old)"
    by (intro closedI) (auto simp: dom zk_prefixes zk_parent_def)
  ultimately show ?thesis
    using zk_cleanup_all[OF mem_zk.zk_server_axioms, of 100 mem_zk_old NewZookeeperRegistry] answers below by auto
qed

end
