(* ===== verification/Std_Logger.thy ===== *)
theory Std_Logger
  imports Go_Text
begin

text \<open>
  The default logger, \<open>src/logger.go\<close>: the levels, the position of the caller, and what each method
  writes. \<open>caller\<close> is what \<open>runtime.Caller\<close> answers: the file and the line, or \<open>None\<close>. \<open>sprintf\<close> is
  \<open>fmt.Sprintf\<close> for the user's format and arguments, without explicit argument indexes.
\<close>

type_synonym LogLevel = int

definition LevelDebug :: LogLevel where "LevelDebug = 0"
definition LevelInfo :: LogLevel where "LevelInfo = 1"
definition LevelWarn :: LogLevel where "LevelWarn = 2"
definition LevelError :: LogLevel where "LevelError = 3"
definition LevelFatal :: LogLevel where "LevelFatal = 4"

lemmas log_levels = LevelDebug_def LevelInfo_def LevelWarn_def LevelError_def LevelFatal_def

record stdLogger =
  lg_level :: LogLevel

definition newStdLogger :: "LogLevel \<Rightarrow> stdLogger" where
  "newStdLogger level = \<lparr>lg_level = level\<rparr>"

definition DefaultLogger :: "LogLevel \<Rightarrow> stdLogger" where
  "DefaultLogger level = newStdLogger level"

section \<open>The position of the caller\<close>

text \<open>The loop looks for a slash from the last byte down to the second one.\<close>

fun short_name :: "string \<Rightarrow> nat \<Rightarrow> string" where
  "short_name file 0 = file"
| "short_name file (Suc i) = (if file ! Suc i = CHR ''/'' then drop (Suc i + 1) file else short_name file i)"

definition getCallerInfo :: "(string \<times> int) option \<Rightarrow> string" where
  "getCallerInfo caller =
     (case caller of
        None \<Rightarrow> ''???:0''
      | Some (file, line) \<Rightarrow> short_name file (length file - 1) @ '':'' @ Sprintf_d line)"

section \<open>The methods\<close>

text \<open>An argument with its text: \<open>fmt\<close> treats strings apart.\<close>

datatype log_arg = ArgString string | ArgOther string

fun arg_text :: "log_arg \<Rightarrow> string" where
  "arg_text (ArgString s) = s"
| "arg_text (ArgOther s) = s"

fun is_string :: "log_arg \<Rightarrow> bool" where
  "is_string (ArgString s) = True"
| "is_string (ArgOther s) = False"

text \<open>\<open>Sprintln\<close> puts a space between all operands, \<open>Sprint\<close> between two that are no strings.\<close>

fun Sprintln :: "log_arg list \<Rightarrow> string" where
  "Sprintln [] = ''''"
| "Sprintln [a] = arg_text a"
| "Sprintln (a # b # as) = arg_text a @ '' '' @ Sprintln (b # as)"

fun Sprint :: "log_arg list \<Rightarrow> string" where
  "Sprint [] = ''''"
| "Sprint [a] = arg_text a"
| "Sprint (a # b # as) = arg_text a @ (if is_string a \<or> is_string b then '''' else '' '') @ Sprint (b # as)"

text \<open>What a call does: nothing, a line, or a line and the exit of the process.\<close>

datatype log_effect = LogNothing | LogLine string | LogExit string

definition log_print :: "LogLevel \<Rightarrow> string \<Rightarrow> stdLogger \<Rightarrow> (string \<times> int) option \<Rightarrow> log_arg list \<Rightarrow> log_effect" where
  "log_print level label l caller args =
     (if lg_level l \<le> level
      then LogLine (Sprintln ([ArgString label, ArgString (getCallerInfo caller)] @ args)) else LogNothing)"

definition log_printf ::
  "LogLevel \<Rightarrow> string \<Rightarrow> stdLogger \<Rightarrow> (string \<Rightarrow> log_arg list \<Rightarrow> string) \<Rightarrow> (string \<times> int) option \<Rightarrow> string \<Rightarrow> log_arg list \<Rightarrow> log_effect" where
  "log_printf level label l sprintf caller format args =
     (if lg_level l \<le> level then LogLine (label @ '' '' @ getCallerInfo caller @ '' '' @ sprintf format args) else LogNothing)"

definition log_Debug where "log_Debug = log_print LevelDebug ''[DEBUG]''"
definition log_Info where "log_Info = log_print LevelInfo ''[INFO]''"
definition log_Warn where "log_Warn = log_print LevelWarn ''[WARN]''"
definition log_Error where "log_Error = log_print LevelError ''[ERROR]''"
definition log_Debugf where "log_Debugf = log_printf LevelDebug ''[DEBUG]''"
definition log_Infof where "log_Infof = log_printf LevelInfo ''[INFO]''"
definition log_Warnf where "log_Warnf = log_printf LevelWarn ''[WARN]''"
definition log_Errorf where "log_Errorf = log_printf LevelError ''[ERROR]''"

definition log_Fatal :: "stdLogger \<Rightarrow> (string \<times> int) option \<Rightarrow> log_arg list \<Rightarrow> log_effect" where
  "log_Fatal l caller args =
     (if lg_level l \<le> LevelFatal
      then LogExit (Sprint ([ArgString ''[FATAL]'', ArgString (getCallerInfo caller)] @ args)) else LogNothing)"

definition log_Fatalf ::
  "stdLogger \<Rightarrow> (string \<Rightarrow> log_arg list \<Rightarrow> string) \<Rightarrow> (string \<times> int) option \<Rightarrow> string \<Rightarrow> log_arg list \<Rightarrow> log_effect" where
  "log_Fatalf l sprintf caller format args =
     (if lg_level l \<le> LevelFatal
      then LogExit (''[FATAL] '' @ getCallerInfo caller @ '' '' @ sprintf format args) else LogNothing)"

section \<open>Properties\<close>

text \<open>The short name is the part after the last slash; a slash at the very beginning is kept.\<close>

lemma short_name_suffix:
  assumes "i < length file" and "CHR ''/'' \<notin> set (drop (i + 1) file)"
  shows "CHR ''/'' \<notin> set (tl (short_name file i)) \<and> (\<exists>d. file = d @ short_name file i \<and> (d = [] \<or> last d = CHR ''/''))"
  using assms
proof (induction i)
  case 0
  then show ?case by (cases "file") auto
next
  case (Suc i)
  have drop: "drop (Suc i) file = file ! Suc i # drop (Suc i + 1) file" using Suc.prems(1) by (simp add: Cons_nth_drop_Suc)
  show ?case
  proof (cases "file ! Suc i = CHR ''/''")
    case True
    then have short: "short_name file (Suc i) = drop (Suc i + 1) file" by simp
    have "take (Suc i + 1) file = take (Suc i) file @ [file ! Suc i]" using Suc.prems(1) by (simp add: take_Suc_conv_app_nth)
    then have "last (take (Suc i + 1) file) = CHR ''/''" using True by simp
    moreover have "file = take (Suc i + 1) file @ drop (Suc i + 1) file" by simp
    moreover have "CHR ''/'' \<notin> set (tl (drop (Suc i + 1) file))"
      using Suc.prems(2) list.set_sel(2)[of "drop (Suc i + 1) file"] by (cases "drop (Suc i + 1) file") auto
    ultimately show ?thesis unfolding short by blast
  next
    case False
    then show ?thesis using Suc drop by simp
  qed
qed

text \<open>The calls of a run that write something are those of the level of the logger and above.\<close>

lemma log_levels_filter:
  "log_Debug l c as = LogNothing \<longleftrightarrow> lg_level l > 0" "log_Info l c as = LogNothing \<longleftrightarrow> lg_level l > 1"
  "log_Warn l c as = LogNothing \<longleftrightarrow> lg_level l > 2" "log_Error l c as = LogNothing \<longleftrightarrow> lg_level l > 3"
  "log_Fatal l c as = LogNothing \<longleftrightarrow> lg_level l > 4" "log_Debugf l f c fm as = LogNothing \<longleftrightarrow> lg_level l > 0"
  "log_Infof l f c fm as = LogNothing \<longleftrightarrow> lg_level l > 1" "log_Warnf l f c fm as = LogNothing \<longleftrightarrow> lg_level l > 2"
  "log_Errorf l f c fm as = LogNothing \<longleftrightarrow> lg_level l > 3" "log_Fatalf l f c fm as = LogNothing \<longleftrightarrow> lg_level l > 4"
  by (simp_all add: log_Debug_def log_Info_def log_Warn_def log_Error_def log_Fatal_def log_Debugf_def log_Infof_def
      log_Warnf_def log_Errorf_def log_Fatalf_def log_print_def log_printf_def log_levels not_le)

text \<open>\<open>Fatal\<close> goes through \<open>Sprint\<close>, which puts nothing between strings: the label, the position and the
  message run together, unlike in the other methods.\<close>

lemma fatal_runs_together:
  "lg_level l \<le> LevelFatal \<Longrightarrow> log_Fatal l c [ArgString m] = LogExit (''[FATAL]'' @ getCallerInfo c @ m)"
  by (simp add: log_Fatal_def)

end
