(* ===== verification/Spec2Isabelle.thy ===== *)
theory Spec2Isabelle
  imports Cluster Node_List Event_Cleaner Redis_Registry Etcd_Registry
    Consul_Registry Zookeeper_Registry Std_Logger
begin

text \<open>
  A verification of \<^bold>\<open>dcron\<close>, a distributed cron scheduler in Go (\<open>src/\<close>).

  \<^bold>\<open>The program.\<close> Every process of a cluster is a node. It keeps a list of tasks (static ones with
  the user's code, dynamic ones described by metadata in a registry), asks an assigner which of
  them are its own, and hands those to a cron engine (\<open>github.com/robfig/cron\<close>). The nodes share
  nothing but a registry (Redis, etcd, Consul or ZooKeeper): the list of nodes with their
  heartbeats, the metadata of the dynamic tasks, the names of the deleted tasks, and a lock for each
  task and second that keeps a task from being run twice. Watchers and tickers reload the local
  copies and ask for a rebalance. An event cleaner deletes the locks some seconds after use.

  \<^bold>\<open>The theories.\<close>

  \<^item> \<open>Go_Prelude\<close>: panics as values (\<open>'a go\<close>), 64-bit integers, maps as association lists, sorting.
  \<^item> \<open>Driver\<close>: the data of \<open>driver.go\<close> (nodes, task metadata, events, constants), the errors, and the
    \<open>Registry\<close> interface as the record of functions \<open>registry_ops\<close>.
  \<^item> \<open>Go_Crc32\<close>: the checksum the assigners and the node reload use.
  \<^item> \<open>Assigner\<close>: the six strategies of \<open>assigner.go\<close> with their state and methods, and \<open>NewAssigner\<close>.
    The hash ring (\<open>github.com/golang/groupcache\<close>) is the parameter \<open>ring_ops\<close>.
  \<^item> \<open>Assigner_Laws\<close>: the contract of an assigner (locale \<open>task_assigner\<close>), interpreted for each
    strategy and for the interface value; how evenly and how stably the strategies divide the tasks.
  \<^item> \<open>Event_Heap\<close>, \<open>Event_Cleaner\<close>: \<open>event_cleaner.go\<close>. The binary heap with the loops of
    \<open>container/heap\<close>; the goroutines as steps of a transition system with bounded channels.
  \<^item> \<open>Cron_Engine\<close>: the cron library as the parameter \<open>cron_ops\<close> with its laws (locale
    \<open>cron_engine\<close>).
  \<^item> \<open>Registry\<close>: the lock contract of a registry (locale \<open>exec_lock\<close>) and a registry in memory.
  \<^item> \<open>Dcron\<close>: the scheduler: \<open>dcron.go\<close>, \<open>dcron_internal.go\<close>, \<open>task.go\<close>, \<open>option.go\<close>,
    \<open>supporter.go\<close>. Task objects live in a store and are shared by address, as the pointers are.
  \<^item> \<open>Dcron_Inv\<close>: the invariant between the task maps and the cron engine, kept by every section
    under \<open>tasksRWMux\<close>.
  \<^item> \<open>Rebalance\<close>: \<open>doRebalanced\<close> against the list \<open>plan\<close>, for any assigner with the contract.
  \<^item> \<open>Scheduler\<close>: the sections as a step relation \<open>sched_step\<close>; the invariant for all reachable
    states; rebalancing with the built-in assigners.
  \<^item> \<open>Task_Api\<close>: the API calls and the task events: each a sequence of steps, and its effect.
  \<^item> \<open>Execution\<close>: \<open>task.Run\<close>, \<open>Start\<close>, \<open>Stop\<close>, \<open>waitForShutdown\<close>.
  \<^item> \<open>Cluster\<close>: several nodes.
  \<^item> \<open>Node_List\<close>: node IDs and the reload of the node list.
  \<^item> \<open>Go_Text\<close>, \<open>Go_Time\<close>: decimal numbers, string prefixes, slash-separated paths; the civil calendar and
    the RFC 3339 text of a time.
  \<^item> \<open>Backend\<close>: what the back ends share: the JSON codec as a parameter (locale \<open>json_texts\<close>), sending into
    a bounded channel, the event cleaner of a back end, and how the keys of the execution locks give
    the lock contract (locale \<open>lock_keys\<close>).
  \<^item> \<open>Redis_Registry\<close>, \<open>Etcd_Registry\<close>, \<open>Consul_Registry\<close>, \<open>Zookeeper_Registry\<close>: the back ends \<open>redis.go\<close>,
    \<open>etcd.go\<close>, \<open>consul.go\<close> and \<open>zookeeper.go\<close>, method by method. The client library is a record of
    functions on the state of the server, its laws are a locale (\<open>redis_server\<close>, \<open>etcd_server\<close>,
    \<open>consul_server\<close>, \<open>zk_server\<close>), and a server in memory shows that the laws hold together. The
    goroutines that watch are functions from what they receive to what they send.
  \<^item> \<open>Std_Logger\<close>: \<open>logger.go\<close>.

  \<^bold>\<open>What the theorems show.\<close> With any built-in strategy, nodes that agree on the node list, the tasks
  and the deleted names give every task to exactly one node by one rebalance each (\<open>Cluster\<close>). On
  a node, whatever the order of calls, events, reloads and rebalances, the entries of the cron
  engine are exactly the assigned tasks, with current schedules and no duplicates (\<open>Scheduler\<close>); a
  rebalance reaches the specified assignment, never panics with an accepted node list, and is
  idempotent. A task runs at most once for each second in the cluster, a deleted task does not
  run, a one-shot task is off the schedule after its run (\<open>Execution\<close>). The cleaner loses no key and
  handles none early while it lives, and can always empty its queues (\<open>Event_Cleaner\<close>). Each back end
  gives the lock contract the scheduler needs, so that a task runs at most once for each second in a
  cluster on it, for the task names and locations the theorems name. Tasks that are put are read back,
  nodes that register are read back, the watch of Consul keeps a receiver equal to the server, a node
  update on ZooKeeper loses no concurrent one, the recursive deletion ends. Some theorems
  show where the code does not do what it means to: a put event for an unknown task, the weighted
  strategy with default weights, the restart of a stopped service, an update of a running dynamic
  task, a membership change hidden by the checksum, locks of nodes in different time zones, a scan
  that does not end, marks of deleted tasks that vanish, a lease that is dropped, a cleanup that does
  not end or panics, a watcher that dies.

  \<^bold>\<open>Conventions.\<close> A Go panic is \<open>Inl p\<close>; an error result is an \<open>error option\<close> or a sum. Operations
  that call the registry take and return its state \<open>'g\<close>; the part of an operation under the lock is
  a definition of its own (\<open>..._locked\<close>), which is the grain of the interleavings. The choice a
  \<open>select\<close> makes is a relation or a list of outcomes. Loops are total functions: those over slices
  and maps recur on the list, the heap loops on a measure. The loops
  that may not end take fuel, and the theorems say when it is enough: the scan of the Redis tasks,
  the pages of the Consul keys, the depth of the ZooKeeper tree. Time is a number of
  nanoseconds. Go maps are association lists with distinct keys; where a \<open>range\<close> over a map has an
  effect that depends on the order, the list order stands for any order.

  \<^bold>\<open>Not modelled.\<close> The client libraries and servers of the back ends, the cron library, the hash ring,
  \<open>encoding/json\<close> and \<open>time.Parse\<close> are parameters with the laws the code relies on. The date prefix of log lines and
  the examples are left out. The user's task code and error handler are represented by how their
  calls end.
\<close>

end
